(* ===== verification/Prelude.thy ===== *)
theory Prelude
  imports Main "HOL-Library.Word" "HOL-Library.AList" "HOL-Library.Monad_Syntax"
begin

text \<open>
  The vocabulary shared by every component: the Go types of the message server as HOL types,
  the protocol's reason codes, errors as values, and the generic facts on lists, association
  lists and transition systems the component theories rest on.

  \<^item> A \<open>[]byte\<close> is a list of bytes; where the code distinguishes a nil slice from an empty one
    the field is \<open>bytes option\<close> and \<open>None\<close> is nil.
  \<^item> \<open>uint8\<close>, \<open>uint32\<close>, \<open>uint64\<close> (and the counters of type \<open>int64\<close>) keep their width.
  \<^item> A \<open>time.Time\<close> is the number of nanoseconds since Go's zero time, so the zero value is 0; a
    \<open>time.Duration\<close> is a number of nanoseconds. Neither is bounded here: Go's \<open>Time\<close> covers
    far more than any clock, and no duration in the modelled code is computed from a client's value.
  \<^item> A Go map the code only looks up and writes is a HOL map; one the code counts or iterates
    over is an association list with distinct keys.
  \<^item> A refusal the client is answered is a \<open>reason\<close>; a Go error is the left of a sum.
\<close>

type_synonym byte = "8 word"
type_synonym bytes = "byte list"
type_synonym u8 = "8 word"
type_synonym u16 = "16 word"
type_synonym u32 = "32 word"
type_synonym u64 = "64 word"
type_synonym time = int
type_synonym duration = int
type_synonym hash = "bytes \<Rightarrow> bytes"

text \<open>
  The reason codes of the protocol that this server names. A result the code starts from its zero
  value is started from \<open>REASON_OK\<close> here; every path that answers one sets its reason first.
\<close>

datatype reason =
    REASON_OK
  | REASON_REJECTED
  | REASON_INTERNAL
  | REASON_OVERSIZE
  | REASON_UNSUPPORTED_VERSION
  | REASON_EPOCH_STALE
  | REASON_EPOCH_INCOMPLETE
  | REASON_COMMIT_LOST
  | REASON_STREAM_INDEX_REUSED
  | REASON_STREAM_INDEX_REGRESSED
  | REASON_RETENTION_CLAMPED
  | REASON_CARD_RETIRED
  | REASON_CARD_RATE_LIMITED

text \<open>\<open>ctx.Err()\<close>: a context that has ended, or \<open>None\<close> for a live one.\<close>

datatype ctx_err = Canceled | DeadlineExceeded
type_synonym ctx = "ctx_err option"

text \<open>
  The early return of Go: \<open>if err := check; err != nil { return err }\<close> in front of the rest.
\<close>

fun guard :: "'e option \<Rightarrow> 'e + 'a \<Rightarrow> 'e + 'a" where
  "guard None k = k"
| "guard (Some e) k = Inl e"

lemma guard_Inr [simp]: "guard e k = Inr a \<longleftrightarrow> e = None \<and> k = Inr a"
  by (cases e) auto

lemma guard_Inl: "guard e k = Inl x \<longleftrightarrow> e = Some x \<or> (e = None \<and> k = Inl x)"
  by (cases e) auto

text \<open>The length of a slice that may be nil.\<close>

definition slen :: "bytes option \<Rightarrow> nat" where
  "slen s = (case s of None \<Rightarrow> 0 | Some b \<Rightarrow> length b)"

text \<open>A test of the value of a fallible computation, for evaluating concrete runs.\<close>

fun some_sat :: "('a \<Rightarrow> bool) \<Rightarrow> 'a option \<Rightarrow> bool" where
  "some_sat P None = False"
| "some_sat P (Some a) = P a"

fun right_sat :: "('a \<Rightarrow> bool) \<Rightarrow> 'e + 'a \<Rightarrow> bool" where
  "right_sat P (Inl e) = False"
| "right_sat P (Inr a) = P a"

lemma some_sat_iff: "some_sat P x \<longleftrightarrow> (\<exists>a. x = Some a \<and> P a)"
  by (cases x) auto

lemma right_sat_iff: "right_sat P x \<longleftrightarrow> (\<exists>a. x = Inr a \<and> P a)"
  by (cases x) auto

lemmas sat_iff = some_sat_iff right_sat_iff

section \<open>Lists\<close>

lemma sorted_wrt_snoc [simp]:
  "sorted_wrt P (xs @ [x]) \<longleftrightarrow> sorted_wrt P xs \<and> (\<forall>y \<in> set xs. P y x)"
  by (simp add: sorted_wrt_append)

lemma sorted_wrt_last:
  fixes f :: "'a \<Rightarrow> 'b::linorder"
  shows "sorted_wrt (\<lambda>x y. f x < f y) xs \<Longrightarrow> x \<in> set xs \<Longrightarrow> f x \<le> f (last xs)"
  by (induction xs rule: rev_induct) (auto simp: less_imp_le)

lemma distinct_map_sorted_wrt: "sorted_wrt (\<lambda>x y. f x \<noteq> f y) xs \<Longrightarrow> distinct (map f xs)"
  by (induction xs) auto

lemma sorted_wrt_False: "sorted_wrt (\<lambda>x y. False) xs \<Longrightarrow> length xs \<le> 1"
  by (cases xs; cases "tl xs") auto

text \<open>The index of the first element a test selects: the shape of a loop that returns early.\<close>

fun first_index :: "('a \<Rightarrow> bool) \<Rightarrow> nat \<Rightarrow> 'a list \<Rightarrow> nat option" where
  "first_index P n [] = None"
| "first_index P n (x # xs) = (if P x then Some n else first_index P (Suc n) xs)"

lemma first_index_None: "first_index P n xs = None \<longleftrightarrow> (\<forall>x \<in> set xs. \<not> P x)"
  by (induction xs arbitrary: n) auto

lemma first_index_Some:
  "first_index P n xs = Some k \<Longrightarrow> n \<le> k \<and> k < n + length xs \<and> P (xs ! (k - n))"
proof (induction xs arbitrary: n)
  case Nil
  then show ?case by simp
next
  case (Cons x xs)
  show ?case
  proof (cases "P x")
    case True
    with Cons.prems show ?thesis by auto
  next
    case False
    with Cons.prems have "first_index P (Suc n) xs = Some k" by simp
    from Cons.IH [OF this] show ?thesis by (auto simp: nth_Cons')
  qed
qed

section \<open>Maps\<close>

lemma map_leD: "m \<subseteq>\<^sub>m m' \<Longrightarrow> m k = Some v \<Longrightarrow> m' k = Some v"
  by (metis domI map_le_def)

section \<open>Words\<close>

lemma unat_Suc_of_nat:
  assumes "n < 2 ^ 64"
  shows "unat (of_nat n :: u64) = n"
  using assms by (simp add: unat_of_nat)

lemma of_nat_u64_inj:
  assumes "m < 2 ^ 64" and "n < 2 ^ 64" and "(of_nat m :: u64) = of_nat n"
  shows "m = n"
proof -
  from assms(3) have "unat (of_nat m :: u64) = unat (of_nat n :: u64)" by simp
  with assms(1,2) show ?thesis by (simp add: unat_of_nat)
qed

lemma of_nat_u64_less:
  assumes "m < 2 ^ 64" and "n < 2 ^ 64"
  shows "(of_nat m :: u64) < of_nat n \<longleftrightarrow> m < n"
  using assms by (simp add: word_less_nat_alt unat_of_nat)

lemma of_nat_u64_le:
  assumes "m < 2 ^ 64" and "n < 2 ^ 64"
  shows "(of_nat m :: u64) \<le> of_nat n \<longleftrightarrow> m \<le> n"
  using assms by (simp add: word_le_nat_alt unat_of_nat)

lemma ucast_add_one: "(ucast (x + 1 :: u64) :: u32) = ucast x + 1"
proof transfer
  fix x :: int
  have "take_bit 32 (take_bit 32 x + take_bit 32 1) = take_bit 32 (x + 1)" by (rule take_bit_add)
  moreover have "take_bit 32 (take_bit 32 (take_bit 64 x) + take_bit 32 1) = take_bit 32 (take_bit 64 x + 1)"
    by (rule take_bit_add)
  ultimately show "take_bit LENGTH(32) (take_bit LENGTH(64) (x + 1)) =
      take_bit LENGTH(32) (take_bit LENGTH(64) x + 1)"
    by simp
qed
section \<open>Transition systems\<close>

text \<open>
  What every stateful component is held to: a set of starting states, a step relation, and an
  invariant that the start satisfies and every step keeps.
\<close>

locale transition_system =
  fixes start :: "'s \<Rightarrow> bool"
    and step :: "'s \<Rightarrow> 's \<Rightarrow> bool"
    and inv :: "'s \<Rightarrow> bool"
  assumes inv_start: "start s \<Longrightarrow> inv s"
    and inv_step: "inv s \<Longrightarrow> step s t \<Longrightarrow> inv t"
begin

lemma inv_steps:
  assumes "step\<^sup>*\<^sup>* s t" and "inv s"
  shows "inv t"
  using assms by (induction rule: rtranclp_induct) (auto intro: inv_step)

lemma inv_reachable:
  assumes "start s" and "step\<^sup>*\<^sup>* s t"
  shows "inv t"
  using assms(2) inv_start [OF assms(1)] by (rule inv_steps)

end

end
