(* ===== verification/Records.thy ===== *)
theory Records
  imports Prelude
begin

text \<open>
  The data the store is built over (\<open>src/store/store.go\<close>): the record and its attachments, the
  retention limits and the arithmetic that applies them, the reason a record is accepted with, the
  epoch a commit opens, and the shape checks every record passes before it is looked at.

  A record handed to the store by pointer is the record value: the store clones on the way in and
  on the way out (\<open>cloneRecord\<close>, \<open>cloneAttachment\<close>), so no two holders share one. A nil
  record pointer has no value here; the code that receives one panics in \<open>validateRecord\<close>.
\<close>

section \<open>Constants\<close>

definition GroupIdBytes :: nat where "GroupIdBytes = 32"
definition SenderHandleBytes :: nat where "SenderHandleBytes = 16"
definition BodyHashBytes :: nat where "BodyHashBytes = 32"
definition RecoveryHandleBytes :: nat where "RecoveryHandleBytes = 16"
definition WrapTargetHandleBytes :: nat where "WrapTargetHandleBytes = 16"
definition BlobIdBytes :: nat where "BlobIdBytes = 32"
definition GroupContextHashBytes :: nat where "GroupContextHashBytes = 32"
definition VerifyPubBytes :: nat where "VerifyPubBytes = 32"
definition EpochKeyBytes :: nat where "EpochKeyBytes = 32"

definition firstRecordId :: u64 where "firstRecordId = 1"

definition ClassPermanent :: u8 where "ClassPermanent = 0x00"
definition ClassDurable :: u8 where "ClassDurable = 0x01"
definition ClassMedia :: u8 where "ClassMedia = 0x02"
definition ClassEphBase :: u8 where "ClassEphBase = 0x10"
definition ClassEphMax :: u8 where "ClassEphMax = 0x15"

definition EphWindowMax :: u64 where "EphWindowMax = 0x7FFFFFFFFFFFFFFF"

definition ephBucketSeconds :: "u32 list" where
  "ephBucketSeconds = [0, 3600, 28800, 86400, 604800, 2419200]"

definition DurableUnset :: u32 where "DurableUnset = 0"
definition DurableIndefinite :: u32 where "DurableIndefinite = 0xFFFFFFFF"

lemmas shape_defs =
  GroupIdBytes_def SenderHandleBytes_def BodyHashBytes_def RecoveryHandleBytes_def
  WrapTargetHandleBytes_def BlobIdBytes_def GroupContextHashBytes_def VerifyPubBytes_def
  EpochKeyBytes_def

lemmas class_defs =
  ClassPermanent_def ClassDurable_def ClassMedia_def ClassEphBase_def ClassEphMax_def

section \<open>Errors\<close>

text \<open>The sentinels of the package, and an ended context's error, which every method returns as it is.\<close>

datatype store_error =
    ErrGroupUnavailable
  | ErrEpochKeyUnknown
  | ErrTransientRecord
  | ErrIdentifierShape
  | ErrRetentionClass
  | ErrSizeBucket
  | ErrEphWindowClass
  | ErrEphWindowRange
  | ErrInlineOrBlob
  | ErrCommitBatch
  | ErrEmptyBatch
  | ErrLinkBoxShape
  | ErrLinkBoxTtl
  | ErrLinkBoxUnknown
  | ErrLinkBoxLiveCap
  | ErrCtx ctx_err

definition ctxErr :: "ctx \<Rightarrow> store_error option" where
  "ctxErr ctx = map_option ErrCtx ctx"

lemma ctxErr_None [simp]: "ctxErr None = None"
  by (simp add: ctxErr_def)

section \<open>Attachments and records\<close>

datatype AttachmentKind =
    AttachmentNone
  | AttachmentEpoch
  | AttachmentWrap
  | AttachmentRecovery
  | AttachmentEpochComplete
  | AttachmentEpochDigest

record EpochAttachment =
  eaEpoch :: u64
  eaWriteKey :: bytes
  eaReadKey :: bytes
  eaAlgId :: u32
  eaMediaTtlSeconds :: u32
  eaDurableTtlSeconds :: u32
  eaGroupContextHash :: "bytes option"
  eaExpectedWrapCount :: u32

record EpochDigestAttachment =
  edEpoch :: u64
  edAlgId :: u32
  edMediaTtlSeconds :: u32
  edDurableTtlSeconds :: u32
  edGroupContextHash :: "bytes option"
  edExpectedWrapCount :: u32
  edEpochKeysDigest :: bytes

record EpochKeyDelivery =
  kdWriteKey :: bytes
  kdReadKey :: bytes

record WrapTag =
  wtTargetHandle :: bytes
  wtLeafIndex :: u32

record RecoveryTag =
  rtHandle :: bytes
  rtVerifyPub :: bytes
  rtAlgId :: u32

record EpochCompleteTag =
  ecEpoch :: u64
  ecWrapCount :: u32

text \<open>A pointer field of the parsed attachment is an option: nil is \<open>None\<close>.\<close>

record Attachment =
  atKind :: AttachmentKind
  atEpoch :: "EpochAttachment option"
  atWrap :: "WrapTag option"
  atRecovery :: "RecoveryTag option"
  atEpochComplete :: "EpochCompleteTag option"
  atEpochDigest :: "EpochDigestAttachment option"

record Record =
  rSenderHandle :: bytes
  rEpoch :: u64
  rStreamIndex :: u64
  rIsCommit :: bool
  rRetentionClass :: u8
  rEphWindow :: u64
  rSizeBucket :: u8
  rExpireAtMs :: u64
  rBodyHash :: bytes
  rCtHead :: bytes
  rCtBody :: "bytes option"
  rBlobId :: "bytes option"
  rServerAttachment :: bytes
  rAttachment :: "Attachment option"
  rRecordId :: u64
  rPruneAfter :: "time option"

section \<open>The epoch a commit opens\<close>

record epochOpening =
  eoEpoch :: u64
  eoAlgId :: u32
  eoMediaTtlSeconds :: u32
  eoDurableTtlSeconds :: u32
  eoGroupContextHash :: "bytes option"
  eoExpectedWrapCount :: u32
  eoWriteKey :: bytes
  eoReadKey :: bytes

text \<open>
  The opening a commit announces, given the delivery beside it: the keys are the attachment's own
  under one kind and the request's under the other, and a delivery the kind has no use for is
  refused.
\<close>

definition openingOf :: "Record \<Rightarrow> EpochKeyDelivery option \<Rightarrow> epochOpening option" where
  "openingOf record keys =
     (case rAttachment record of
        None \<Rightarrow> None
      | Some attached \<Rightarrow>
         (case atKind attached of
            AttachmentEpoch \<Rightarrow>
              (case atEpoch attached of
                 None \<Rightarrow> None
               | Some a \<Rightarrow>
                   (if keys \<noteq> None then None
                    else Some \<lparr> eoEpoch = eaEpoch a, eoAlgId = eaAlgId a,
                           eoMediaTtlSeconds = eaMediaTtlSeconds a,
                           eoDurableTtlSeconds = eaDurableTtlSeconds a,
                           eoGroupContextHash = eaGroupContextHash a,
                           eoExpectedWrapCount = eaExpectedWrapCount a,
                           eoWriteKey = eaWriteKey a, eoReadKey = eaReadKey a \<rparr>))
          | AttachmentEpochDigest \<Rightarrow>
              (case atEpochDigest attached of
                 None \<Rightarrow> None
               | Some a \<Rightarrow>
                   (case keys of
                      None \<Rightarrow> None
                    | Some k \<Rightarrow> Some \<lparr> eoEpoch = edEpoch a, eoAlgId = edAlgId a,
                           eoMediaTtlSeconds = edMediaTtlSeconds a,
                           eoDurableTtlSeconds = edDurableTtlSeconds a,
                           eoGroupContextHash = edGroupContextHash a,
                           eoExpectedWrapCount = edExpectedWrapCount a,
                           eoWriteKey = kdWriteKey k, eoReadKey = kdReadKey k \<rparr>))
          | _ \<Rightarrow> None))"

section \<open>Retention\<close>

record Limits =
  MediaTtlMaxSeconds :: u32
  MediaTtlDefaultSeconds :: u32
  DurableTtlMaxSeconds :: u32
  DurableTtlDefaultSeconds :: u32
  DurableRetentionMinSeconds :: u32

definition DefaultLimits :: Limits where
  "DefaultLimits = \<lparr> MediaTtlMaxSeconds = 2592000, MediaTtlDefaultSeconds = 2592000,
     DurableTtlMaxSeconds = 0, DurableTtlDefaultSeconds = 31536000,
     DurableRetentionMinSeconds = 0 \<rparr>"

record RetentionApplied =
  raMediaTtlSeconds :: u32
  raDurableTtlSeconds :: u32
  raMediaClampedDown :: bool
  raDurableFlooredUp :: bool
  raDurableClampedDown :: bool
  raDurableDefaulted :: bool
  raRequestedMediaTtlSeconds :: u32
  raRequestedDurableTtlSeconds :: u32

definition clamped :: "RetentionApplied \<Rightarrow> bool" where
  "clamped a \<longleftrightarrow> raMediaClampedDown a \<or> raDurableFlooredUp a \<or> raDurableClampedDown a"

definition acceptanceReason :: "RetentionApplied option \<Rightarrow> reason" where
  "acceptanceReason applied =
     (case applied of
        None \<Rightarrow> REASON_OK
      | Some a \<Rightarrow> (if clamped a then REASON_RETENTION_CLAMPED else REASON_OK))"

definition accepted :: "reason \<Rightarrow> bool" where
  "accepted r \<longleftrightarrow> r = REASON_OK \<or> r = REASON_RETENTION_CLAMPED"

lemma accepted_acceptanceReason [simp]: "accepted (acceptanceReason a)"
  by (auto simp: acceptanceReason_def accepted_def split: option.splits)

text \<open>
  The durable half of \<open>apply\<close>: the value stored (nil is indefinite) and its three flags,
  floored up, clamped down, defaulted.
\<close>

definition applyDurable :: "Limits \<Rightarrow> u32 \<Rightarrow> u32 option \<times> bool \<times> bool \<times> bool" where
  "applyDurable l requested =
     (if requested = DurableUnset then
        (if DurableTtlDefaultSeconds l = 0 \<and> DurableTtlMaxSeconds l = 0 then None
         else if DurableTtlDefaultSeconds l = 0 then Some (DurableTtlMaxSeconds l)
         else if DurableTtlMaxSeconds l = 0 then Some (DurableTtlDefaultSeconds l)
         else Some (min (DurableTtlDefaultSeconds l) (DurableTtlMaxSeconds l)),
         False, False, True)
      else if requested = DurableIndefinite then
        (if DurableTtlMaxSeconds l = 0 then (None, False, False, False)
         else (Some (DurableTtlMaxSeconds l), False, True, False))
      else
        (let floored = requested < DurableRetentionMinSeconds l;
             value1 = (if floored then DurableRetentionMinSeconds l else requested);
             lowered = DurableTtlMaxSeconds l \<noteq> 0 \<and> DurableTtlMaxSeconds l < value1;
             value2 = (if lowered then DurableTtlMaxSeconds l else value1)
         in (Some value2, floored, lowered, False)))"

definition applyLimits :: "Limits \<Rightarrow> epochOpening \<Rightarrow> u32 \<times> u32 option \<times> RetentionApplied" where
  "applyLimits l opening =
     (let media0 = (if eoMediaTtlSeconds opening = 0 then MediaTtlDefaultSeconds l
                    else eoMediaTtlSeconds opening);
          media = (if MediaTtlMaxSeconds l \<noteq> 0 \<and> MediaTtlMaxSeconds l < media0
                   then MediaTtlMaxSeconds l else media0);
          (durable, floored, lowered, defaulted) = applyDurable l (eoDurableTtlSeconds opening)
      in (media, durable,
          \<lparr> raMediaTtlSeconds = media,
            raDurableTtlSeconds = (case durable of None \<Rightarrow> DurableIndefinite | Some d \<Rightarrow> d),
            raMediaClampedDown = media < media0,
            raDurableFlooredUp = floored,
            raDurableClampedDown = lowered,
            raDurableDefaulted = defaulted,
            raRequestedMediaTtlSeconds = eoMediaTtlSeconds opening,
            raRequestedDurableTtlSeconds = eoDurableTtlSeconds opening \<rparr>))"

text \<open>
  When a row is due to be pruned, for the two classes that never prune \<open>None\<close>. The outer option
  is the index \<open>ephBucketSeconds[bucket]\<close>, which panics past the table: \<open>None\<close> there is the
  panic, and \<open>pruneAfter_total\<close> shows no validated record reaches it. The bucket is a
  \<open>uint8\<close> difference and wraps.
\<close>

definition seconds :: "u32 \<Rightarrow> duration" where
  "seconds s = int (unat s) * 1000000000"

definition pruneAfter :: "time \<Rightarrow> u8 \<Rightarrow> u32 \<Rightarrow> u32 option \<Rightarrow> time option option" where
  "pruneAfter now class mediaTtl durableTtl =
     (if class = ClassPermanent then Some None
      else if class = ClassDurable then
        Some (map_option (\<lambda>d. now + seconds d) durableTtl)
      else if class = ClassMedia then Some (Some (now + seconds mediaTtl))
      else (let bucket = unat (class - ClassEphBase)
            in if bucket < length ephBucketSeconds
               then Some (Some (now + seconds (ephBucketSeconds ! bucket)))
               else None))"

section \<open>What a record carries\<close>

definition recordBytes :: "Record \<Rightarrow> u64" where
  "recordBytes r = of_nat (length (rCtHead r) + slen (rCtBody r))"

definition attachmentKindOf :: "Record \<Rightarrow> AttachmentKind" where
  "attachmentKindOf r = (case rAttachment r of None \<Rightarrow> AttachmentNone | Some a \<Rightarrow> atKind a)"

definition recoveryTagOf :: "Record \<Rightarrow> RecoveryTag option" where
  "recoveryTagOf r =
     (if attachmentKindOf r \<noteq> AttachmentRecovery then None
      else case rAttachment r of None \<Rightarrow> None | Some a \<Rightarrow> atRecovery a)"

definition epochCompleteTagOf :: "Record \<Rightarrow> EpochCompleteTag option" where
  "epochCompleteTagOf r =
     (if attachmentKindOf r \<noteq> AttachmentEpochComplete then None
      else case rAttachment r of None \<Rightarrow> None | Some a \<Rightarrow> atEpochComplete a)"

definition exemptFromEpochComplete :: "Record \<Rightarrow> bool" where
  "exemptFromEpochComplete r =
     (case attachmentKindOf r of
        AttachmentWrap \<Rightarrow> True | AttachmentEpochComplete \<Rightarrow> True | _ \<Rightarrow> False)"

definition isEpochAttachmentKind :: "AttachmentKind \<Rightarrow> bool" where
  "isEpochAttachmentKind k =
     (case k of AttachmentEpoch \<Rightarrow> True | AttachmentEpochDigest \<Rightarrow> True | _ \<Rightarrow> False)"

definition wellFormedEpochAttachment :: "Record \<Rightarrow> u64 \<Rightarrow> EpochKeyDelivery option \<Rightarrow> bool" where
  "wellFormedEpochAttachment r opens keys =
     (case openingOf r keys of
        None \<Rightarrow> False
      | Some o' \<Rightarrow>
          eoEpoch o' = opens \<and> length (eoWriteKey o') = EpochKeyBytes \<and>
          length (eoReadKey o') = EpochKeyBytes \<and> eoExpectedWrapCount o' \<noteq> 0 \<and>
          \<not> (eoGroupContextHash o' \<noteq> None \<and> slen (eoGroupContextHash o') \<noteq> GroupContextHashBytes))"

section \<open>The shape checks\<close>

definition checkLength :: "bytes \<Rightarrow> nat \<Rightarrow> store_error option" where
  "checkLength b want = (if length b \<noteq> want then Some ErrIdentifierShape else None)"

definition ephWindowClassAllows :: "u8 \<Rightarrow> bool" where
  "ephWindowClassAllows class \<longleftrightarrow> ClassEphBase < class \<and> class \<le> ClassEphMax"

text \<open>\<open>if err := first; err != nil { return err }; return second\<close>\<close>

definition or_else :: "'e option \<Rightarrow> 'e option \<Rightarrow> 'e option" where
  "or_else a b = (case a of None \<Rightarrow> b | Some e \<Rightarrow> Some e)"

definition validateAttachment :: "Record \<Rightarrow> store_error option" where
  "validateAttachment r =
     (case rAttachment r of
        None \<Rightarrow> None
      | Some a \<Rightarrow>
         (case atKind a of
            AttachmentWrap \<Rightarrow>
              (case atWrap a of None \<Rightarrow> Some ErrIdentifierShape
               | Some w \<Rightarrow> checkLength (wtTargetHandle w) WrapTargetHandleBytes)
          | AttachmentRecovery \<Rightarrow>
              (case atRecovery a of None \<Rightarrow> Some ErrIdentifierShape
               | Some t \<Rightarrow> or_else (checkLength (rtHandle t) RecoveryHandleBytes)
                           (checkLength (rtVerifyPub t) VerifyPubBytes))
          | AttachmentEpochComplete \<Rightarrow>
              (if atEpochComplete a = None then Some ErrIdentifierShape else None)
          | AttachmentEpoch \<Rightarrow>
              (if atEpoch a = None then Some ErrIdentifierShape else None)
          | _ \<Rightarrow> None))"

definition validateRecord :: "Record \<Rightarrow> store_error option" where
  "validateRecord r =
     or_else (checkLength (rSenderHandle r) SenderHandleBytes)
    (or_else (checkLength (rBodyHash r) BodyHashBytes)
    (or_else (if length (rCtHead r) = 0 then Some ErrIdentifierShape else None)
    (or_else (if 5 < rSizeBucket r then Some ErrSizeBucket else None)
    (or_else (if rRetentionClass r \<le> ClassMedia then None
              else if ClassEphBase \<le> rRetentionClass r \<and> rRetentionClass r \<le> ClassEphMax then None
              else Some ErrRetentionClass)
    (or_else (if rRetentionClass r = ClassEphBase then Some ErrTransientRecord else None)
    (or_else (if EphWindowMax < rEphWindow r then Some ErrEphWindowRange else None)
    (or_else (if rEphWindow r \<noteq> 0 \<and> \<not> ephWindowClassAllows (rRetentionClass r)
              then Some ErrEphWindowClass else None)
    (or_else (if rCtBody r \<noteq> None \<and> rBlobId r \<noteq> None then Some ErrInlineOrBlob else None)
    (or_else (case rBlobId r of None \<Rightarrow> None | Some b \<Rightarrow> checkLength b BlobIdBytes)
       (validateAttachment r))))))))))"

section \<open>Requests and answers\<close>

record GroupState =
  gsCurrentEpoch :: u64
  gsNextRecordId :: u64
  gsMediaTtlSeconds :: u32
  gsDurableTtlSeconds :: "u32 option"
  gsPolicyVersion :: u32
  gsEpochComplete :: bool
  gsGroupContextHash :: "bytes option"

record EpochKeys =
  ekEpoch :: u64
  ekWriteKey :: "bytes option"
  ekReadKey :: "bytes option"
  ekReadKeyInstall :: time
  ekAlgId :: u32
  ekOpenedByRecord :: u64
  ekAcceptTime :: time
  ekRetireTime :: time

record CreateGroupRequest =
  cqGroupId :: bytes
  cqInitialCommit :: "Record option"
  cqBootstrapWriteKey :: bytes
  cqEpochKeys :: "EpochKeyDelivery option"

record CreateGroupResult =
  crReason :: reason
  crCurrentEpoch :: u64
  crRecordId :: u64
  crApplied :: "RetentionApplied option"

record SubmitRequest =
  sqGroupId :: bytes
  sqRecords :: "Record list"
  sqEpochKeys :: "EpochKeyDelivery option"

record SubmitResult =
  srReason :: reason
  srRecordId :: u64
  srCurrentEpoch :: u64
  srWinningCommit :: "Record option"
  srApplied :: "RetentionApplied option"

definition zeroResult :: SubmitResult where
  "zeroResult = \<lparr> srReason = REASON_OK, srRecordId = 0, srCurrentEpoch = 0,
     srWinningCommit = None, srApplied = None \<rparr>"

record FetchRequest =
  fqGroupId :: bytes
  fqSinceRecordId :: u64
  fqLimit :: u32
  fqHeadsOnly :: bool
  fqClassMask :: u32
  fqReadEpoch :: u64

record FetchResult =
  frRecords :: "Record list"
  frNextRecordId :: u64
  frHighWaterRecordId :: u64
  frComplete :: bool

section \<open>The batch machinery\<close>

datatype probeOutcome = probeAbsent | probeIdentical | probeDiffers

record pending =
  pRecord :: Record
  pResult :: SubmitResult
  pProbe :: probeOutcome
  pSettled :: bool

text \<open>Every response is built here, and a refusal names no record id.\<close>

definition resultsOf :: "pending list \<Rightarrow> SubmitResult list" where
  "resultsOf batch =
     map (\<lambda>p. if accepted (srReason (pResult p)) then pResult p
              else (pResult p)\<lparr>srRecordId := 0\<rparr>) batch"

definition refuseUnavailable :: "pending list \<Rightarrow> SubmitResult list" where
  "refuseUnavailable batch =
     resultsOf (map (\<lambda>p. if pProbe p = probeIdentical then p
                         else p\<lparr>pResult := zeroResult\<lparr>srReason := REASON_REJECTED\<rparr>\<rparr>) batch)"

section \<open>Concrete records\<close>

text \<open>A concrete founding commit and a concrete ordinary record, for the witnesses.\<close>

definition demoOpening :: EpochAttachment where
  "demoOpening = \<lparr> eaEpoch = 1, eaWriteKey = replicate 32 1, eaReadKey = replicate 32 2,
     eaAlgId = 1, eaMediaTtlSeconds = 0, eaDurableTtlSeconds = 0, eaGroupContextHash = None,
     eaExpectedWrapCount = 1 \<rparr>"

definition demoAttachment :: Attachment where
  "demoAttachment = \<lparr> atKind = AttachmentEpoch, atEpoch = Some demoOpening, atWrap = None,
     atRecovery = None, atEpochComplete = None, atEpochDigest = None \<rparr>"

definition demoCommit :: Record where
  "demoCommit = \<lparr> rSenderHandle = replicate 16 7, rEpoch = 0, rStreamIndex = 1, rIsCommit = True,
     rRetentionClass = ClassPermanent, rEphWindow = 0, rSizeBucket = 0, rExpireAtMs = 0,
     rBodyHash = replicate 32 3, rCtHead = [1], rCtBody = None, rBlobId = None,
     rServerAttachment = [], rAttachment = Some demoAttachment, rRecordId = 0, rPruneAfter = None \<rparr>"

definition demoMarker :: Record where
  "demoMarker = demoCommit\<lparr> rEpoch := 1, rStreamIndex := 2, rIsCommit := False,
     rAttachment := Some (demoAttachment\<lparr> atKind := AttachmentEpochComplete, atEpoch := None,
       atEpochComplete := Some \<lparr> ecEpoch = 1, ecWrapCount = 1 \<rparr> \<rparr>) \<rparr>"

definition demoMessage :: Record where
  "demoMessage = demoCommit\<lparr> rEpoch := 1, rStreamIndex := 3, rIsCommit := False,
     rRetentionClass := 0x11, rAttachment := None \<rparr>"

section \<open>Lemmas\<close>

lemma or_else_simps [simp]: "or_else None b = b" "or_else (Some e) b = Some e"
  by (simp_all add: or_else_def)

lemma or_else_None [simp]: "or_else a b = None \<longleftrightarrow> a = None \<and> b = None"
  by (auto simp: or_else_def split: option.splits)

lemma checkLength_None [simp]: "checkLength b n = None \<longleftrightarrow> length b = n"
  by (simp add: checkLength_def)

text \<open>The classes a validated record can have, as the five ranges of its byte.\<close>

lemma validateRecord_class:
  assumes "validateRecord r = None"
  shows "rRetentionClass r \<le> ClassMedia \<or>
         ClassEphBase < rRetentionClass r \<and> rRetentionClass r \<le> ClassEphMax"
  using assms by (auto simp: validateRecord_def split: if_splits)

lemma eph_bucket:
  fixes c :: u8
  assumes "ClassEphBase < c" and "c \<le> ClassEphMax"
  shows "unat (c - ClassEphBase) < length ephBucketSeconds"
    and "unat (c - ClassEphBase) = unat c - 16" and "unat (c - ClassEphBase) \<noteq> 0"
proof -
  from assms have "16 < unat c" "unat c \<le> 21"
    by (simp_all add: class_defs word_less_nat_alt word_le_nat_alt)
  moreover have "unat (c - 16) = unat c - 16"
    using \<open>16 < unat c\<close> by (subst unat_sub) (auto simp: word_le_nat_alt)
  ultimately show "unat (c - ClassEphBase) < length ephBucketSeconds"
    and "unat (c - ClassEphBase) = unat c - 16" and "unat (c - ClassEphBase) \<noteq> 0"
    by (simp_all add: class_defs ephBucketSeconds_def)
qed

lemma pruneAfter_Some:
  assumes "validateRecord r = None"
  shows "\<exists>t. pruneAfter now (rRetentionClass r) media durable = Some t"
proof (cases "rRetentionClass r \<le> ClassMedia")
  case True
  then have "unat (rRetentionClass r) \<le> 2" by (simp add: class_defs word_le_nat_alt)
  then have "unat (rRetentionClass r) = 0 \<or> unat (rRetentionClass r) = 1 \<or> unat (rRetentionClass r) = 2"
    by linarith
  then have "rRetentionClass r \<in> {0, 1, 2}" by (simp add: word_unat_eq_iff)
  then show ?thesis by (auto simp: pruneAfter_def class_defs)
next
  case False
  with validateRecord_class [OF assms]
  have "ClassEphBase < rRetentionClass r" "rRetentionClass r \<le> ClassEphMax" by auto
  with eph_bucket(1) [OF this] show ?thesis
    by (auto simp: pruneAfter_def Let_def)
qed

lemma validateRecord_update [simp]:
  "validateRecord (r\<lparr>rRecordId := i\<rparr>) = validateRecord r"
  "validateRecord (r\<lparr>rPruneAfter := t\<rparr>) = validateRecord r"
  by (simp_all add: validateRecord_def validateAttachment_def)

lemma attachmentKindOf_update [simp]:
  "attachmentKindOf (r\<lparr>rRecordId := i\<rparr>) = attachmentKindOf r"
  "attachmentKindOf (r\<lparr>rPruneAfter := t\<rparr>) = attachmentKindOf r"
  by (simp_all add: attachmentKindOf_def)

lemma tags_update [simp]:
  "recoveryTagOf (r\<lparr>rRecordId := i\<rparr>) = recoveryTagOf r"
  "recoveryTagOf (r\<lparr>rPruneAfter := t\<rparr>) = recoveryTagOf r"
  "epochCompleteTagOf (r\<lparr>rRecordId := i\<rparr>) = epochCompleteTagOf r"
  "epochCompleteTagOf (r\<lparr>rPruneAfter := t\<rparr>) = epochCompleteTagOf r"
  "exemptFromEpochComplete (r\<lparr>rRecordId := i\<rparr>) = exemptFromEpochComplete r"
  "exemptFromEpochComplete (r\<lparr>rPruneAfter := t\<rparr>) = exemptFromEpochComplete r"
  "recordBytes (r\<lparr>rRecordId := i\<rparr>) = recordBytes r"
  "recordBytes (r\<lparr>rPruneAfter := t\<rparr>) = recordBytes r"
  "openingOf (r\<lparr>rRecordId := i\<rparr>) keys = openingOf r keys"
  "openingOf (r\<lparr>rPruneAfter := t\<rparr>) keys = openingOf r keys"
  by (simp_all add: recoveryTagOf_def epochCompleteTagOf_def exemptFromEpochComplete_def
      recordBytes_def openingOf_def)

lemma wellFormedEpochAttachment_opening:
  assumes "wellFormedEpochAttachment r opens keys"
  obtains opn where "openingOf r keys = Some opn" and "eoEpoch opn = opens"
    and "length (eoWriteKey opn) = EpochKeyBytes"
    and "length (eoReadKey opn) = EpochKeyBytes" and "eoExpectedWrapCount opn \<noteq> 0"
  using assms by (auto simp: wellFormedEpochAttachment_def split: option.splits)

lemma openingOf_kind:
  "openingOf r keys = Some opening \<Longrightarrow> isEpochAttachmentKind (attachmentKindOf r)"
  by (auto simp: openingOf_def attachmentKindOf_def isEpochAttachmentKind_def
      split: option.splits AttachmentKind.splits if_splits)

lemma epoch_kind_no_tags:
  assumes "isEpochAttachmentKind (attachmentKindOf r)"
  shows "recoveryTagOf r = None" and "epochCompleteTagOf r = None"
    and "\<not> exemptFromEpochComplete r"
  using assms
  by (auto simp: recoveryTagOf_def epochCompleteTagOf_def exemptFromEpochComplete_def
      isEpochAttachmentKind_def split: AttachmentKind.splits)

lemmas demo_defs = demoOpening_def demoAttachment_def demoCommit_def demoMarker_def demoMessage_def

lemma demo_valid [simp]:
  "validateRecord demoCommit = None" "validateRecord demoMarker = None"
  "validateRecord demoMessage = None"
  by (simp_all add: validateRecord_def validateAttachment_def demo_defs shape_defs class_defs
      EphWindowMax_def ephWindowClassAllows_def)

section \<open>Properties\<close>

text \<open>
  Every record the shape checks pass has a prune time that can be computed: the bucket index
  never leaves the table, a permanent record never prunes, a durable one does unless its policy is
  indefinite, and an ephemeral one is due strictly after its own second, within 28 days.
\<close>

theorem pruneAfter_total:
  assumes "validateRecord r = None"
  shows "\<exists>t. pruneAfter now (rRetentionClass r) media durable = Some t \<and>
     (rRetentionClass r = ClassPermanent \<longrightarrow> t = None) \<and>
     (rRetentionClass r = ClassDurable \<longrightarrow> (t = None \<longleftrightarrow> durable = None)) \<and>
     (ClassEphBase < rRetentionClass r \<longrightarrow>
        (\<exists>due. t = Some due \<and> now + 3600 * 1000000000 \<le> due \<and> due \<le> now + 2419200 * 1000000000))"
proof -
  obtain t where t: "pruneAfter now (rRetentionClass r) media durable = Some t"
    using pruneAfter_Some [OF assms] by blast
  have "\<exists>due. t = Some due \<and> now + 3600 * 1000000000 \<le> due \<and> due \<le> now + 2419200 * 1000000000"
    if c: "ClassEphBase < rRetentionClass r"
  proof -
    let ?b = "unat (rRetentionClass r - ClassEphBase)"
    have n: "\<not> rRetentionClass r \<le> ClassMedia"
      using c by (auto simp: class_defs word_le_nat_alt word_less_nat_alt)
    with validateRecord_class [OF assms] have m: "rRetentionClass r \<le> ClassEphMax" by blast
    note eph_bucket [OF c m]
    then have "?b \<in> {1, 2, 3, 4, 5}" by (auto simp: ephBucketSeconds_def)
    then have "3600 \<le> uint (ephBucketSeconds ! ?b)" "uint (ephBucketSeconds ! ?b) \<le> 2419200"
      by (auto simp: ephBucketSeconds_def)
    moreover have "t = Some (now + seconds (ephBucketSeconds ! ?b))"
      using t n eph_bucket(1) [OF c m]
      by (auto simp: pruneAfter_def Let_def class_defs split: if_splits)
    ultimately show ?thesis by (simp add: seconds_def)
  qed
  then show ?thesis using t
    by (auto simp: pruneAfter_def class_defs)
qed

theorem pruneAfter_total_witness:
  "\<exists>due. pruneAfter 0 (rRetentionClass demoMessage) 0 None = Some (Some due)
     \<and> 3600 * 1000000000 \<le> due"
  using pruneAfter_total [OF demo_valid(3), of 0 0 None]
  by (auto simp: demo_defs class_defs)

text \<open>
  A commit's retention is never refused and never rewritten silently. The durable lifetime
  applied is never 0, it is within the server's maximum where there is one, it is at least the
  minimum where the group named a lifetime and the minimum does not exceed the maximum, the media
  lifetime is within its cap; and where no clamp is reported and the group named both lifetimes,
  what is applied is what was asked.
\<close>

theorem applyLimits_contract:
  assumes "applyLimits l opening' = (media, durable, applied)"
  shows "raDurableTtlSeconds applied \<noteq> 0
    \<and> raDurableTtlSeconds applied = (case durable of None \<Rightarrow> DurableIndefinite | Some d \<Rightarrow> d)
    \<and> (DurableTtlMaxSeconds l \<noteq> 0 \<longrightarrow> (\<exists>d. durable = Some d \<and> d \<le> DurableTtlMaxSeconds l))
    \<and> (MediaTtlMaxSeconds l \<noteq> 0 \<longrightarrow> media \<le> MediaTtlMaxSeconds l)
    \<and> (eoDurableTtlSeconds opening' \<notin> {DurableUnset, DurableIndefinite} \<longrightarrow>
         DurableTtlMaxSeconds l = 0 \<or> DurableRetentionMinSeconds l \<le> DurableTtlMaxSeconds l \<longrightarrow>
         (\<exists>d. durable = Some d \<and> DurableRetentionMinSeconds l \<le> d))
    \<and> (\<not> clamped applied \<longrightarrow> eoMediaTtlSeconds opening' \<noteq> 0 \<longrightarrow>
         media = eoMediaTtlSeconds opening')
    \<and> (\<not> clamped applied \<longrightarrow> eoDurableTtlSeconds opening' \<noteq> DurableUnset \<longrightarrow>
         raDurableTtlSeconds applied = eoDurableTtlSeconds opening')"
proof -
  note defs = applyLimits_def applyDurable_def DurableUnset_def DurableIndefinite_def clamped_def
  have "raDurableTtlSeconds applied \<noteq> 0
    \<and> raDurableTtlSeconds applied = (case durable of None \<Rightarrow> DurableIndefinite | Some d \<Rightarrow> d)"
    using assms by (auto simp: defs Let_def min_def split: if_splits)
  moreover have "DurableTtlMaxSeconds l \<noteq> 0 \<longrightarrow> (\<exists>d. durable = Some d \<and> d \<le> DurableTtlMaxSeconds l)"
    using assms by (auto simp: defs Let_def min_def split: if_splits)
  moreover have "MediaTtlMaxSeconds l \<noteq> 0 \<longrightarrow> media \<le> MediaTtlMaxSeconds l"
    using assms by (auto simp: applyLimits_def Let_def split: if_splits prod.splits)
  moreover have "eoDurableTtlSeconds opening' \<notin> {DurableUnset, DurableIndefinite} \<longrightarrow>
         DurableTtlMaxSeconds l = 0 \<or> DurableRetentionMinSeconds l \<le> DurableTtlMaxSeconds l \<longrightarrow>
         (\<exists>d. durable = Some d \<and> DurableRetentionMinSeconds l \<le> d)"
    using assms by (auto simp: defs Let_def split: if_splits)
  moreover have "\<not> clamped applied \<longrightarrow> eoMediaTtlSeconds opening' \<noteq> 0 \<longrightarrow>
         media = eoMediaTtlSeconds opening'"
    using assms by (auto simp: applyLimits_def clamped_def Let_def split: if_splits prod.splits)
  moreover have "\<not> clamped applied \<longrightarrow> eoDurableTtlSeconds opening' \<noteq> DurableUnset \<longrightarrow>
         raDurableTtlSeconds applied = eoDurableTtlSeconds opening'"
    using assms by (auto simp: defs Let_def split: if_splits)
  ultimately show ?thesis by argo
qed

theorem applyLimits_contract_witness:
  "\<exists>media durable applied opening'.
     applyLimits (DefaultLimits\<lparr>DurableTtlMaxSeconds := 100\<rparr>) opening' = (media, durable, applied)
     \<and> eoDurableTtlSeconds opening' = DurableIndefinite \<and> clamped applied
     \<and> (\<exists>d. durable = Some d \<and> d \<le> 100)"
proof -
  let ?o = "\<lparr> eoEpoch = 1, eoAlgId = 1, eoMediaTtlSeconds = 7, eoDurableTtlSeconds = DurableIndefinite,
     eoGroupContextHash = None, eoExpectedWrapCount = 1, eoWriteKey = [], eoReadKey = [] \<rparr>"
  let ?l = "DefaultLimits\<lparr>DurableTtlMaxSeconds := 100\<rparr>"
  obtain m d a where a: "applyLimits ?l ?o = (m, d, a)" by (metis prod_cases3)
  from applyLimits_contract [OF a] have "\<exists>x. d = Some x \<and> x \<le> 100" by simp
  moreover have "clamped a"
    using a by (auto simp: applyLimits_def applyDurable_def DurableUnset_def DurableIndefinite_def
        clamped_def DefaultLimits_def Let_def)
  ultimately show ?thesis using a by (intro exI [of _ m] exI [of _ d] exI [of _ a] exI [of _ ?o]) simp
qed

end
