(* ===== verification/Memory_Store.thy ===== *)
theory Memory_Store
  imports Records
begin

text \<open>
  The store's groups (\<open>src/store/memory.go\<close>): the rows that hang off one group, and the five
  operations on them, \<open>CreateGroup\<close>, \<open>Submit\<close>, \<open>Fetch\<close>, \<open>CloseGroup\<close> and the two status
  reads. Each operation takes the instant its clock answers and the hash \<open>H\<close> (the code's
  \<open>sha256.Sum256\<close>) as arguments; nothing below depends on which function \<open>H\<close> is.

  An operation returns an option around its answer. \<open>None\<close> is a Go panic, a nil opening or an index
  past a table, and the invariant theory shows that no request reaches one.

  \<open>Submit\<close> reads the claims before it takes the group's row lock, so a second submission can commit
  between the two. \<open>submitBegin\<close> is the part in front of the lock, up to the end of the probe,
  and \<open>submitEnd\<close> is the rest; each runs against the state it finds. \<open>Submit\<close> is the two on one
  state, and \<open>store_step\<close> of the invariant theory interleaves them.
\<close>

section \<open>The rows\<close>

record recordRow =
  rrRecord :: Record
  rrPruneAfter :: "time option"
  rrPruned :: bool
  rrCreateTime :: time
  rrPolicy :: u32

type_synonym claimKey = "bytes \<times> u64"

record claimRow =
  clRecordId :: u64
  clBodyHash :: bytes
  clHeadHash :: bytes
  clCreateTime :: time

record commitRow =
  cmEpoch :: u64
  cmRecordId :: u64
  cmRecord :: Record

record senderRow =
  snLastStreamIndex :: u64
  snRecordCount :: u64
  snByteCount :: u64
  snLastTime :: time

record epochRow =
  erEpoch :: u64
  erWriteKey :: "bytes option"
  erReadKey :: "bytes option"
  erReadKeyInstall :: time
  erAlgId :: u32
  erExpectedWrapCount :: u32
  erOpenedByRecord :: u64
  erAcceptTime :: time
  erRetireTime :: time

record recoveryRow =
  rcVerifyPub :: bytes
  rcAlgId :: u32
  rcFirstSeen :: time

record memoryGroup =
  mgGroupId :: bytes
  mgCreateTime :: time
  mgCurrentEpoch :: u64
  mgNextRecordId :: u64
  mgMediaTtlSeconds :: u32
  mgDurableTtlSeconds :: "u32 option"
  mgPolicyVersion :: u32
  mgEpochComplete :: bool
  mgGroupContextHash :: "bytes option"
  mgClosed :: bool
  mgCloseTime :: time
  mgRecords :: "recordRow list"
  mgClaims :: "claimKey \<rightharpoonup> claimRow"
  mgCommits :: "u64 \<rightharpoonup> commitRow"
  mgSenders :: "bytes \<rightharpoonup> senderRow"
  mgEpochs :: "u64 \<rightharpoonup> epochRow"
  mgRecovery :: "bytes \<rightharpoonup> recoveryRow"

record MemoryStore =
  msLimits :: Limits
  msGroups :: "bytes \<rightharpoonup> memoryGroup"

definition NewMemoryStore :: "Limits \<Rightarrow> MemoryStore" where
  "NewMemoryStore limits = \<lparr> msLimits = limits, msGroups = Map.empty \<rparr>"

section \<open>Row helpers\<close>

definition state :: "memoryGroup \<Rightarrow> GroupState" where
  "state g = \<lparr> gsCurrentEpoch = mgCurrentEpoch g, gsNextRecordId = mgNextRecordId g,
     gsMediaTtlSeconds = mgMediaTtlSeconds g, gsDurableTtlSeconds = mgDurableTtlSeconds g,
     gsPolicyVersion = mgPolicyVersion g, gsEpochComplete = mgEpochComplete g,
     gsGroupContextHash = mgGroupContextHash g \<rparr>"

definition read :: "recordRow \<Rightarrow> bool \<Rightarrow> Record" where
  "read row headsOnly =
     (let record = rrRecord row;
          record1 = (if headsOnly then record\<lparr>rCtBody := None\<rparr> else record)
      in case rrPruneAfter row of
           None \<Rightarrow> record1
         | Some t \<Rightarrow> record1\<lparr>rPruneAfter := Some t\<rparr>)"

definition claimKeyOf :: "Record \<Rightarrow> claimKey" where
  "claimKeyOf r = (rSenderHandle r, rStreamIndex r)"

definition headHash :: "hash \<Rightarrow> bytes \<Rightarrow> bytes" where
  "headHash H head = H head"

definition claimOf :: "hash \<Rightarrow> time \<Rightarrow> Record \<Rightarrow> claimRow" where
  "claimOf H now r = \<lparr> clRecordId = rRecordId r, clBodyHash = rBodyHash r,
     clHeadHash = headHash H (rCtHead r), clCreateTime = now \<rparr>"

section \<open>The read paths\<close>

definition MemoryStore_GroupState :: "ctx \<Rightarrow> MemoryStore \<Rightarrow> bytes \<Rightarrow> store_error + GroupState" where
  "MemoryStore_GroupState ctx s groupId =
     guard (ctxErr ctx) (guard (checkLength groupId GroupIdBytes)
       (case msGroups s groupId of
          None \<Rightarrow> Inl ErrGroupUnavailable
        | Some g \<Rightarrow> (if mgClosed g then Inl ErrGroupUnavailable else Inr (state g))))"

definition MemoryStore_EpochKeys :: "ctx \<Rightarrow> MemoryStore \<Rightarrow> bytes \<Rightarrow> u64 \<Rightarrow> store_error + EpochKeys" where
  "MemoryStore_EpochKeys ctx s groupId epoch =
     guard (ctxErr ctx) (guard (checkLength groupId GroupIdBytes)
       (case msGroups s groupId of
          None \<Rightarrow> Inl ErrEpochKeyUnknown
        | Some g \<Rightarrow>
           (if mgClosed g then Inl ErrEpochKeyUnknown
            else case mgEpochs g epoch of
                None \<Rightarrow> Inl ErrEpochKeyUnknown
              | Some row \<Rightarrow>
                 (if erWriteKey row = None \<and> erReadKey row = None then Inl ErrEpochKeyUnknown
                  else Inr \<lparr> ekEpoch = erEpoch row, ekWriteKey = erWriteKey row,
                         ekReadKey = erReadKey row, ekReadKeyInstall = erReadKeyInstall row,
                         ekAlgId = erAlgId row, ekOpenedByRecord = erOpenedByRecord row,
                         ekAcceptTime = erAcceptTime row, ekRetireTime = erRetireTime row \<rparr>))))"

definition classIncluded :: "u32 \<Rightarrow> u8 \<Rightarrow> bool" where
  "classIncluded classMask class \<longleftrightarrow> classMask = 0 \<or> and classMask (push_bit (unat class) 1) \<noteq> 0"

text \<open>The first loop of \<open>Fetch\<close>: the high water over every row at or below the ceiling.\<close>

fun highWaterLoop :: "u64 \<Rightarrow> u64 \<Rightarrow> recordRow list \<Rightarrow> u64" where
  "highWaterLoop readEpoch acc [] = acc"
| "highWaterLoop readEpoch acc (row # rows) =
     (if readEpoch < rEpoch (rrRecord row) then highWaterLoop readEpoch acc rows
      else highWaterLoop readEpoch (max acc (rRecordId (rrRecord row))) rows)"

text \<open>The second: the page, with the three filters in the code's order and the limit last.\<close>

fun fetchLoop :: "FetchRequest \<Rightarrow> FetchResult \<Rightarrow> recordRow list \<Rightarrow> FetchResult" where
  "fetchLoop q result [] = result"
| "fetchLoop q result (row # rows) =
     (if fqReadEpoch q < rEpoch (rrRecord row) then fetchLoop q result rows
      else if rRecordId (rrRecord row) \<le> fqSinceRecordId q then fetchLoop q result rows
      else if \<not> classIncluded (fqClassMask q) (rRetentionClass (rrRecord row))
        then fetchLoop q result rows
      else if fqLimit q \<noteq> 0 \<and> of_nat (length (frRecords result)) = fqLimit q
        then result\<lparr>frComplete := False\<rparr>
      else fetchLoop q
        (result\<lparr>frRecords := frRecords result @ [read row (fqHeadsOnly q)],
                frNextRecordId := rRecordId (rrRecord row)\<rparr>) rows)"

definition Fetch :: "ctx \<Rightarrow> MemoryStore \<Rightarrow> FetchRequest \<Rightarrow> store_error + FetchResult" where
  "Fetch ctx s q =
     guard (ctxErr ctx) (guard (checkLength (fqGroupId q) GroupIdBytes)
       (case msGroups s (fqGroupId q) of
          None \<Rightarrow> Inl ErrGroupUnavailable
        | Some g \<Rightarrow>
           (if mgClosed g then Inl ErrGroupUnavailable
            else Inr (fetchLoop q
                   \<lparr> frRecords = [], frNextRecordId = fqSinceRecordId q,
                     frHighWaterRecordId = highWaterLoop (fqReadEpoch q) 0 (mgRecords g),
                     frComplete = True \<rparr>
                   (mgRecords g)))))"

section \<open>Closing a group\<close>

definition CloseGroup :: "ctx \<Rightarrow> time \<Rightarrow> MemoryStore \<Rightarrow> bytes \<Rightarrow> MemoryStore \<times> store_error option" where
  "CloseGroup ctx now s groupId =
     (case or_else (ctxErr ctx) (checkLength groupId GroupIdBytes) of
        Some e \<Rightarrow> (s, Some e)
      | None \<Rightarrow>
         (case msGroups s groupId of
            None \<Rightarrow> (s, Some ErrGroupUnavailable)
          | Some g \<Rightarrow>
             (if mgClosed g then (s, Some ErrGroupUnavailable)
              else (s\<lparr>msGroups := (msGroups s)(groupId \<mapsto> g\<lparr>mgClosed := True, mgCloseTime := now\<rparr>)\<rparr>,
                    None))))"

section \<open>Creating a group\<close>

definition openedEpoch :: "time \<Rightarrow> u64 \<Rightarrow> epochOpening \<Rightarrow> u64 \<Rightarrow> epochRow" where
  "openedEpoch now epoch opening recordId =
     \<lparr> erEpoch = epoch, erWriteKey = Some (eoWriteKey opening),
       erReadKey = Some (eoReadKey opening), erReadKeyInstall = now, erAlgId = eoAlgId opening,
       erExpectedWrapCount = eoExpectedWrapCount opening, erOpenedByRecord = recordId,
       erAcceptTime = now, erRetireTime = 0 \<rparr>"

definition bootstrapEpoch :: "time \<Rightarrow> bytes \<Rightarrow> epochRow" where
  "bootstrapEpoch now key =
     \<lparr> erEpoch = 0, erWriteKey = Some key, erReadKey = None, erReadKeyInstall = 0, erAlgId = 0,
       erExpectedWrapCount = 0, erOpenedByRecord = 0, erAcceptTime = now, erRetireTime = now \<rparr>"

text \<open>
  The group a founding commit makes. \<open>None\<close> is \<open>pruneAfter\<close>'s panic.
\<close>

definition foundGroup ::
  "hash \<Rightarrow> time \<Rightarrow> Limits \<Rightarrow> CreateGroupRequest \<Rightarrow> Record \<Rightarrow> epochOpening \<Rightarrow>
   (memoryGroup \<times> CreateGroupResult) option" where
  "foundGroup H now limits q initialCommit opening =
     (let (media, durable, applied) = applyLimits limits opening;
          record = initialCommit\<lparr>rRecordId := firstRecordId, rPruneAfter := None\<rparr>
      in do {
        prune \<leftarrow> pruneAfter now (rRetentionClass record) media durable;
        Some (\<lparr> mgGroupId = cqGroupId q, mgCreateTime = now, mgCurrentEpoch = 1,
            mgNextRecordId = firstRecordId + 1, mgMediaTtlSeconds = media,
            mgDurableTtlSeconds = durable, mgPolicyVersion = 1, mgEpochComplete = False,
            mgGroupContextHash = eoGroupContextHash opening, mgClosed = False, mgCloseTime = 0,
            mgRecords = [\<lparr> rrRecord = record, rrPruneAfter = prune, rrPruned = False,
                            rrCreateTime = now, rrPolicy = 1 \<rparr>],
            mgClaims = [claimKeyOf record \<mapsto> claimOf H now record],
            mgCommits = [rEpoch record \<mapsto> \<lparr> cmEpoch = rEpoch record, cmRecordId = rRecordId record,
                                            cmRecord = record \<rparr>],
            mgSenders = [rSenderHandle record \<mapsto>
                           \<lparr> snLastStreamIndex = rStreamIndex record, snRecordCount = 1,
                             snByteCount = recordBytes record, snLastTime = now \<rparr>],
            mgEpochs = [0 \<mapsto> bootstrapEpoch now (cqBootstrapWriteKey q),
                        1 \<mapsto> openedEpoch now 1 opening (rRecordId record)],
            mgRecovery = (case recoveryTagOf record of
                            None \<Rightarrow> Map.empty
                          | Some tag \<Rightarrow> [rtHandle tag \<mapsto> \<lparr> rcVerifyPub = rtVerifyPub tag,
                                            rcAlgId = rtAlgId tag, rcFirstSeen = now \<rparr>]) \<rparr>,
          \<lparr> crReason = acceptanceReason (Some applied), crCurrentEpoch = 1,
            crRecordId = rRecordId record, crApplied = Some applied \<rparr>)
      })"

definition createRejected :: CreateGroupResult where
  "createRejected = \<lparr> crReason = REASON_REJECTED, crCurrentEpoch = 0, crRecordId = 0,
     crApplied = None \<rparr>"

definition createGuards :: "ctx \<Rightarrow> CreateGroupRequest \<Rightarrow> store_error + Record" where
  "createGuards ctx q =
     guard (ctxErr ctx) (guard (checkLength (cqGroupId q) GroupIdBytes)
       (guard (checkLength (cqBootstrapWriteKey q) EpochKeyBytes)
         (case cqInitialCommit q of
            None \<Rightarrow> Inl ErrEmptyBatch
          | Some r \<Rightarrow> guard (validateRecord r) (Inr r))))"

definition CreateGroup ::
  "hash \<Rightarrow> ctx \<Rightarrow> time \<Rightarrow> MemoryStore \<Rightarrow> CreateGroupRequest \<Rightarrow>
   (MemoryStore \<times> (store_error + CreateGroupResult)) option" where
  "CreateGroup H ctx now s q =
     (case createGuards ctx q of
        Inl e \<Rightarrow> Some (s, Inl e)
      | Inr r \<Rightarrow>
         (if \<not> rIsCommit r \<or> rEpoch r \<noteq> 0 \<or> \<not> wellFormedEpochAttachment r 1 (cqEpochKeys q)
          then Some (s, Inr createRejected)
          else do {
            opening \<leftarrow> openingOf r (cqEpochKeys q);
            if msGroups s (cqGroupId q) \<noteq> None then Some (s, Inr createRejected)
            else do {
              (g, result) \<leftarrow> foundGroup H now (msLimits s) q r opening;
              Some (s\<lparr>msGroups := (msGroups s)(cqGroupId q \<mapsto> g)\<rparr>, Inr result)
            }
          }))"

section \<open>Submitting a batch\<close>

subsection \<open>What every answer is filled with\<close>

definition fillOne :: "memoryGroup \<Rightarrow> pending \<Rightarrow> pending" where
  "fillOne g p =
     (let result = pResult p;
          result1 = (if srCurrentEpoch result = 0 then result\<lparr>srCurrentEpoch := mgCurrentEpoch g\<rparr>
                     else result);
          result2 = (if \<not> rIsCommit (pRecord p) \<or> accepted (srReason result1) then result1
                     else case mgCommits g (rEpoch (pRecord p)) of
                            None \<Rightarrow> result1
                          | Some winner \<Rightarrow> result1\<lparr>srWinningCommit := Some (cmRecord winner)\<rparr>)
      in p\<lparr>pResult := result2\<rparr>)"

definition fillCurrentEpoch :: "memoryGroup option \<Rightarrow> pending list \<Rightarrow> pending list" where
  "fillCurrentEpoch grp batch =
     (case grp of
        None \<Rightarrow> batch
      | Some g \<Rightarrow> (if mgClosed g then batch else map (fillOne g) batch))"

definition setReason :: "reason \<Rightarrow> pending \<Rightarrow> pending" where
  "setReason reason p = p\<lparr>pResult := (pResult p)\<lparr>srReason := reason\<rparr>\<rparr>"

text \<open>The offender is a position of the batch: the code compares pointers into it.\<close>

definition refuseOne :: "nat \<Rightarrow> reason \<Rightarrow> nat \<times> pending \<Rightarrow> pending" where
  "refuseOne offender reason = (\<lambda>(i, p).
     if pProbe p = probeIdentical then p
     else if i = offender then setReason reason p
     else setReason REASON_REJECTED p)"

definition refuseBatch ::
  "memoryGroup option \<Rightarrow> pending list \<Rightarrow> nat \<Rightarrow> reason \<Rightarrow> SubmitResult list" where
  "refuseBatch grp batch offender reason =
     resultsOf (fillCurrentEpoch grp
       (map (refuseOne offender reason) (zip [0..<length batch] batch)))"

subsection \<open>In front of the lock\<close>

definition probeOne :: "hash \<Rightarrow> memoryGroup \<Rightarrow> pending \<Rightarrow> pending" where
  "probeOne H g p =
     (case mgClaims g (claimKeyOf (pRecord p)) of
        None \<Rightarrow> p
      | Some claim \<Rightarrow>
         (if clBodyHash claim = rBodyHash (pRecord p) \<and>
             clHeadHash claim = headHash H (rCtHead (pRecord p))
          then p\<lparr>pProbe := probeIdentical,
                 pResult := (pResult p)\<lparr>srReason := REASON_OK, srRecordId := clRecordId claim\<rparr>\<rparr>
          else p\<lparr>pProbe := probeDiffers\<rparr>))"

definition probe :: "hash \<Rightarrow> memoryGroup option \<Rightarrow> pending list \<Rightarrow> pending list" where
  "probe H grp batch =
     (case grp of None \<Rightarrow> batch | Some g \<Rightarrow> map (probeOne H g) batch)"

fun validateRecords :: "Record list \<Rightarrow> store_error option" where
  "validateRecords [] = None"
| "validateRecords (r # rs) = or_else (validateRecord r) (validateRecords rs)"

definition newPending :: "Record \<Rightarrow> pending" where
  "newPending r = \<lparr> pRecord = r, pResult = zeroResult, pProbe = probeAbsent, pSettled = False \<rparr>"

text \<open>A submission between its probe and its lock.\<close>

record inflight =
  ifGroupId :: bytes
  ifFound :: bool
  ifEpochKeys :: "EpochKeyDelivery option"
  ifBatch :: "pending list"

definition submitBegin ::
  "hash \<Rightarrow> ctx \<Rightarrow> MemoryStore \<Rightarrow> SubmitRequest \<Rightarrow> store_error + inflight" where
  "submitBegin H ctx s q =
     guard (ctxErr ctx)
    (guard (checkLength (sqGroupId q) GroupIdBytes)
    (guard (if length (sqRecords q) = 0 then Some ErrEmptyBatch else None)
    (guard (validateRecords (sqRecords q))
    (guard (if length (filter rIsCommit (sqRecords q)) \<noteq> 0 \<and> length (sqRecords q) \<noteq> 1
            then Some ErrCommitBatch else None)
       (let grp = msGroups s (sqGroupId q)
        in Inr \<lparr> ifGroupId = sqGroupId q, ifFound = (grp \<noteq> None),
                 ifEpochKeys = sqEpochKeys q,
                 ifBatch = probe H grp (map newPending (sqRecords q)) \<rparr>)))))"

subsection \<open>The gates\<close>

definition highWaterOf :: "memoryGroup \<Rightarrow> (bytes \<rightharpoonup> u64) \<Rightarrow> bytes \<Rightarrow> u64 option" where
  "highWaterOf g highWater sender =
     (case highWater sender of
        Some last_index \<Rightarrow> Some last_index
      | None \<Rightarrow> map_option snLastStreamIndex (mgSenders g sender))"

definition pinOf :: "memoryGroup \<Rightarrow> (bytes \<rightharpoonup> bytes) \<Rightarrow> bytes \<Rightarrow> bytes option" where
  "pinOf g pinned handle =
     (case pinned handle of
        Some known \<Rightarrow> Some known
      | None \<Rightarrow> map_option rcVerifyPub (mgRecovery g handle))"

definition gate ::
  "memoryGroup \<Rightarrow> GroupState \<Rightarrow> Record \<Rightarrow> EpochKeyDelivery option \<Rightarrow>
   (bytes \<rightharpoonup> u64) \<Rightarrow> (bytes \<rightharpoonup> bytes) \<Rightarrow> reason" where
  "gate g st r keys highWater pinned =
     (if rIsCommit r \<and> mgCommits g (rEpoch r) \<noteq> None then REASON_COMMIT_LOST
      else if rEpoch r \<noteq> gsCurrentEpoch st then REASON_EPOCH_STALE
      else if \<not> gsEpochComplete st \<and> \<not> exemptFromEpochComplete r then REASON_EPOCH_INCOMPLETE
      else if rIsCommit r \<noteq> isEpochAttachmentKind (attachmentKindOf r) then REASON_REJECTED
      else if rIsCommit r \<and> \<not> wellFormedEpochAttachment r (gsCurrentEpoch st + 1) keys
        then REASON_REJECTED
      else if (case highWaterOf g highWater (rSenderHandle r) of
                 None \<Rightarrow> False | Some last_index \<Rightarrow> rStreamIndex r \<le> last_index)
        then REASON_STREAM_INDEX_REGRESSED
      else if (case recoveryTagOf r of
                 None \<Rightarrow> False
               | Some tag \<Rightarrow> (case pinOf g pinned (rtHandle tag) of
                                None \<Rightarrow> False | Some known \<Rightarrow> known \<noteq> rtVerifyPub tag))
        then REASON_REJECTED
      else REASON_OK)"

definition pin :: "Record \<Rightarrow> (bytes \<rightharpoonup> bytes) \<Rightarrow> (bytes \<rightharpoonup> bytes)" where
  "pin r pinned =
     (case recoveryTagOf r of
        None \<Rightarrow> pinned
      | Some tag \<Rightarrow> (if pinned (rtHandle tag) = None then pinned(rtHandle tag \<mapsto> rtVerifyPub tag)
                     else pinned))"

text \<open>The first refusal and the position it was met at.\<close>

fun gateLoop ::
  "memoryGroup \<Rightarrow> GroupState \<Rightarrow> EpochKeyDelivery option \<Rightarrow> (bytes \<rightharpoonup> u64) \<Rightarrow> (bytes \<rightharpoonup> bytes) \<Rightarrow>
   nat \<Rightarrow> pending list \<Rightarrow> (nat \<times> reason) option" where
  "gateLoop g st keys highWater pinned i [] = None"
| "gateLoop g st keys highWater pinned i (p # ps) =
     (if pSettled p then gateLoop g st keys highWater pinned (Suc i) ps
      else (let refusal = gate g st (pRecord p) keys highWater pinned
            in if refusal \<noteq> REASON_OK then Some (i, refusal)
               else gateLoop g st keys
                      (highWater(rSenderHandle (pRecord p) \<mapsto> rStreamIndex (pRecord p)))
                      (pin (pRecord p) pinned) (Suc i) ps))"

subsection \<open>The writes\<close>

definition retireKeys :: "time \<Rightarrow> u64 \<Rightarrow> (u64 \<rightharpoonup> epochRow) \<Rightarrow> (u64 \<rightharpoonup> epochRow)" where
  "retireKeys now current epochs =
     (let retired = (case epochs current of
                       None \<Rightarrow> epochs
                     | Some superseded \<Rightarrow>
                         (if erWriteKey superseded \<noteq> None
                          then epochs(current \<mapsto> superseded\<lparr>erRetireTime := now\<rparr>) else epochs))
      in (\<lambda>epoch. map_option (\<lambda>row. if epoch < current \<and> erWriteKey row \<noteq> None
                                    then row\<lparr>erWriteKey := None\<rparr> else row) (retired epoch)))"

text \<open>Step (6), on a won commit. \<open>None\<close> is the nil opening's panic.\<close>

definition openEpoch ::
  "Limits \<Rightarrow> time \<Rightarrow> GroupState \<Rightarrow> EpochKeyDelivery option \<Rightarrow> memoryGroup \<Rightarrow> Record \<Rightarrow>
   (memoryGroup \<times> RetentionApplied) option" where
  "openEpoch limits now st keys g record = do {
     opening \<leftarrow> openingOf record keys;
     let (media, durable, applied) = applyLimits limits opening;
     let next = gsCurrentEpoch st + 1;
     Some (g\<lparr> mgEpochs := retireKeys now (gsCurrentEpoch st)
               ((mgEpochs g)(next \<mapsto> openedEpoch now next opening (rRecordId record))),
             mgCurrentEpoch := next, mgEpochComplete := False, mgMediaTtlSeconds := media,
             mgDurableTtlSeconds := durable, mgGroupContextHash := eoGroupContextHash opening,
             mgPolicyVersion := mgPolicyVersion g + 1,
             mgCommits := (mgCommits g)(rEpoch record \<mapsto>
                \<lparr> cmEpoch = rEpoch record, cmRecordId = rRecordId record, cmRecord = record \<rparr>) \<rparr>,
           applied)
   }"

definition markComplete :: "Record \<Rightarrow> memoryGroup \<Rightarrow> memoryGroup" where
  "markComplete record g =
     (case epochCompleteTagOf record of
        None \<Rightarrow> g
      | Some marker \<Rightarrow>
         (case mgEpochs g (mgCurrentEpoch g) of
            None \<Rightarrow> g
          | Some row \<Rightarrow>
             (if ecEpoch marker = mgCurrentEpoch g \<and> ecWrapCount marker = erExpectedWrapCount row
              then g\<lparr>mgEpochComplete := True\<rparr> else g)))"

definition pinRecovery :: "time \<Rightarrow> Record \<Rightarrow> memoryGroup \<Rightarrow> memoryGroup" where
  "pinRecovery now record g =
     (case recoveryTagOf record of
        None \<Rightarrow> g
      | Some tag \<Rightarrow>
         (if mgRecovery g (rtHandle tag) = None
          then g\<lparr>mgRecovery := (mgRecovery g)(rtHandle tag \<mapsto>
                   \<lparr> rcVerifyPub = rtVerifyPub tag, rcAlgId = rtAlgId tag, rcFirstSeen = now \<rparr>)\<rparr>
          else g))"

definition countSender :: "time \<Rightarrow> Record \<Rightarrow> memoryGroup \<Rightarrow> memoryGroup" where
  "countSender now record g =
     (let sender = (case mgSenders g (rSenderHandle record) of
                      None \<Rightarrow> \<lparr> snLastStreamIndex = 0, snRecordCount = 0, snByteCount = 0, snLastTime = 0 \<rparr>
                    | Some row \<Rightarrow> row)
      in g\<lparr>mgSenders := (mgSenders g)(rSenderHandle record \<mapsto>
             \<lparr> snLastStreamIndex = rStreamIndex record, snRecordCount = snRecordCount sender + 1,
               snByteCount = snByteCount sender + recordBytes record, snLastTime = now \<rparr>)\<rparr>)"

text \<open>Steps (5a) and (5b): the claim, then the row.\<close>

definition storeRow :: "hash \<Rightarrow> time \<Rightarrow> Record \<Rightarrow> memoryGroup \<Rightarrow> memoryGroup option" where
  "storeRow H now record g = do {
     prune \<leftarrow> pruneAfter now (rRetentionClass record) (mgMediaTtlSeconds g) (mgDurableTtlSeconds g);
     Some (g\<lparr> mgClaims := (mgClaims g)(claimKeyOf record \<mapsto> claimOf H now record),
             mgRecords := mgRecords g @ [\<lparr> rrRecord = record, rrPruneAfter = prune,
               rrPruned = False, rrCreateTime = now, rrPolicy = mgPolicyVersion g \<rparr>] \<rparr>)
   }"

definition commitOne ::
  "hash \<Rightarrow> Limits \<Rightarrow> time \<Rightarrow> GroupState \<Rightarrow> EpochKeyDelivery option \<Rightarrow> u64 \<Rightarrow> memoryGroup \<Rightarrow>
   pending \<Rightarrow> (memoryGroup \<times> pending) option" where
  "commitOne H limits now st keys recordId g p =
     (let record = (pRecord p)\<lparr>rRecordId := recordId, rPruneAfter := None\<rparr>
      in do {
        (g1, result) \<leftarrow>
          (if rIsCommit record then do {
             (g1, applied) \<leftarrow> openEpoch limits now st keys g record;
             Some (g1, (pResult p)\<lparr>srApplied := Some applied, srCurrentEpoch := mgCurrentEpoch g1\<rparr>)
           } else Some (g, pResult p));
        g2 \<leftarrow> storeRow H now record (markComplete record g1);
        Some (countSender now record (pinRecovery now record g2),
              p\<lparr>pResult := result\<lparr>srReason := acceptanceReason (srApplied result),
                                  srRecordId := recordId\<rparr>\<rparr>)
      })"

text \<open>
  The loop over the accepted records, kept in step with the batch: a settled record is passed over
  and takes no id.
\<close>

fun commitLoop ::
  "hash \<Rightarrow> Limits \<Rightarrow> time \<Rightarrow> GroupState \<Rightarrow> EpochKeyDelivery option \<Rightarrow> u64 \<Rightarrow> memoryGroup \<Rightarrow>
   pending list \<Rightarrow> (memoryGroup \<times> pending list) option" where
  "commitLoop H limits now st keys recordId g [] = Some (g, [])"
| "commitLoop H limits now st keys recordId g (p # ps) =
     (if pSettled p then do {
        (g', ps') \<leftarrow> commitLoop H limits now st keys recordId g ps;
        Some (g', p # ps')
      } else do {
        (g1, p1) \<leftarrow> commitOne H limits now st keys recordId g p;
        (g', ps') \<leftarrow> commitLoop H limits now st keys (recordId + 1) g1 ps;
        Some (g', p1 # ps')
      })"

definition setCurrentEpoch :: "u64 \<Rightarrow> pending \<Rightarrow> pending" where
  "setCurrentEpoch epoch p = p\<lparr>pResult := (pResult p)\<lparr>srCurrentEpoch := epoch\<rparr>\<rparr>"

definition lostAt :: "memoryGroup \<Rightarrow> pending \<Rightarrow> bool" where
  "lostAt g p \<longleftrightarrow> \<not> pSettled p \<and> rIsCommit (pRecord p) \<and> mgCommits g (rEpoch (pRecord p)) \<noteq> None"

definition commit ::
  "hash \<Rightarrow> Limits \<Rightarrow> time \<Rightarrow> memoryGroup \<Rightarrow> GroupState \<Rightarrow> EpochKeyDelivery option \<Rightarrow> pending list \<Rightarrow>
   (memoryGroup \<times> SubmitResult list) option" where
  "commit H limits now g st keys batch =
     (case first_index (lostAt g) 0 batch of
        Some i \<Rightarrow> Some (g, refuseBatch (Some g) batch i REASON_COMMIT_LOST)
      | None \<Rightarrow>
         (let first = mgNextRecordId g;
              k = length (filter (\<lambda>p. \<not> pSettled p) batch);
              g0 = g\<lparr>mgNextRecordId := first + of_nat k\<rparr>
          in do {
            (g', batch') \<leftarrow> commitLoop H limits now st keys first g0 batch;
            Some (g', resultsOf (map (\<lambda>p. if srCurrentEpoch (pResult p) = 0
                                          then setCurrentEpoch (mgCurrentEpoch g') p else p) batch'))
          }))"

subsection \<open>Under the lock\<close>

definition settle :: "pending \<Rightarrow> pending" where
  "settle p = (if pProbe p = probeIdentical then p\<lparr>pSettled := True\<rparr> else p)"

definition submitGroup ::
  "hash \<Rightarrow> Limits \<Rightarrow> time \<Rightarrow> memoryGroup option \<Rightarrow> EpochKeyDelivery option \<Rightarrow> pending list \<Rightarrow>
   (memoryGroup option \<times> SubmitResult list) option" where
  "submitGroup H limits now grp keys batch0 =
     (case first_index (\<lambda>p. pProbe p = probeDiffers) 0 batch0 of
        Some i \<Rightarrow> Some (grp, refuseBatch grp batch0 i REASON_STREAM_INDEX_REUSED)
      | None \<Rightarrow>
         (let batch = map settle batch0
          in if list_all pSettled batch
             then Some (grp, resultsOf (fillCurrentEpoch grp batch))
             else case grp of
                 None \<Rightarrow> Some (None, refuseUnavailable batch)
               | Some g \<Rightarrow>
                  (if mgClosed g then Some (grp, refuseUnavailable batch)
                   else let st = state g;
                            batch1 = map (setCurrentEpoch (gsCurrentEpoch st)) batch
                        in case gateLoop g st keys Map.empty Map.empty 0 batch1 of
                             Some (i, refusal) \<Rightarrow>
                               Some (grp, refuseBatch grp batch1 i refusal)
                           | None \<Rightarrow> do {
                               (g', results) \<leftarrow> commit H limits now g st keys batch1;
                               Some (Some g', results)
                             })))"

definition submitEnd ::
  "hash \<Rightarrow> time \<Rightarrow> MemoryStore \<Rightarrow> inflight \<Rightarrow> (MemoryStore \<times> SubmitResult list) option" where
  "submitEnd H now s f = do {
     (grp, results) \<leftarrow> submitGroup H (msLimits s) now
        (if ifFound f then msGroups s (ifGroupId f) else None) (ifEpochKeys f) (ifBatch f);
     Some (case grp of
             None \<Rightarrow> s
           | Some g \<Rightarrow> s\<lparr>msGroups := (msGroups s)(ifGroupId f \<mapsto> g)\<rparr>,
           results)
   }"

definition Submit ::
  "hash \<Rightarrow> ctx \<Rightarrow> time \<Rightarrow> MemoryStore \<Rightarrow> SubmitRequest \<Rightarrow>
   (MemoryStore \<times> (store_error + SubmitResult list)) option" where
  "Submit H ctx now s q =
     (case submitBegin H ctx s q of
        Inl e \<Rightarrow> Some (s, Inl e)
      | Inr f \<Rightarrow> map_option (\<lambda>(s', results). (s', Inr results)) (submitEnd H now s f))"

end
