(* ===== verification/Store_Invariant.thy ===== *)
theory Store_Invariant
  imports Memory_Store
begin

text \<open>
  What holds of every group in every reachable state of the store, however submissions overlap.

  The log of a group is the list of its stored records. The invariant is a conjunction of named
  parts over the log and the group's indexes; each part is kept by the storing of one admitted
  record (\<open>commitOne\<close>), and a batch that passes the gates is a sequence of such records.
\<close>

section \<open>The invariant\<close>

definition group_log :: "memoryGroup \<Rightarrow> Record list" where
  "group_log g = map rrRecord (mgRecords g)"

text \<open>Ids are gapless and start at 1.\<close>

definition inv_ids :: "memoryGroup \<Rightarrow> bool" where
  "inv_ids g \<longleftrightarrow>
     (\<forall>i < length (group_log g). rRecordId (group_log g ! i) = of_nat (Suc i))"

text \<open>The claims are exactly the records of the log, with the hashes they were stored under.\<close>

definition inv_claims :: "hash \<Rightarrow> memoryGroup \<Rightarrow> bool" where
  "inv_claims H g \<longleftrightarrow>
     (\<forall>k c. mgClaims g k = Some c \<longrightarrow>
        (\<exists>r \<in> set (group_log g). claimKeyOf r = k \<and> clRecordId c = rRecordId r \<and>
           clBodyHash c = rBodyHash r \<and> clHeadHash c = headHash H (rCtHead r))) \<and>
     (\<forall>r \<in> set (group_log g). mgClaims g (claimKeyOf r) \<noteq> None)"

text \<open>A sender's stream indexes rise through the log.\<close>

definition inv_streams :: "memoryGroup \<Rightarrow> bool" where
  "inv_streams g \<longleftrightarrow>
     sorted_wrt (\<lambda>r r'. rSenderHandle r = rSenderHandle r' \<longrightarrow> rStreamIndex r < rStreamIndex r')
       (group_log g)"

definition by_sender :: "bytes \<Rightarrow> Record list \<Rightarrow> Record list" where
  "by_sender h rs = filter (\<lambda>r. rSenderHandle r = h) rs"

text \<open>A sender's row is its last index, its number of records and its number of bytes.\<close>

definition sender_ok :: "senderRow option \<Rightarrow> Record list \<Rightarrow> bool" where
  "sender_ok row rs =
     (case row of
        None \<Rightarrow> rs = []
      | Some row \<Rightarrow> rs \<noteq> [] \<and> snLastStreamIndex row = rStreamIndex (last rs) \<and>
          snRecordCount row = of_nat (length rs) \<and>
          snByteCount row = sum_list (map recordBytes rs))"

definition inv_senders :: "memoryGroup \<Rightarrow> bool" where
  "inv_senders g \<longleftrightarrow> (\<forall>h. sender_ok (mgSenders g h) (by_sender h (group_log g)))"

text \<open>Epochs rise through the log and no record follows the commit of its own epoch.\<close>

definition inv_epochs :: "memoryGroup \<Rightarrow> bool" where
  "inv_epochs g \<longleftrightarrow>
     sorted_wrt (\<lambda>r r'. rEpoch r \<le> rEpoch r' \<and> (rIsCommit r \<longrightarrow> rEpoch r < rEpoch r'))
       (group_log g) \<and>
     (\<forall>r \<in> set (group_log g). rEpoch r \<le> mgCurrentEpoch g \<and>
        (rIsCommit r \<longrightarrow> rEpoch r < mgCurrentEpoch g)) \<and>
     1 \<le> unat (mgCurrentEpoch g) \<and> unat (mgCurrentEpoch g) \<le> length (group_log g) \<and>
     mgPolicyVersion g = ucast (mgCurrentEpoch g)"

text \<open>Every past epoch has its one commit, which is in the log; no other epoch has one.\<close>

definition commit_ok :: "u64 \<Rightarrow> Record list \<Rightarrow> u64 \<Rightarrow> commitRow option \<Rightarrow> bool" where
  "commit_ok current rs e row =
     (case row of
        None \<Rightarrow> current \<le> e
      | Some row \<Rightarrow> e < current \<and> cmEpoch row = e \<and> cmRecord row \<in> set rs \<and>
          rIsCommit (cmRecord row) \<and> rEpoch (cmRecord row) = e \<and>
          cmRecordId row = rRecordId (cmRecord row))"

definition inv_commits :: "memoryGroup \<Rightarrow> bool" where
  "inv_commits g \<longleftrightarrow> (\<forall>e. commit_ok (mgCurrentEpoch g) (group_log g) e (mgCommits g e))"

text \<open>
  The keys the server holds: a row for every epoch up to the current one, the current one whole,
  a write key for it and its predecessor alone, and a read key for every epoch a commit opened.
\<close>

definition epoch_ok ::
  "u64 \<Rightarrow> (u64 \<rightharpoonup> commitRow) \<Rightarrow> u64 \<Rightarrow> epochRow option \<Rightarrow> bool" where
  "epoch_ok current commits e row =
     (case row of
        None \<Rightarrow> current < e
      | Some row \<Rightarrow> e \<le> current \<and> erEpoch row = e \<and>
          (erWriteKey row \<noteq> None \<longleftrightarrow> unat current \<le> Suc (unat e)) \<and>
          (e \<noteq> 0 \<longrightarrow> slen (erReadKey row) = EpochKeyBytes \<and> erExpectedWrapCount row \<noteq> 0 \<and>
             map_option cmRecordId (commits (e - 1)) = Some (erOpenedByRecord row)) \<and>
          (e = current \<longrightarrow> slen (erWriteKey row) = EpochKeyBytes))"

definition inv_keys :: "memoryGroup \<Rightarrow> bool" where
  "inv_keys g \<longleftrightarrow> (\<forall>e. epoch_ok (mgCurrentEpoch g) (mgCommits g) e (mgEpochs g e))"

text \<open>A recovery handle is pinned to the key it was first seen with, and every record agrees.\<close>

definition inv_recovery :: "memoryGroup \<Rightarrow> bool" where
  "inv_recovery g \<longleftrightarrow>
     (\<forall>r \<in> set (group_log g). \<forall>tag. recoveryTagOf r = Some tag \<longrightarrow>
        map_option rcVerifyPub (mgRecovery g (rtHandle tag)) = Some (rtVerifyPub tag)) \<and>
     (\<forall>h row. mgRecovery g h = Some row \<longrightarrow>
        (\<exists>r \<in> set (group_log g). \<exists>tag. recoveryTagOf r = Some tag \<and> rtHandle tag = h))"

text \<open>An epoch past the founding one takes ordinary records only after its marker.\<close>

definition marked :: "Record list \<Rightarrow> u64 \<Rightarrow> bool" where
  "marked rs e \<longleftrightarrow> (\<exists>r \<in> set rs. \<exists>m. epochCompleteTagOf r = Some m \<and> ecEpoch m = e)"

definition inv_fanout :: "memoryGroup \<Rightarrow> bool" where
  "inv_fanout g \<longleftrightarrow>
     (\<forall>i < length (group_log g). rEpoch (group_log g ! i) \<noteq> 0 \<longrightarrow>
        \<not> exemptFromEpochComplete (group_log g ! i) \<longrightarrow>
        marked (take i (group_log g)) (rEpoch (group_log g ! i))) \<and>
     (mgEpochComplete g \<longrightarrow> marked (group_log g) (mgCurrentEpoch g))"

text \<open>Every stored record has the shape the checks ask for, and an epoch attachment iff it is a commit.\<close>

definition inv_shapes :: "memoryGroup \<Rightarrow> bool" where
  "inv_shapes g \<longleftrightarrow>
     (\<forall>r \<in> set (group_log g). validateRecord r = None \<and> rPruneAfter r = None \<and>
        (rIsCommit r \<longleftrightarrow> isEpochAttachmentKind (attachmentKindOf r)))"

text \<open>The rows of a group but for the id counter, which a batch moves before it writes.\<close>

definition rows_inv :: "hash \<Rightarrow> memoryGroup \<Rightarrow> bool" where
  "rows_inv H g \<longleftrightarrow> inv_ids g \<and> inv_claims H g \<and> inv_streams g \<and> inv_senders g \<and> inv_epochs g \<and>
     inv_commits g \<and> inv_keys g \<and> inv_recovery g \<and> inv_fanout g \<and> inv_shapes g"

definition group_inv :: "hash \<Rightarrow> memoryGroup \<Rightarrow> bool" where
  "group_inv H g \<longleftrightarrow> rows_inv H g \<and> mgNextRecordId g = of_nat (Suc (length (group_log g)))"

section \<open>What one admitted record changes\<close>

definition stored :: "u64 \<Rightarrow> Record \<Rightarrow> Record" where
  "stored recordId r = r\<lparr>rRecordId := recordId, rPruneAfter := None\<rparr>"

lemma stored_simps [simp]:
  "rSenderHandle (stored i r) = rSenderHandle r" "rEpoch (stored i r) = rEpoch r"
  "rStreamIndex (stored i r) = rStreamIndex r" "rIsCommit (stored i r) = rIsCommit r"
  "rBodyHash (stored i r) = rBodyHash r" "rCtHead (stored i r) = rCtHead r"
  "rRetentionClass (stored i r) = rRetentionClass r"
  "rRecordId (stored i r) = i" "rPruneAfter (stored i r) = None"
  "validateRecord (stored i r) = validateRecord r"
  "attachmentKindOf (stored i r) = attachmentKindOf r"
  "recoveryTagOf (stored i r) = recoveryTagOf r"
  "epochCompleteTagOf (stored i r) = epochCompleteTagOf r"
  "exemptFromEpochComplete (stored i r) = exemptFromEpochComplete r"
  "recordBytes (stored i r) = recordBytes r" "openingOf (stored i r) keys = openingOf r keys"
  "claimKeyOf (stored i r) = claimKeyOf r"
  by (simp_all add: stored_def claimKeyOf_def)

text \<open>What the gates ask of one record, against the group as it stands at its turn.\<close>

definition admits :: "memoryGroup \<Rightarrow> EpochKeyDelivery option \<Rightarrow> Record \<Rightarrow> bool" where
  "admits g keys r \<longleftrightarrow>
     rEpoch r = mgCurrentEpoch g \<and>
     (mgEpochComplete g \<or> exemptFromEpochComplete r) \<and>
     (rIsCommit r \<longleftrightarrow> isEpochAttachmentKind (attachmentKindOf r)) \<and>
     (rIsCommit r \<longrightarrow> wellFormedEpochAttachment r (mgCurrentEpoch g + 1) keys) \<and>
     (\<forall>row. mgSenders g (rSenderHandle r) = Some row \<longrightarrow> snLastStreamIndex row < rStreamIndex r) \<and>
     (\<forall>tag row. recoveryTagOf r = Some tag \<longrightarrow> mgRecovery g (rtHandle tag) = Some row \<longrightarrow>
        rcVerifyPub row = rtVerifyPub tag)"


lemma markComplete_fields [simp]:
  "mgGroupId (markComplete r g) = mgGroupId g"
  "mgCurrentEpoch (markComplete r g) = mgCurrentEpoch g"
  "mgNextRecordId (markComplete r g) = mgNextRecordId g"
  "mgPolicyVersion (markComplete r g) = mgPolicyVersion g"
  "mgClosed (markComplete r g) = mgClosed g" "mgRecords (markComplete r g) = mgRecords g"
  "mgClaims (markComplete r g) = mgClaims g" "mgCommits (markComplete r g) = mgCommits g"
  "mgSenders (markComplete r g) = mgSenders g" "mgEpochs (markComplete r g) = mgEpochs g"
  "mgRecovery (markComplete r g) = mgRecovery g"
  "mgMediaTtlSeconds (markComplete r g) = mgMediaTtlSeconds g"
  "mgDurableTtlSeconds (markComplete r g) = mgDurableTtlSeconds g"
  by (simp_all add: markComplete_def split: option.split)

lemma pinRecovery_fields [simp]:
  "mgGroupId (pinRecovery now r g) = mgGroupId g"
  "mgCurrentEpoch (pinRecovery now r g) = mgCurrentEpoch g"
  "mgNextRecordId (pinRecovery now r g) = mgNextRecordId g"
  "mgPolicyVersion (pinRecovery now r g) = mgPolicyVersion g"
  "mgEpochComplete (pinRecovery now r g) = mgEpochComplete g"
  "mgClosed (pinRecovery now r g) = mgClosed g" "mgRecords (pinRecovery now r g) = mgRecords g"
  "mgClaims (pinRecovery now r g) = mgClaims g" "mgCommits (pinRecovery now r g) = mgCommits g"
  "mgSenders (pinRecovery now r g) = mgSenders g" "mgEpochs (pinRecovery now r g) = mgEpochs g"
  by (simp_all add: pinRecovery_def split: option.split)

lemma countSender_fields [simp]:
  "mgGroupId (countSender now r g) = mgGroupId g"
  "mgCurrentEpoch (countSender now r g) = mgCurrentEpoch g"
  "mgNextRecordId (countSender now r g) = mgNextRecordId g"
  "mgPolicyVersion (countSender now r g) = mgPolicyVersion g"
  "mgEpochComplete (countSender now r g) = mgEpochComplete g"
  "mgClosed (countSender now r g) = mgClosed g" "mgRecords (countSender now r g) = mgRecords g"
  "mgClaims (countSender now r g) = mgClaims g" "mgCommits (countSender now r g) = mgCommits g"
  "mgEpochs (countSender now r g) = mgEpochs g" "mgRecovery (countSender now r g) = mgRecovery g"
  by (simp_all add: countSender_def Let_def)

lemma storeRow_Some:
  "storeRow H now r g = Some g' \<longleftrightarrow>
     (\<exists>prune. pruneAfter now (rRetentionClass r) (mgMediaTtlSeconds g) (mgDurableTtlSeconds g) = Some prune \<and>
        g' = g\<lparr> mgClaims := (mgClaims g)(claimKeyOf r \<mapsto> claimOf H now r),
               mgRecords := mgRecords g @ [\<lparr> rrRecord = r, rrPruneAfter = prune, rrPruned = False,
                 rrCreateTime = now, rrPolicy = mgPolicyVersion g \<rparr>] \<rparr>)"
  by (auto simp: storeRow_def bind_eq_Some_conv)

lemma storeRow_fields:
  assumes "storeRow H now r g = Some g'"
  shows "mgCurrentEpoch g' = mgCurrentEpoch g" "mgNextRecordId g' = mgNextRecordId g"
    "mgPolicyVersion g' = mgPolicyVersion g" "mgEpochComplete g' = mgEpochComplete g"
    "mgClosed g' = mgClosed g" "group_log g' = group_log g @ [r]"
    "mgClaims g' = (mgClaims g)(claimKeyOf r \<mapsto> claimOf H now r)"
    "mgCommits g' = mgCommits g" "mgSenders g' = mgSenders g" "mgEpochs g' = mgEpochs g"
    "mgRecovery g' = mgRecovery g" "mgGroupId g' = mgGroupId g"
  using assms by (auto simp: storeRow_Some group_log_def)

lemma openEpoch_Some:
  "openEpoch limits now st keys g r = Some (g', applied) \<longleftrightarrow>
     (\<exists>opn media durable. openingOf r keys = Some opn \<and> applyLimits limits opn = (media, durable, applied) \<and>
        g' = g\<lparr> mgEpochs := retireKeys now (gsCurrentEpoch st)
                  ((mgEpochs g)(gsCurrentEpoch st + 1 \<mapsto>
                     openedEpoch now (gsCurrentEpoch st + 1) opn (rRecordId r))),
               mgCurrentEpoch := gsCurrentEpoch st + 1, mgEpochComplete := False,
               mgMediaTtlSeconds := media, mgDurableTtlSeconds := durable,
               mgGroupContextHash := eoGroupContextHash opn,
               mgPolicyVersion := mgPolicyVersion g + 1,
               mgCommits := (mgCommits g)(rEpoch r \<mapsto>
                  \<lparr> cmEpoch = rEpoch r, cmRecordId = rRecordId r, cmRecord = r \<rparr>) \<rparr>)"
proof (cases "openingOf r keys")
  case None
  then show ?thesis by (simp add: openEpoch_def)
next
  case (Some opn)
  then show ?thesis by (cases "applyLimits limits opn") (auto simp: openEpoch_def Let_def)
qed

text \<open>The group a commit has opened its epoch in, or the group itself for any other record.\<close>

definition opened ::
  "Limits \<Rightarrow> time \<Rightarrow> GroupState \<Rightarrow> EpochKeyDelivery option \<Rightarrow> memoryGroup \<Rightarrow> Record \<Rightarrow>
   memoryGroup \<Rightarrow> RetentionApplied option \<Rightarrow> bool" where
  "opened limits now st keys g r g1 applied \<longleftrightarrow>
     (if rIsCommit r
      then \<exists>a. openEpoch limits now st keys g r = Some (g1, a) \<and> applied = Some a
      else g1 = g \<and> applied = None)"

lemma commitOne_cases:
  assumes "commitOne H limits now st keys i g p = Some (g', p')"
  obtains g1 applied g2 where
    "opened limits now st keys g (stored i (pRecord p)) g1 applied"
    "storeRow H now (stored i (pRecord p)) (markComplete (stored i (pRecord p)) g1) = Some g2"
    "g' = countSender now (stored i (pRecord p)) (pinRecovery now (stored i (pRecord p)) g2)"
    "p' = p\<lparr>pResult := (if rIsCommit (pRecord p)
        then (pResult p)\<lparr>srApplied := applied, srCurrentEpoch := mgCurrentEpoch g1,
                         srReason := acceptanceReason applied, srRecordId := i\<rparr>
        else (pResult p)\<lparr>srReason := acceptanceReason (srApplied (pResult p)), srRecordId := i\<rparr>)\<rparr>"
proof (cases "rIsCommit (pRecord p)")
  case True
  with assms obtain g1 a g2 where
    "openEpoch limits now st keys g (stored i (pRecord p)) = Some (g1, a)"
    "storeRow H now (stored i (pRecord p)) (markComplete (stored i (pRecord p)) g1) = Some g2"
    "g' = countSender now (stored i (pRecord p)) (pinRecovery now (stored i (pRecord p)) g2)"
    "p' = p\<lparr>pResult := (pResult p)\<lparr>srApplied := Some a, srCurrentEpoch := mgCurrentEpoch g1,
                         srReason := acceptanceReason (Some a), srRecordId := i\<rparr>\<rparr>"
    by (auto simp: commitOne_def bind_eq_Some_conv stored_def Let_def)
  with True show ?thesis by (intro that [of g1 "Some a" g2]) (auto simp: opened_def)
next
  case False
  with assms obtain g2 where
    "storeRow H now (stored i (pRecord p)) (markComplete (stored i (pRecord p)) g) = Some g2"
    "g' = countSender now (stored i (pRecord p)) (pinRecovery now (stored i (pRecord p)) g2)"
    "p' = p\<lparr>pResult := (pResult p)\<lparr>srReason := acceptanceReason (srApplied (pResult p)), srRecordId := i\<rparr>\<rparr>"
    by (auto simp: commitOne_def bind_eq_Some_conv stored_def Let_def)
  with False show ?thesis by (intro that [of g None g2]) (auto simp: opened_def)
qed

lemma group_log_writes [simp]:
  "group_log (markComplete r g) = group_log g" "group_log (pinRecovery now r g) = group_log g"
  "group_log (countSender now r g) = group_log g"
  by (simp_all add: group_log_def)

lemma opened_fields:
  assumes "opened limits now st keys g r g1 applied"
  shows "mgNextRecordId g1 = mgNextRecordId g" "mgClosed g1 = mgClosed g"
    "group_log g1 = group_log g" "mgClaims g1 = mgClaims g" "mgSenders g1 = mgSenders g"
    "mgRecovery g1 = mgRecovery g" "mgGroupId g1 = mgGroupId g"
  using assms by (auto simp: opened_def openEpoch_Some group_log_def split: if_splits)

lemma opened_plain:
  "\<not> rIsCommit r \<Longrightarrow> opened limits now st keys g r g1 applied \<longleftrightarrow> g1 = g \<and> applied = None"
  by (simp add: opened_def)

lemma commitOne_fields:
  assumes "commitOne H limits now st keys i g p = Some (g', p')"
  shows "group_log g' = group_log g @ [stored i (pRecord p)]"
    and "mgClaims g' = (mgClaims g)(claimKeyOf (pRecord p) \<mapsto> claimOf H now (stored i (pRecord p)))"
    and "mgNextRecordId g' = mgNextRecordId g" and "mgClosed g' = mgClosed g"
    and "pRecord p' = pRecord p" and "srRecordId (pResult p') = i"
    and "accepted (srReason (pResult p'))"
    and "pSettled p' = pSettled p" and "pProbe p' = pProbe p" and "mgGroupId g' = mgGroupId g"
  by (rule commitOne_cases [OF assms]; simp add: opened_fields storeRow_fields)+


lemma commitOne_senders:
  assumes "commitOne H limits now st keys i g p = Some (g', p')"
  shows "\<exists>sender. sender = (case mgSenders g (rSenderHandle (pRecord p)) of
             None \<Rightarrow> \<lparr> snLastStreamIndex = 0, snRecordCount = 0, snByteCount = 0, snLastTime = 0 \<rparr>
           | Some row \<Rightarrow> row) \<and>
         mgSenders g' = (mgSenders g)(rSenderHandle (pRecord p) \<mapsto>
           \<lparr> snLastStreamIndex = rStreamIndex (pRecord p), snRecordCount = snRecordCount sender + 1,
             snByteCount = snByteCount sender + recordBytes (pRecord p), snLastTime = now \<rparr>)"
  by (rule commitOne_cases [OF assms])
    (simp add: opened_fields storeRow_fields countSender_def Let_def)

lemma commitOne_recovery:
  assumes "commitOne H limits now st keys i g p = Some (g', p')"
  shows "map_option rcVerifyPub (mgRecovery g' h) =
    (case recoveryTagOf (pRecord p) of
       None \<Rightarrow> map_option rcVerifyPub (mgRecovery g h)
     | Some tag \<Rightarrow> (if h = rtHandle tag \<and> mgRecovery g h = None then Some (rtVerifyPub tag)
                    else map_option rcVerifyPub (mgRecovery g h)))"
  by (rule commitOne_cases [OF assms])
    (auto simp: opened_fields storeRow_fields pinRecovery_def split: option.splits)

lemma commitOne_plain:
  assumes "commitOne H limits now st keys i g p = Some (g', p')" and "\<not> rIsCommit (pRecord p)"
  shows "mgCurrentEpoch g' = mgCurrentEpoch g" and "mgPolicyVersion g' = mgPolicyVersion g"
    and "mgCommits g' = mgCommits g" and "mgEpochs g' = mgEpochs g"
    and "mgEpochComplete g \<Longrightarrow> mgEpochComplete g'"
    and "mgEpochComplete g' \<Longrightarrow> mgEpochComplete g \<or>
      (\<exists>m row. epochCompleteTagOf (pRecord p) = Some m \<and> ecEpoch m = mgCurrentEpoch g \<and>
         mgEpochs g (mgCurrentEpoch g) = Some row \<and> ecWrapCount m = erExpectedWrapCount row)"
proof -
  from commitOne_cases [OF assms(1)] assms(2) obtain g2 where
    "storeRow H now (stored i (pRecord p)) (markComplete (stored i (pRecord p)) g) = Some g2"
    "g' = countSender now (stored i (pRecord p)) (pinRecovery now (stored i (pRecord p)) g2)"
    by (metis opened_plain stored_simps(4))
  note g2 = this storeRow_fields [OF this(1)]
  then show "mgCurrentEpoch g' = mgCurrentEpoch g" and "mgPolicyVersion g' = mgPolicyVersion g"
    and "mgCommits g' = mgCommits g" and "mgEpochs g' = mgEpochs g" by simp_all
  show "mgEpochComplete g'" if "mgEpochComplete g"
    using that g2 by (auto simp: markComplete_def split: option.splits)
  show "mgEpochComplete g \<or>
      (\<exists>m row. epochCompleteTagOf (pRecord p) = Some m \<and> ecEpoch m = mgCurrentEpoch g \<and>
         mgEpochs g (mgCurrentEpoch g) = Some row \<and> ecWrapCount m = erExpectedWrapCount row)"
    if "mgEpochComplete g'"
    using that g2 by (auto simp: markComplete_def split: option.splits if_splits)
qed

lemma commitOne_commit:
  assumes "commitOne H limits now st keys i g p = Some (g', p')" and "rIsCommit (pRecord p)"
    and "admits g keys (pRecord p)" and "gsCurrentEpoch st = mgCurrentEpoch g"
  obtains opn where "openingOf (pRecord p) keys = Some opn"
    and "length (eoWriteKey opn) = EpochKeyBytes" and "length (eoReadKey opn) = EpochKeyBytes"
    and "eoExpectedWrapCount opn \<noteq> 0"
    and "mgCurrentEpoch g' = mgCurrentEpoch g + 1" and "mgPolicyVersion g' = mgPolicyVersion g + 1"
    and "mgEpochComplete g' = False"
    and "mgCommits g' = (mgCommits g)(mgCurrentEpoch g \<mapsto>
           \<lparr> cmEpoch = mgCurrentEpoch g, cmRecordId = i, cmRecord = stored i (pRecord p) \<rparr>)"
    and "mgEpochs g' = retireKeys now (mgCurrentEpoch g)
           ((mgEpochs g)(mgCurrentEpoch g + 1 \<mapsto> openedEpoch now (mgCurrentEpoch g + 1) opn i))"
proof -
  from assms(2,3) have wf: "wellFormedEpochAttachment (pRecord p) (mgCurrentEpoch g + 1) keys"
    and e: "rEpoch (pRecord p) = mgCurrentEpoch g"
    and k: "isEpochAttachmentKind (attachmentKindOf (pRecord p))"
    by (auto simp: admits_def)
  obtain opn where o: "openingOf (pRecord p) keys = Some opn"
    "length (eoWriteKey opn) = EpochKeyBytes" "length (eoReadKey opn) = EpochKeyBytes"
    "eoExpectedWrapCount opn \<noteq> 0"
    using wellFormedEpochAttachment_opening [OF wf] by metis
  from commitOne_cases [OF assms(1)] obtain g1 applied g2 where
    g: "opened limits now st keys g (stored i (pRecord p)) g1 applied"
       "storeRow H now (stored i (pRecord p)) (markComplete (stored i (pRecord p)) g1) = Some g2"
       "g' = countSender now (stored i (pRecord p)) (pinRecovery now (stored i (pRecord p)) g2)"
    by metis
  have "mgEpochComplete (markComplete (stored i (pRecord p)) g1) = mgEpochComplete g1"
    using epoch_kind_no_tags(2) [OF k] by (simp add: markComplete_def)
  with g o e assms(2,4) show ?thesis
    by (intro that [of opn]) (auto simp: opened_def openEpoch_Some storeRow_fields)
qed

section \<open>Each part is kept\<close>

lemma inv_ids_commitOne:
  assumes "commitOne H limits now st keys (of_nat (Suc (length (group_log g)))) g p = Some (g', p')"
    and "inv_ids g"
  shows "inv_ids g'"
  using assms(2) by (auto simp: inv_ids_def commitOne_fields [OF assms(1)] nth_append less_Suc_eq)

lemma inv_claims_commitOne:
  assumes "commitOne H limits now st keys i g p = Some (g', p')" and "inv_claims H g"
  shows "inv_claims H g'"
  unfolding inv_claims_def commitOne_fields [OF assms(1)]
proof (intro conjI allI impI ballI)
  fix k c
  assume "((mgClaims g)(claimKeyOf (pRecord p) \<mapsto> claimOf H now (stored i (pRecord p)))) k = Some c"
  then show "\<exists>r\<in>set (group_log g @ [stored i (pRecord p)]). claimKeyOf r = k \<and>
      clRecordId c = rRecordId r \<and> clBodyHash c = rBodyHash r \<and> clHeadHash c = headHash H (rCtHead r)"
    using assms(2) by (cases k) (auto simp: inv_claims_def claimOf_def split: if_splits)
next
  fix r
  assume "r \<in> set (group_log g @ [stored i (pRecord p)])"
  then show "((mgClaims g)(claimKeyOf (pRecord p) \<mapsto> claimOf H now (stored i (pRecord p))))
      (claimKeyOf r) \<noteq> None"
    using assms(2) by (auto simp: inv_claims_def)
qed

lemma by_sender_snoc [simp]:
  "by_sender h (rs @ [r]) = (if rSenderHandle r = h then by_sender h rs @ [r] else by_sender h rs)"
  by (simp add: by_sender_def)

lemma by_sender_last:
  assumes "inv_streams g" and "r \<in> set (group_log g)" and "rSenderHandle r = h"
  shows "rStreamIndex r \<le> rStreamIndex (last (by_sender h (group_log g)))"
proof -
  let ?b = "by_sender h (group_log g)"
  have "sorted_wrt (\<lambda>r r'. rStreamIndex r < rStreamIndex r') ?b"
    using assms(1) unfolding inv_streams_def by_sender_def
    by (intro sorted_wrt_mono_rel [OF _ sorted_wrt_filter]) auto
  moreover have "r \<in> set ?b" using assms(2,3) by (simp add: by_sender_def)
  ultimately show ?thesis by (rule sorted_wrt_last)
qed

lemma inv_senders_last:
  assumes "inv_senders g" and "inv_streams g" and "r \<in> set (group_log g)"
  obtains row where "mgSenders g (rSenderHandle r) = Some row"
    and "rStreamIndex r \<le> snLastStreamIndex row"
proof -
  have "by_sender (rSenderHandle r) (group_log g) \<noteq> []"
    using assms(3) by (auto simp: by_sender_def filter_empty_conv)
  moreover have "sender_ok (mgSenders g (rSenderHandle r)) (by_sender (rSenderHandle r) (group_log g))"
    using assms(1) by (simp add: inv_senders_def)
  ultimately obtain row where "mgSenders g (rSenderHandle r) = Some row"
    "snLastStreamIndex row = rStreamIndex (last (by_sender (rSenderHandle r) (group_log g)))"
    by (auto simp: sender_ok_def split: option.splits)
  with by_sender_last [OF assms(2,3) refl] that show ?thesis by simp
qed

lemma inv_streams_commitOne:
  assumes "commitOne H limits now st keys i g p = Some (g', p')"
    and "inv_streams g" and "inv_senders g" and "admits g keys (pRecord p)"
  shows "inv_streams g'"
proof -
  have "rStreamIndex r < rStreamIndex (pRecord p)"
    if r: "r \<in> set (group_log g)" and h: "rSenderHandle r = rSenderHandle (pRecord p)" for r
  proof -
    from inv_senders_last [OF assms(3,2) r] obtain row where
      "mgSenders g (rSenderHandle r) = Some row" "rStreamIndex r \<le> snLastStreamIndex row" .
    with h assms(4) show ?thesis by (auto simp: admits_def)
  qed
  with assms(2) show ?thesis by (simp add: inv_streams_def commitOne_fields [OF assms(1)])
qed

lemma inv_senders_commitOne:
  assumes "commitOne H limits now st keys i g p = Some (g', p')" and "inv_senders g"
  shows "inv_senders g'"
proof -
  have "sender_ok (mgSenders g' h) (by_sender h (group_log g'))" for h
  proof -
    from assms(2) have "sender_ok (mgSenders g h) (by_sender h (group_log g))"
      by (simp add: inv_senders_def)
    with commitOne_senders [OF assms(1)] show ?thesis
      by (cases "mgSenders g h"; cases "rSenderHandle (pRecord p) = h")
        (auto simp: sender_ok_def commitOne_fields [OF assms(1)])
  qed
  then show ?thesis by (simp add: inv_senders_def)
qed

text \<open>The epoch cannot wrap while the log is shorter than the id space.\<close>

lemma next_epoch:
  assumes "inv_epochs g" and "Suc (length (group_log g)) < 2 ^ 64"
  shows "unat (mgCurrentEpoch g + 1) = Suc (unat (mgCurrentEpoch g))"
    and "mgCurrentEpoch g < mgCurrentEpoch g + 1" and "mgCurrentEpoch g + 1 \<noteq> 0"
    and "mgCurrentEpoch g + 1 - 1 = mgCurrentEpoch g"
proof -
  have "unat (mgCurrentEpoch g) < 2 ^ 64 - 1"
    using assms by (simp add: inv_epochs_def)
  then show u: "unat (mgCurrentEpoch g + 1) = Suc (unat (mgCurrentEpoch g))"
    by (simp add: unat_word_ariths)
  then show "mgCurrentEpoch g < mgCurrentEpoch g + 1" by (simp add: word_less_nat_alt)
  show "mgCurrentEpoch g + 1 \<noteq> 0" using u by (metis nat.distinct(1) unat_0)
qed simp

lemma inv_epochs_commitOne:
  assumes c: "commitOne H limits now st keys i g p = Some (g', p')" and "inv_epochs g"
    and a: "admits g keys (pRecord p)" and st: "gsCurrentEpoch st = mgCurrentEpoch g"
    and small: "Suc (length (group_log g)) < 2 ^ 64"
  shows "inv_epochs g'"
proof (cases "rIsCommit (pRecord p)")
  case False
  with assms(2) a show ?thesis
    by (auto simp: inv_epochs_def admits_def commitOne_fields [OF c] commitOne_plain [OF c False])
next
  case True
  note n = next_epoch [OF assms(2) small]
  have "ucast (mgCurrentEpoch g + 1) = (ucast (mgCurrentEpoch g) + 1 :: u32)"
    by (rule ucast_add_one)
  moreover have "r \<le> mgCurrentEpoch g + 1" "r < mgCurrentEpoch g + 1" if "r \<le> mgCurrentEpoch g" for r
    using that n(2) by auto
  moreover from commitOne_commit [OF c True a st] have "mgCurrentEpoch g' = mgCurrentEpoch g + 1"
    "mgPolicyVersion g' = mgPolicyVersion g + 1" by metis+
  ultimately show ?thesis using assms(2) a n
    by (auto simp: inv_epochs_def admits_def commitOne_fields [OF c])
qed

text \<open>The epochs below \<open>n + 1\<close> are \<open>n\<close> and those below it.\<close>

lemma less_next:
  fixes e n :: u64
  assumes "unat (n + 1) = Suc (unat n)"
  shows "e < n + 1 \<longleftrightarrow> e < n \<or> e = n" and "n + 1 \<le> e \<longleftrightarrow> n < e"
    and "e \<le> n + 1 \<longleftrightarrow> e \<le> n \<or> e = n + 1" and "n + 1 < e \<longleftrightarrow> n < e \<and> e \<noteq> n + 1"
  using assms by (auto simp: word_less_nat_alt word_le_nat_alt word_unat_eq_iff)

lemma commit_ok_snoc: "commit_ok current rs e row \<Longrightarrow> commit_ok current (rs @ [r]) e row"
  by (auto simp: commit_ok_def split: option.splits)

lemma inv_commits_commitOne:
  assumes c: "commitOne H limits now st keys i g p = Some (g', p')" and "inv_commits g"
    and "inv_epochs g" and a: "admits g keys (pRecord p)"
    and st: "gsCurrentEpoch st = mgCurrentEpoch g" and small: "Suc (length (group_log g)) < 2 ^ 64"
  shows "inv_commits g'"
proof (cases "rIsCommit (pRecord p)")
  case False
  with assms(2) show ?thesis
    by (simp add: inv_commits_def commitOne_fields [OF c] commitOne_plain [OF c False] commit_ok_snoc)
next
  case True
  note l = less_next [OF next_epoch(1) [OF assms(3) small]]
  from commitOne_commit [OF c True a st] have
    "mgCurrentEpoch g' = mgCurrentEpoch g + 1"
    "mgCommits g' = (mgCommits g)(mgCurrentEpoch g \<mapsto>
       \<lparr> cmEpoch = mgCurrentEpoch g, cmRecordId = i, cmRecord = stored i (pRecord p) \<rparr>)"
    by metis+
  note g' = this commitOne_fields(1) [OF c]
  have "commit_ok (mgCurrentEpoch g') (group_log g') e (mgCommits g' e)" for e
  proof -
    from assms(2) have "commit_ok (mgCurrentEpoch g) (group_log g) e (mgCommits g e)"
      by (simp add: inv_commits_def)
    with g' True a show ?thesis
      by (cases "mgCommits g e"; cases "e = mgCurrentEpoch g") (auto simp: commit_ok_def admits_def l)
  qed
  then show ?thesis by (simp add: inv_commits_def)
qed

lemma inv_recovery_commitOne:
  assumes c: "commitOne H limits now st keys i g p = Some (g', p')" and "inv_recovery g"
    and a: "admits g keys (pRecord p)"
  shows "inv_recovery g'"
proof -
  note r = commitOne_recovery [OF c]
  have "map_option rcVerifyPub (mgRecovery g' (rtHandle tag)) = Some (rtVerifyPub tag)"
    if "x \<in> set (group_log g')" and "recoveryTagOf x = Some tag" for x tag
  proof (cases "x \<in> set (group_log g)")
    case True
    with that(2) assms(2)
    have "map_option rcVerifyPub (mgRecovery g (rtHandle tag)) = Some (rtVerifyPub tag)"
      by (simp add: inv_recovery_def)
    then show ?thesis using r [of "rtHandle tag"] by (auto split: option.splits)
  next
    case False
    with that have "recoveryTagOf (pRecord p) = Some tag" by (auto simp: commitOne_fields [OF c])
    with a r [of "rtHandle tag"] show ?thesis
      by (cases "mgRecovery g (rtHandle tag)") (auto simp: admits_def)
  qed
  moreover have "\<exists>x \<in> set (group_log g'). \<exists>tag. recoveryTagOf x = Some tag \<and> rtHandle tag = h"
    if "mgRecovery g' h = Some row" for h row
  proof (cases "mgRecovery g h")
    case None
    with r [of h] that obtain tag where "recoveryTagOf (pRecord p) = Some tag" "h = rtHandle tag"
      by (auto split: option.splits if_splits)
    then show ?thesis by (auto simp: commitOne_fields [OF c])
  next
    case (Some row')
    with assms(2) show ?thesis by (auto simp: inv_recovery_def commitOne_fields [OF c])
  qed
  ultimately show ?thesis unfolding inv_recovery_def by blast
qed

lemma marked_append [simp]: "marked (xs @ ys) e \<longleftrightarrow> marked xs e \<or> marked ys e"
  by (auto simp: marked_def)

lemma inv_fanout_commitOne:
  assumes c: "commitOne H limits now st keys i g p = Some (g', p')" and "inv_fanout g"
    and a: "admits g keys (pRecord p)" and st: "gsCurrentEpoch st = mgCurrentEpoch g"
  shows "inv_fanout g'"
proof -
  have "mgEpochComplete g' \<longrightarrow> marked (group_log g') (mgCurrentEpoch g')"
  proof (cases "rIsCommit (pRecord p)")
    case True
    with commitOne_commit [OF c True a st] show ?thesis by metis
  next
    case False
    with assms(2) commitOne_plain [OF c False] show ?thesis
      by (auto simp: inv_fanout_def marked_def commitOne_fields [OF c])
  qed
  moreover have "rEpoch (pRecord p) \<noteq> 0 \<longrightarrow> \<not> exemptFromEpochComplete (pRecord p) \<longrightarrow>
      marked (group_log g) (rEpoch (pRecord p))"
    using assms(2) a by (auto simp: inv_fanout_def admits_def)
  ultimately show ?thesis using assms(2)
    unfolding inv_fanout_def commitOne_fields [OF c]
    by (auto simp: nth_append less_Suc_eq)
qed

lemma inv_shapes_commitOne:
  assumes c: "commitOne H limits now st keys i g p = Some (g', p')" and "inv_shapes g"
    and "admits g keys (pRecord p)" and "validateRecord (pRecord p) = None"
  shows "inv_shapes g'"
  using assms(2-) by (auto simp: inv_shapes_def admits_def commitOne_fields [OF c])

lemma retireKeys_apply:
  "retireKeys now n epochs e =
     map_option (\<lambda>row. if erWriteKey row = None then row
                       else if e < n then row\<lparr>erWriteKey := None\<rparr>
                       else if e = n then row\<lparr>erRetireTime := now\<rparr> else row) (epochs e)"
  by (cases "epochs e"; cases "epochs n") (auto simp: retireKeys_def Let_def)

lemma inv_keys_commitOne:
  assumes c: "commitOne H limits now st keys i g p = Some (g', p')" and "inv_keys g"
    and "inv_epochs g" and a: "admits g keys (pRecord p)"
    and st: "gsCurrentEpoch st = mgCurrentEpoch g" and small: "Suc (length (group_log g)) < 2 ^ 64"
  shows "inv_keys g'"
proof (cases "rIsCommit (pRecord p)")
  case False
  with assms(2) show ?thesis by (simp add: inv_keys_def commitOne_plain [OF c False])
next
  case True
  let ?n = "mgCurrentEpoch g"
  note n = next_epoch [OF assms(3) small]
  note l = less_next [OF n(1)]
  obtain opn where o: "length (eoWriteKey opn) = EpochKeyBytes"
    "length (eoReadKey opn) = EpochKeyBytes" "eoExpectedWrapCount opn \<noteq> 0"
    and g': "mgCurrentEpoch g' = ?n + 1"
      "mgCommits g' = (mgCommits g)(?n \<mapsto>
         \<lparr> cmEpoch = ?n, cmRecordId = i, cmRecord = stored i (pRecord p) \<rparr>)"
      "mgEpochs g' = retireKeys now ?n ((mgEpochs g)(?n + 1 \<mapsto> openedEpoch now (?n + 1) opn i))"
    using commitOne_commit [OF c True a st] by metis
  have "epoch_ok (mgCurrentEpoch g') (mgCommits g') e (mgEpochs g' e)" for e
  proof (cases "e = ?n + 1")
    case e: True
    show ?thesis unfolding g' e
      using o n by (simp add: epoch_ok_def retireKeys_apply openedEpoch_def slen_def)
  next
    case e: False
    then have e': "e - 1 \<noteq> ?n" by (metis diff_add_cancel)
    from assms(2) have ok: "epoch_ok ?n (mgCommits g) e (mgEpochs g e)" by (simp add: inv_keys_def)
    show ?thesis
    proof (cases "mgEpochs g e")
      case None
      with ok e e' show ?thesis by (simp add: g' epoch_ok_def retireKeys_apply l)
    next
      case (Some row)
      with ok have "e \<le> ?n" by (simp add: epoch_ok_def)
      then have "e = ?n \<or> e < ?n" by auto
      with ok Some e e' n show ?thesis
        by (auto simp: g' epoch_ok_def retireKeys_apply l slen_def word_less_nat_alt)
    qed
  qed
  then show ?thesis by (simp add: inv_keys_def)
qed

text \<open>One admitted record, stored under the next id, keeps all of it.\<close>

theorem rows_inv_commitOne:
  assumes c: "commitOne H limits now st keys (of_nat (Suc (length (group_log g)))) g p = Some (g', p')"
    and "rows_inv H g" and "admits g keys (pRecord p)" and "validateRecord (pRecord p) = None"
    and "gsCurrentEpoch st = mgCurrentEpoch g" and "Suc (length (group_log g)) < 2 ^ 64"
  shows "rows_inv H g'"
  using assms(2-) unfolding rows_inv_def
  by (simp add: inv_ids_commitOne [OF c] inv_claims_commitOne [OF c] inv_streams_commitOne [OF c]
      inv_senders_commitOne [OF c] inv_epochs_commitOne [OF c] inv_commits_commitOne [OF c]
      inv_keys_commitOne [OF c] inv_recovery_commitOne [OF c] inv_fanout_commitOne [OF c]
      inv_shapes_commitOne [OF c])

text \<open>An admitted record is always stored: no branch of the writes panics.\<close>

lemma commitOne_total:
  assumes "admits g keys (pRecord p)" and "validateRecord (pRecord p) = None"
  shows "\<exists>g' p'. commitOne H limits now st keys i g p = Some (g', p')"
proof -
  have row: "\<exists>g2. storeRow H now (stored i (pRecord p)) g1 = Some g2" for g1
    using pruneAfter_Some [OF assms(2)] by (simp add: storeRow_Some)
  show ?thesis
  proof (cases "rIsCommit (pRecord p)")
    case False
    with row show ?thesis by (auto simp: commitOne_def stored_def [symmetric] Let_def bind_eq_Some_conv)
  next
    case True
    with assms(1) obtain opn where "openingOf (pRecord p) keys = Some opn"
      unfolding admits_def by (metis wellFormedEpochAttachment_opening)
    then have "\<exists>g1 a. openEpoch limits now st keys g (stored i (pRecord p)) = Some (g1, a)"
      by (cases "applyLimits limits opn") (auto simp: openEpoch_Some)
    with True row show ?thesis
      by (auto simp: commitOne_def stored_def [symmetric] Let_def bind_eq_Some_conv)
  qed
qed

lemmas inv_parts =
  rows_inv_def inv_ids_def inv_claims_def inv_streams_def inv_senders_def inv_epochs_def
  inv_commits_def inv_keys_def inv_recovery_def inv_fanout_def inv_shapes_def

text \<open>The counter and the close are not rows.\<close>

lemma group_log_update [simp]:
  "group_log (g\<lparr>mgNextRecordId := n\<rparr>) = group_log g"
  "group_log (g\<lparr>mgClosed := c\<rparr>) = group_log g" "group_log (g\<lparr>mgCloseTime := t\<rparr>) = group_log g"
  by (simp_all add: group_log_def)

lemma rows_inv_update [simp]:
  "rows_inv H (g\<lparr>mgNextRecordId := n\<rparr>) = rows_inv H g"
  "rows_inv H (g\<lparr>mgClosed := c\<rparr>) = rows_inv H g"
  "rows_inv H (g\<lparr>mgCloseTime := t\<rparr>) = rows_inv H g"
  by (simp_all add: inv_parts)

end
