(* ===== verification/Store_Submit.thy ===== *)
theory Store_Submit
  imports Store_Invariant
begin

text \<open>
  From the gates to the log: a batch that passes every gate is a sequence of admitted records and is
  written whole; any other batch leaves its group as it was; and what a group held is never altered.
\<close>

section \<open>A group's history only grows\<close>

text \<open>
  What a later state of a group keeps of an earlier one: the log as a prefix, every claim, every
  commit and every pin as it was, every read key, no write key that was gone, and a close.
\<close>

definition key_kept :: "epochRow \<Rightarrow> epochRow \<Rightarrow> bool" where
  "key_kept row row' \<longleftrightarrow> erReadKey row' = erReadKey row \<and> erOpenedByRecord row' = erOpenedByRecord row \<and>
     (erWriteKey row' = erWriteKey row \<or> erWriteKey row' = None)"

definition extends :: "memoryGroup \<Rightarrow> memoryGroup \<Rightarrow> bool" where
  "extends g g' \<longleftrightarrow>
     (\<exists>rs. group_log g' = group_log g @ rs) \<and> mgClaims g \<subseteq>\<^sub>m mgClaims g' \<and>
     mgCommits g \<subseteq>\<^sub>m mgCommits g' \<and> mgRecovery g \<subseteq>\<^sub>m mgRecovery g' \<and>
     (\<forall>e row. mgEpochs g e = Some row \<longrightarrow> (\<exists>row'. mgEpochs g' e = Some row' \<and> key_kept row row')) \<and>
     mgCurrentEpoch g \<le> mgCurrentEpoch g' \<and> (mgClosed g \<longrightarrow> mgClosed g') \<and>
     mgGroupId g' = mgGroupId g"

lemma extends_refl [simp]: "extends g g"
  by (simp add: extends_def key_kept_def)

lemma key_kept_trans: "key_kept a b \<Longrightarrow> key_kept b c \<Longrightarrow> key_kept a c"
  by (auto simp: key_kept_def)

lemma extends_trans:
  assumes "extends g1 g2" and "extends g2 g3"
  shows "extends g1 g3"
proof -
  have "\<exists>row'. mgEpochs g3 e = Some row' \<and> key_kept row row'" if "mgEpochs g1 e = Some row" for e row
    using assms that unfolding extends_def by (meson key_kept_trans)
  moreover have "\<exists>rs. group_log g3 = group_log g1 @ rs"
    using assms by (auto simp: extends_def)
  moreover have "mgClaims g1 \<subseteq>\<^sub>m mgClaims g3" "mgCommits g1 \<subseteq>\<^sub>m mgCommits g3"
    "mgRecovery g1 \<subseteq>\<^sub>m mgRecovery g3"
    using assms by (auto simp: extends_def intro: map_le_trans)
  ultimately show ?thesis using assms by (auto simp: extends_def)
qed

lemma claim_fresh:
  assumes "rows_inv H g" and "admits g keys r"
  shows "mgClaims g (claimKeyOf r) = None"
proof (rule ccontr)
  assume "mgClaims g (claimKeyOf r) \<noteq> None"
  then obtain c where "mgClaims g (claimKeyOf r) = Some c" by blast
  with assms(1) obtain r' where r': "r' \<in> set (group_log g)" "claimKeyOf r' = claimKeyOf r"
    unfolding rows_inv_def inv_claims_def by blast
  from assms(1) have "inv_senders g" "inv_streams g" by (auto simp: rows_inv_def)
  from inv_senders_last [OF this r'(1)] obtain row where
    "mgSenders g (rSenderHandle r') = Some row" "rStreamIndex r' \<le> snLastStreamIndex row" .
  with r'(2) assms(2) show False by (auto simp: claimKeyOf_def admits_def)
qed

lemma commitOne_pins:
  assumes "commitOne H limits now st keys i g p = Some (g', p')"
  shows "mgRecovery g \<subseteq>\<^sub>m mgRecovery g'"
  by (rule commitOne_cases [OF assms])
    (auto simp: opened_fields storeRow_fields pinRecovery_def map_le_def split: option.splits)

lemma extends_commitOne:
  assumes c: "commitOne H limits now st keys i g p = Some (g', p')"
    and inv: "rows_inv H g" and a: "admits g keys (pRecord p)"
    and st: "gsCurrentEpoch st = mgCurrentEpoch g" and small: "Suc (length (group_log g)) < 2 ^ 64"
  shows "extends g g'"
proof -
  from inv have parts: "inv_epochs g" "inv_commits g" "inv_keys g" by (auto simp: rows_inv_def)
  note n = next_epoch [OF parts(1) small]
  have claims: "mgClaims g \<subseteq>\<^sub>m mgClaims g'"
    using claim_fresh [OF inv a] by (auto simp: commitOne_fields [OF c] map_le_def)
  have "mgCommits g \<subseteq>\<^sub>m mgCommits g' \<and> mgCurrentEpoch g \<le> mgCurrentEpoch g' \<and>
    (\<forall>e row. mgEpochs g e = Some row \<longrightarrow> (\<exists>row'. mgEpochs g' e = Some row' \<and> key_kept row row'))"
  proof (cases "rIsCommit (pRecord p)")
    case False
    then show ?thesis by (simp add: commitOne_plain [OF c False] key_kept_def)
  next
    case True
    let ?n = "mgCurrentEpoch g"
    from parts(2) have "commit_ok ?n (group_log g) ?n (mgCommits g ?n)" by (simp add: inv_commits_def)
    then have nc: "mgCommits g ?n = None" by (auto simp: commit_ok_def split: option.splits)
    from parts(3) have "epoch_ok ?n (mgCommits g) (?n + 1) (mgEpochs g (?n + 1))"
      by (simp add: inv_keys_def)
    then have "mgEpochs g (?n + 1) = None" using n(2) by (auto simp: epoch_ok_def split: option.splits)
    moreover obtain opn where
      "mgCurrentEpoch g' = ?n + 1"
      "mgCommits g' = (mgCommits g)(?n \<mapsto>
         \<lparr> cmEpoch = ?n, cmRecordId = i, cmRecord = stored i (pRecord p) \<rparr>)"
      "mgEpochs g' = retireKeys now ?n ((mgEpochs g)(?n + 1 \<mapsto> openedEpoch now (?n + 1) opn i))"
      using commitOne_commit [OF c True a st] by metis
    ultimately show ?thesis using nc n(2)
      by (auto simp: retireKeys_apply key_kept_def map_le_def)
  qed
  with claims commitOne_pins [OF c] show ?thesis
    by (simp add: extends_def commitOne_fields [OF c])
qed

section \<open>From the gates to the log\<close>

text \<open>
  While a batch is written, the gates' two maps over the group as it was locked answer as the
  group's own rows do.
\<close>

definition tracks :: "memoryGroup \<Rightarrow> memoryGroup \<Rightarrow> (bytes \<rightharpoonup> u64) \<Rightarrow> (bytes \<rightharpoonup> bytes) \<Rightarrow> bool" where
  "tracks g0 g highWater pinned \<longleftrightarrow>
     mgCurrentEpoch g = mgCurrentEpoch g0 \<and> (mgEpochComplete g0 \<longrightarrow> mgEpochComplete g) \<and>
     (\<forall>h. highWaterOf g0 highWater h = map_option snLastStreamIndex (mgSenders g h)) \<and>
     (\<forall>h. pinOf g0 pinned h = map_option rcVerifyPub (mgRecovery g h))"

lemma tracks_start: "tracks g (g\<lparr>mgNextRecordId := n\<rparr>) Map.empty Map.empty"
  by (simp add: tracks_def highWaterOf_def pinOf_def)

lemma gate_admits:
  assumes "gate g0 (state g0) r keys highWater pinned = REASON_OK" and "tracks g0 g highWater pinned"
  shows "admits g keys r"
proof -
  note gate = assms(1) [unfolded gate_def]
  from assms(2) have t: "mgCurrentEpoch g = mgCurrentEpoch g0" "mgEpochComplete g0 \<longrightarrow> mgEpochComplete g"
    "\<And>h. highWaterOf g0 highWater h = map_option snLastStreamIndex (mgSenders g h)"
    "\<And>h. pinOf g0 pinned h = map_option rcVerifyPub (mgRecovery g h)"
    by (auto simp: tracks_def)
  from gate have "rEpoch r = mgCurrentEpoch g0" "mgEpochComplete g0 \<or> exemptFromEpochComplete r"
    "rIsCommit r \<longleftrightarrow> isEpochAttachmentKind (attachmentKindOf r)"
    "rIsCommit r \<longrightarrow> wellFormedEpochAttachment r (mgCurrentEpoch g0 + 1) keys"
    by (auto simp: state_def split: if_splits)
  moreover from gate t(3) have "snLastStreamIndex row < rStreamIndex r"
    if "mgSenders g (rSenderHandle r) = Some row" for row
    using that by (auto split: if_splits)
  moreover from gate t(4) have "rcVerifyPub row = rtVerifyPub tag"
    if "recoveryTagOf r = Some tag" "mgRecovery g (rtHandle tag) = Some row" for tag row
    using that by (auto split: if_splits)
  ultimately show ?thesis using t(1,2) by (auto simp: admits_def)
qed

lemma tracks_commitOne:
  assumes t: "tracks g0 g highWater pinned"
    and c: "commitOne H limits now st keys i g p = Some (g', p')"
    and a: "admits g keys (pRecord p)" and plain: "\<not> rIsCommit (pRecord p)"
  shows "tracks g0 g' (highWater(rSenderHandle (pRecord p) \<mapsto> rStreamIndex (pRecord p)))
           (pin (pRecord p) pinned)"
proof -
  have "highWaterOf g0 (highWater(rSenderHandle (pRecord p) \<mapsto> rStreamIndex (pRecord p))) h =
      map_option snLastStreamIndex (mgSenders g' h)" for h
    using t commitOne_senders [OF c] by (auto simp: tracks_def highWaterOf_def)
  moreover have "pinOf g0 (pin (pRecord p) pinned) h = map_option rcVerifyPub (mgRecovery g' h)" for h
  proof -
    have old: "pinOf g0 pinned h = map_option rcVerifyPub (mgRecovery g h)"
      using t by (simp add: tracks_def)
    show ?thesis
    proof (cases "recoveryTagOf (pRecord p)")
      case None
      with old commitOne_recovery [OF c, of h] show ?thesis by (simp add: pin_def)
    next
      case (Some tag)
      with a have "mgRecovery g (rtHandle tag) = Some row \<Longrightarrow> rcVerifyPub row = rtVerifyPub tag" for row
        by (simp add: admits_def)
      with old Some commitOne_recovery [OF c, of h] show ?thesis
        by (cases "mgRecovery g h"; cases "pinned h")
          (auto simp: pin_def pinOf_def split: if_splits)
    qed
  qed
  ultimately show ?thesis
    using t by (simp add: tracks_def commitOne_plain [OF c plain])
qed

text \<open>The records a batch adds to the log, and the id each result carries.\<close>

fun newRecords :: "u64 \<Rightarrow> pending list \<Rightarrow> Record list" where
  "newRecords i [] = []"
| "newRecords i (p # ps) =
     (if pSettled p then newRecords i ps else stored i (pRecord p) # newRecords (i + 1) ps)"

fun assignedIds :: "u64 \<Rightarrow> pending list \<Rightarrow> u64 list" where
  "assignedIds i [] = []"
| "assignedIds i (p # ps) =
     (if pSettled p then srRecordId (pResult p) # assignedIds i ps else i # assignedIds (i + 1) ps)"

lemma length_newRecords [simp]:
  "length (newRecords i ps) = length (filter (\<lambda>p. \<not> pSettled p) ps)"
  by (induction i ps rule: newRecords.induct) auto

text \<open>A commit is alone in its batch.\<close>

definition commit_alone :: "pending list \<Rightarrow> bool" where
  "commit_alone ps \<longleftrightarrow> (\<forall>p \<in> set ps. \<not> rIsCommit (pRecord p)) \<or> length ps = 1"

lemma commit_alone_Cons:
  "commit_alone (p # ps) \<Longrightarrow> rIsCommit (pRecord p) \<Longrightarrow> ps = []"
  "commit_alone (p # ps) \<Longrightarrow> commit_alone ps"
  by (auto simp: commit_alone_def)

definition valid_batch :: "pending list \<Rightarrow> bool" where
  "valid_batch ps \<longleftrightarrow> (\<forall>p \<in> set ps. validateRecord (pRecord p) = None)"

text \<open>What a batch that is written whole leaves: the log longer by its records, an id on every result.\<close>

definition settled_or_accepted :: "pending \<Rightarrow> pending \<Rightarrow> bool" where
  "settled_or_accepted p p' \<longleftrightarrow> pRecord p' = pRecord p \<and>
     (if pSettled p then p' = p else accepted (srReason (pResult p')))"

definition written :: "hash \<Rightarrow> u64 \<Rightarrow> memoryGroup \<Rightarrow> pending list \<Rightarrow> memoryGroup \<Rightarrow> pending list \<Rightarrow> bool" where
  "written H i g ps g' ps' \<longleftrightarrow>
     rows_inv H g' \<and> extends g g' \<and> group_log g' = group_log g @ newRecords i ps \<and>
     mgNextRecordId g' = mgNextRecordId g \<and> mgClosed g' = mgClosed g \<and>
     map (srRecordId \<circ> pResult) ps' = assignedIds i ps \<and> list_all2 settled_or_accepted ps ps'"

lemma written_settled:
  "pSettled p \<Longrightarrow> written H i g (p # ps) g' (p # ps') \<longleftrightarrow> written H i g ps g' ps'"
  by (auto simp: written_def settled_or_accepted_def)

lemma written_Cons:
  assumes "commitOne H limits now st keys i g p = Some (g1, p1)" and "\<not> pSettled p"
    and "written H (i + 1) g1 ps g' ps'" and "extends g g1"
  shows "written H i g (p # ps) g' (p1 # ps')"
  using assms(2,3) commitOne_fields [OF assms(1)] extends_trans [OF assms(4)]
  by (simp add: written_def settled_or_accepted_def)

text \<open>A batch past the gates is written whole.\<close>

lemma commitLoop_passed:
  assumes "gateLoop g0 (state g0) keys highWater pinned k ps = None"
    and "tracks g0 g highWater pinned" and "rows_inv H g" and "valid_batch ps" and "commit_alone ps"
    and "length (group_log g) + length (filter (\<lambda>p. \<not> pSettled p) ps) < 2 ^ 64"
    and "i = of_nat (Suc (length (group_log g)))"
  shows "\<exists>g' ps'. commitLoop H limits now (state g0) keys i g ps = Some (g', ps') \<and>
     written H i g ps g' ps'"
  using assms
proof (induction ps arbitrary: highWater pinned k g i)
  case Nil
  then show ?case by (simp add: written_def)
next
  case (Cons p ps)
  have ca: "commit_alone ps" and vb: "valid_batch ps" and v: "validateRecord (pRecord p) = None"
    using Cons.prems by (auto simp: commit_alone_def valid_batch_def)
  show ?case
  proof (cases "pSettled p")
    case True
    with Cons.prems(1) have g: "gateLoop g0 (state g0) keys highWater pinned (Suc k) ps = None"
      by simp
    from Cons.IH [OF g Cons.prems(2,3) vb ca _ Cons.prems(7)] Cons.prems(6) True obtain g' ps' where
      "commitLoop H limits now (state g0) keys i g ps = Some (g', ps')" "written H i g ps g' ps'"
      by auto
    with True show ?thesis by (auto simp: written_settled intro!: exI [of _ g'] exI [of _ "p # ps'"])
  next
    case False
    with Cons.prems(1) have gate: "gate g0 (state g0) (pRecord p) keys highWater pinned = REASON_OK"
      and rest: "gateLoop g0 (state g0) keys
        (highWater(rSenderHandle (pRecord p) \<mapsto> rStreamIndex (pRecord p))) (pin (pRecord p) pinned)
        (Suc k) ps = None"
      by (auto simp: Let_def split: if_splits)
    note a = gate_admits [OF gate Cons.prems(2)]
    obtain g1 p1 where c: "commitOne H limits now (state g0) keys i g p = Some (g1, p1)"
      using commitOne_total [OF a v] by blast
    have st: "gsCurrentEpoch (state g0) = mgCurrentEpoch g"
      using Cons.prems(2) by (simp add: tracks_def state_def)
    have r1: "rows_inv H g1"
      using rows_inv_commitOne [OF c [unfolded Cons.prems(7)] Cons.prems(3) a v st] Cons.prems(6) False
      by simp
    have e1: "extends g g1"
      using extends_commitOne [OF c Cons.prems(3) a st] Cons.prems(6) False by simp
    have i1: "i + 1 = of_nat (Suc (length (group_log g1)))"
      using Cons.prems(7) commitOne_fields(1) [OF c] by simp
    have "\<exists>g' ps'. commitLoop H limits now (state g0) keys (i + 1) g1 ps = Some (g', ps') \<and>
       written H (i + 1) g1 ps g' ps'"
    proof (cases "rIsCommit (pRecord p)")
      case True
      with commit_alone_Cons(1) [OF Cons.prems(5)] r1 show ?thesis by (simp add: written_def)
    next
      case plain: False
      from Cons.IH [OF rest tracks_commitOne [OF Cons.prems(2) c a plain] r1 vb ca _ i1]
        Cons.prems(6) False commitOne_fields(1) [OF c] show ?thesis by simp
    qed
    then obtain g' ps' where "commitLoop H limits now (state g0) keys (i + 1) g1 ps = Some (g', ps')"
      "written H (i + 1) g1 ps g' ps'" by blast
    with c False written_Cons [OF c False _ e1] show ?thesis
      by (auto intro!: exI [of _ g'] exI [of _ "p1 # ps'"])
  qed
qed

section \<open>A whole submission\<close>

lemma gateLoop_not_lost:
  "gateLoop g st keys highWater pinned k ps = None \<Longrightarrow> p \<in> set ps \<Longrightarrow> \<not> lostAt g p"
  by (induction g st keys highWater pinned k ps rule: gateLoop.induct)
    (auto simp: lostAt_def gate_def Let_def split: if_splits)

lemma resultsOf_accepted:
  assumes "\<forall>p \<in> set ps. accepted (srReason (pResult p))"
  shows "resultsOf ps = map pResult ps"
  using assms by (simp add: resultsOf_def)

text \<open>A batch past the gates commits: every result is an acceptance with the id it was given.\<close>

lemma commit_passed:
  assumes gates: "gateLoop g (state g) keys Map.empty Map.empty 0 ps = None"
    and inv: "group_inv H g" and vb: "valid_batch ps" and ca: "commit_alone ps"
    and small: "length (group_log g) + length (filter (\<lambda>p. \<not> pSettled p) ps) < 2 ^ 64"
    and settled: "\<forall>p \<in> set ps. pSettled p \<longrightarrow> accepted (srReason (pResult p))"
  shows "\<exists>g' results. commit H limits now g (state g) keys ps = Some (g', results) \<and>
     group_inv H g' \<and> extends g g' \<and>
     group_log g' = group_log g @ newRecords (of_nat (Suc (length (group_log g)))) ps \<and>
     map srRecordId results = assignedIds (of_nat (Suc (length (group_log g)))) ps \<and>
     list_all (accepted \<circ> srReason) results"
proof -
  let ?i = "of_nat (Suc (length (group_log g))) :: u64"
  let ?k = "length (filter (\<lambda>p. \<not> pSettled p) ps)"
  let ?g0 = "g\<lparr>mgNextRecordId := mgNextRecordId g + of_nat ?k\<rparr>"
  have inv0: "rows_inv H ?g0" using inv by (simp add: group_inv_def)
  have first: "mgNextRecordId g = ?i" using inv by (simp add: group_inv_def)
  obtain g' ps' where c: "commitLoop H limits now (state g) keys ?i ?g0 ps = Some (g', ps')"
    and w: "written H ?i ?g0 ps g' ps'"
    using commitLoop_passed [OF gates tracks_start inv0 vb ca, of ?i limits now] small by auto
  let ?ps = "map (\<lambda>p. if srCurrentEpoch (pResult p) = 0
                      then setCurrentEpoch (mgCurrentEpoch g') p else p) ps'"
  have acc: "\<forall>p \<in> set ps'. accepted (srReason (pResult p))"
  proof
    fix p' assume "p' \<in> set ps'"
    with w obtain p where "p \<in> set ps" "settled_or_accepted p p'"
      unfolding written_def by (metis in_set_conv_nth list_all2_conv_all_nth)
    with settled show "accepted (srReason (pResult p'))"
      by (auto simp: settled_or_accepted_def split: if_splits)
  qed
  then have res: "resultsOf ?ps = map pResult ?ps"
    by (intro resultsOf_accepted) (auto simp: setCurrentEpoch_def)
  have "map srRecordId (resultsOf ?ps) = map (srRecordId \<circ> pResult) ps'"
    unfolding res by (auto simp: setCurrentEpoch_def)
  with w have ids: "map srRecordId (resultsOf ?ps) = assignedIds ?i ps" by (simp add: written_def)
  have ok: "list_all (accepted \<circ> srReason) (resultsOf ?ps)"
    unfolding res using acc by (auto simp: list_all_iff setCurrentEpoch_def)
  have "first_index (lostAt g) 0 ps = None"
    using gateLoop_not_lost [OF gates] by (simp add: first_index_None)
  then have "commit H limits now g (state g) keys ps = Some (g', resultsOf ?ps)"
    using c first by (simp add: commit_def Let_def)
  moreover have "extends g ?g0" by (simp add: extends_def key_kept_def)
  then have "extends g g'" using w by (auto simp: written_def intro: extends_trans)
  moreover have "group_inv H g'" using w first by (simp add: group_inv_def written_def)
  moreover have "group_log g' = group_log g @ newRecords ?i ps" using w by (simp add: written_def)
  ultimately show ?thesis using ids ok by blast
qed

text \<open>
  A batch between its probe and its end, against the group its probe found: every record is of the
  right shape, a commit is alone, an identical record carries the id of the claim it repeats, and
  the rest carry nothing.
\<close>

definition probed :: "hash \<Rightarrow> memoryGroup option \<Rightarrow> pending \<Rightarrow> bool" where
  "probed H grp p \<longleftrightarrow> \<not> pSettled p \<and>
     (if pProbe p = probeIdentical
      then \<exists>g c. grp = Some g \<and> mgClaims g (claimKeyOf (pRecord p)) = Some c \<and>
             clBodyHash c = rBodyHash (pRecord p) \<and> clHeadHash c = headHash H (rCtHead (pRecord p)) \<and>
             pResult p = zeroResult\<lparr>srRecordId := clRecordId c\<rparr>
      else pResult p = zeroResult)"

definition batch_ok :: "hash \<Rightarrow> memoryGroup option \<Rightarrow> pending list \<Rightarrow> bool" where
  "batch_ok H grp ps \<longleftrightarrow> ps \<noteq> [] \<and> valid_batch ps \<and> commit_alone ps \<and> (\<forall>p \<in> set ps. probed H grp p)"

lemma probed_extends:
  assumes "probed H (Some g) p" and "extends g g'"
  shows "probed H (Some g') p"
proof -
  have "mgClaims g' k = Some c" if "mgClaims g k = Some c" for k c
    using assms(2) that unfolding extends_def by (blast intro: map_leD)
  with assms(1) show ?thesis by (simp add: probed_def split: if_splits) blast
qed

text \<open>The batch the lock is taken with.\<close>

definition locked :: "memoryGroup \<Rightarrow> pending list \<Rightarrow> pending list" where
  "locked g ps = map (setCurrentEpoch (gsCurrentEpoch (state g))) (map settle ps)"

lemma locked_simps [simp]:
  "map pRecord (locked g ps) = map pRecord ps"
  "valid_batch (locked g ps) = valid_batch ps" "commit_alone (locked g ps) = commit_alone ps"
  by (auto simp: locked_def settle_def setCurrentEpoch_def valid_batch_def commit_alone_def)

lemma locked_settled:
  assumes "\<forall>p \<in> set ps. probed H grp p" and "p \<in> set (locked g ps)" and "pSettled p"
  shows "accepted (srReason (pResult p))"
  using assms by (auto simp: locked_def settle_def setCurrentEpoch_def probed_def accepted_def
      zeroResult_def split: if_splits)

text \<open>
  The two ways a submission ends. Either it leaves the group as it was, or the group was there
  and open, nothing in the batch contradicted a claim, and every record the probe did not answer
  passed its gate.
\<close>

definition passes ::
  "memoryGroup option \<Rightarrow> EpochKeyDelivery option \<Rightarrow> pending list \<Rightarrow> memoryGroup \<Rightarrow> bool" where
  "passes grp keys ps g \<longleftrightarrow>
     grp = Some g \<and> \<not> mgClosed g \<and> (\<forall>p \<in> set ps. pProbe p \<noteq> probeDiffers) \<and>
     (\<exists>p \<in> set ps. pProbe p \<noteq> probeIdentical) \<and>
     gateLoop g (state g) keys Map.empty Map.empty 0 (locked g ps) = None"

lemma submitGroup_refused:
  assumes "\<forall>p \<in> set ps. \<not> pSettled p" and "\<nexists>g. passes grp keys ps g"
  shows "\<exists>results. submitGroup H limits now grp keys ps = Some (grp, results)"
proof (cases "\<exists>p \<in> set ps. pProbe p = probeDiffers")
  case True
  then obtain i where "first_index (\<lambda>p. pProbe p = probeDiffers) 0 ps = Some i"
    by (cases "first_index (\<lambda>p. pProbe p = probeDiffers) 0 ps") (auto simp: first_index_None)
  then show ?thesis by (simp add: submitGroup_def)
next
  case False
  then have f: "first_index (\<lambda>p. pProbe p = probeDiffers) 0 ps = None"
    by (simp add: first_index_None)
  show ?thesis
  proof (cases "list_all pSettled (map settle ps)")
    case True
    with f show ?thesis by (simp add: submitGroup_def)
  next
    case open': False
    then have ex: "\<exists>p \<in> set ps. pProbe p \<noteq> probeIdentical"
      by (auto simp: list_all_iff settle_def split: if_splits)
    show ?thesis
    proof (cases grp)
      case None
      with f open' show ?thesis by (simp add: submitGroup_def)
    next
      case (Some g)
      show ?thesis
      proof (cases "mgClosed g")
        case True
        with Some f open' show ?thesis by (simp add: submitGroup_def)
      next
        case nc: False
        with assms(2) Some False ex obtain i refusal where
          "gateLoop g (state g) keys Map.empty Map.empty 0 (locked g ps) = Some (i, refusal)"
          by (fastforce simp: passes_def)
        with Some f open' nc show ?thesis by (simp add: submitGroup_def Let_def locked_def)
      qed
    qed
  qed
qed

lemma submitGroup_passed:
  assumes "passes grp keys ps g" and "\<forall>p \<in> set ps. \<not> pSettled p"
  shows "submitGroup H limits now grp keys ps =
    map_option (\<lambda>(g', results). (Some g', results)) (commit H limits now g (state g) keys (locked g ps))"
proof -
  from assms have "\<not> list_all pSettled (map settle ps)"
    by (auto simp: passes_def list_all_iff settle_def)
  moreover from assms have "first_index (\<lambda>p. pProbe p = probeDiffers) 0 ps = None"
    by (simp add: passes_def first_index_None)
  ultimately show ?thesis using assms(1)
    by (cases "commit H limits now g (state g) keys (locked g ps)")
      (auto simp: passes_def submitGroup_def Let_def locked_def)
qed

text \<open>The log is longer by exactly the records the probe did not answer, whatever the group held.\<close>

lemma commitLoop_length:
  "commitLoop H limits now st keys i g ps = Some (g', ps') \<Longrightarrow>
     length (group_log g') = length (group_log g) + length (filter (\<lambda>p. \<not> pSettled p) ps)"
proof (induction H limits now st keys i g ps arbitrary: g' ps' rule: commitLoop.induct)
  case (2 H limits now st keys i g p ps)
  show ?case
  proof (cases "pSettled p")
    case True
    with "2.prems" "2.IH"(1) [OF True] show ?thesis by (auto simp: bind_eq_Some_conv)
  next
    case False
    with "2.prems" obtain g1 p1 ps1 where
      c: "commitOne H limits now st keys i g p = Some (g1, p1)" and
      "commitLoop H limits now st keys (i + 1) g1 ps = Some (g', ps1)"
      by (auto simp: bind_eq_Some_conv)
    with "2.IH"(2) [OF False, of "(g1, p1)" g1 p1] commitOne_fields(1) [OF c] False
    show ?thesis by auto
  qed
qed simp

lemma commit_length:
  assumes "commit H limits now g st keys ps = Some (g', results)"
  shows "length (group_log g) \<le> length (group_log g')" and
    "first_index (lostAt g) 0 ps = None \<Longrightarrow>
       length (group_log g') = length (group_log g) + length (filter (\<lambda>p. \<not> pSettled p) ps)"
  using assms
  by (auto simp: commit_def Let_def bind_eq_Some_conv dest!: commitLoop_length split: option.splits)

text \<open>The end of a submission, in one statement.\<close>

definition stores ::
  "hash \<Rightarrow> EpochKeyDelivery option \<Rightarrow> pending list \<Rightarrow> memoryGroup \<Rightarrow> memoryGroup \<Rightarrow> SubmitResult list \<Rightarrow> bool" where
  "stores H keys ps g g' results \<longleftrightarrow>
     passes (Some g) keys ps g \<and> group_inv H g' \<and> extends g g' \<and>
     group_log g' = group_log g @ newRecords (of_nat (Suc (length (group_log g)))) (locked g ps) \<and>
     map srRecordId results = assignedIds (of_nat (Suc (length (group_log g)))) (locked g ps) \<and>
     list_all (accepted \<circ> srReason) results"

lemma submitGroup_passes:
  assumes "batch_ok H (Some g) ps" and "group_inv H g" and "passes (Some g) keys ps g"
    and "length (group_log g) + length (filter (\<lambda>p. \<not> pSettled p) (locked g ps)) < 2 ^ 64"
  shows "\<exists>g' results. submitGroup H limits now (Some g) keys ps = Some (Some g', results) \<and>
     stores H keys ps g g' results"
proof -
  have unsettled: "\<forall>p \<in> set ps. \<not> pSettled p"
    using assms(1) by (simp add: batch_ok_def probed_def)
  from assms(1,3) have vb: "valid_batch (locked g ps)" and ca: "commit_alone (locked g ps)"
    and gates: "gateLoop g (state g) keys Map.empty Map.empty 0 (locked g ps) = None"
    by (simp_all add: batch_ok_def passes_def)
  have "\<forall>p \<in> set (locked g ps). pSettled p \<longrightarrow> accepted (srReason (pResult p))"
    using locked_settled assms(1) by (metis batch_ok_def)
  from commit_passed [OF gates assms(2) vb ca assms(4) this] submitGroup_passed [OF assms(3) unsettled]
  show ?thesis using assms(3) unfolding stores_def by fastforce
qed

lemma submitGroup_total:
  assumes "batch_ok H grp ps"
    and "\<And>g. grp = Some g \<Longrightarrow> group_inv H g \<and> length (group_log g) + length ps < 2 ^ 64"
  shows "\<exists>grp' results. submitGroup H limits now grp keys ps = Some (grp', results)"
proof (cases "\<exists>g. passes grp keys ps g")
  case True
  then obtain g where p: "passes grp keys ps g" and g: "grp = Some g" by (auto simp: passes_def)
  have "length (filter (\<lambda>p. \<not> pSettled p) (locked g ps)) \<le> length ps"
    by (metis length_filter_le length_map locked_def)
  with assms p g submitGroup_passes [of H g ps keys limits now] show ?thesis by fastforce
next
  case False
  then show ?thesis
    using submitGroup_refused [of ps grp keys H limits now] assms(1)
    by (auto simp: batch_ok_def probed_def)
qed

text \<open>Whichever way it ends, it is one of the two, provided the id space is not outgrown.\<close>

lemma submitGroup_cases:
  assumes "submitGroup H limits now grp keys ps = Some (grp', results)" and "batch_ok H grp ps"
    and "\<And>g. grp = Some g \<Longrightarrow> group_inv H g"
    and "\<And>g'. grp' = Some g' \<Longrightarrow> length (group_log g') < 2 ^ 64"
  shows "grp' = grp \<and> (\<nexists>g. passes grp keys ps g) \<or>
     (\<exists>g g'. grp = Some g \<and> grp' = Some g' \<and> stores H keys ps g g' results)"
proof (cases "\<exists>g. passes grp keys ps g")
  case True
  then obtain g where p: "passes grp keys ps g" and g: "grp = Some g" by (auto simp: passes_def)
  have u: "\<forall>p \<in> set ps. \<not> pSettled p" using assms(2) by (simp add: batch_ok_def probed_def)
  from submitGroup_passed [OF p u] assms(1) obtain g' where g': "grp' = Some g'"
    "commit H limits now g (state g) keys (locked g ps) = Some (g', results)" by auto
  have "first_index (lostAt g) 0 (locked g ps) = None"
    using p gateLoop_not_lost by (fastforce simp: passes_def first_index_None)
  with commit_length(2) [OF g'(2)] assms(4) [OF g'(1)]
  have "length (group_log g) + length (filter (\<lambda>p. \<not> pSettled p) (locked g ps)) < 2 ^ 64" by simp
  with submitGroup_passes [of H g ps keys limits now] assms p g show ?thesis by auto
next
  case False
  then show ?thesis
    using submitGroup_refused [of ps grp keys H limits now] assms(1,2)
    by (auto simp: batch_ok_def probed_def)
qed

lemma submitGroup_grows:
  assumes "submitGroup H limits now grp keys ps = Some (grp', results)"
  shows "case grp of None \<Rightarrow> grp' = None
     | Some g \<Rightarrow> \<exists>g'. grp' = Some g' \<and> length (group_log g) \<le> length (group_log g')"
  using assms
  by (auto simp: submitGroup_def Let_def bind_eq_Some_conv dest!: commit_length(1)
      split: option.splits if_splits prod.splits)

end
