(* ===== verification/Store_System.thy ===== *)
theory Store_System
  imports Store_Submit
begin

text \<open>
  The store as its callers see it: creations, closes and submissions in any order, with any number
  of submissions between their probe and their lock. The invariant of every group holds in every
  reachable state whose groups have not run out of 64-bit ids.
\<close>

section \<open>Steps\<close>

type_synonym store_sys = "MemoryStore \<times> inflight list"

inductive store_step :: "hash \<Rightarrow> store_sys \<Rightarrow> store_sys \<Rightarrow> bool" for H where
  create: "CreateGroup H ctx now s q = Some (s', r) \<Longrightarrow> store_step H (s, fs) (s', fs)"
| close: "CloseGroup ctx now s gid = (s', e) \<Longrightarrow> store_step H (s, fs) (s', fs)"
| begin_submit: "submitBegin H ctx s q = Inr f \<Longrightarrow> store_step H (s, fs) (s, f # fs)"
| end_submit: "f \<in> set fs \<Longrightarrow> submitEnd H now s f = Some (s', results) \<Longrightarrow>
    store_step H (s, fs) (s', remove1 f fs)"

inductive_cases store_stepE: "store_step H x y"

definition store_start :: "store_sys \<Rightarrow> bool" where
  "store_start x \<longleftrightarrow> (\<exists>limits. x = (NewMemoryStore limits, []))"

definition small :: "MemoryStore \<Rightarrow> bool" where
  "small s \<longleftrightarrow> (\<forall>gid g. msGroups s gid = Some g \<longrightarrow> length (group_log g) < 2 ^ 64)"

lemma smallD: "small s \<Longrightarrow> msGroups s gid = Some g \<Longrightarrow> length (group_log g) < 2 ^ 64"
  unfolding small_def by blast

definition groups_inv :: "hash \<Rightarrow> MemoryStore \<Rightarrow> bool" where
  "groups_inv H s \<longleftrightarrow> (\<forall>gid g. msGroups s gid = Some g \<longrightarrow>
     group_inv H g \<and> mgGroupId g = gid \<and> length gid = GroupIdBytes)"

definition flightGroup :: "MemoryStore \<Rightarrow> inflight \<Rightarrow> memoryGroup option" where
  "flightGroup s f = (if ifFound f then msGroups s (ifGroupId f) else None)"

definition flight_ok :: "hash \<Rightarrow> MemoryStore \<Rightarrow> inflight \<Rightarrow> bool" where
  "flight_ok H s f \<longleftrightarrow> length (ifGroupId f) = GroupIdBytes \<and>
     (ifFound f \<longrightarrow> msGroups s (ifGroupId f) \<noteq> None) \<and> batch_ok H (flightGroup s f) (ifBatch f)"

definition sys_inv :: "hash \<Rightarrow> store_sys \<Rightarrow> bool" where
  "sys_inv H x \<longleftrightarrow> (small (fst x) \<longrightarrow>
     groups_inv H (fst x) \<and> (\<forall>f \<in> set (snd x). flight_ok H (fst x) f))"

text \<open>What one state of the store keeps of an earlier one.\<close>

definition store_extends :: "MemoryStore \<Rightarrow> MemoryStore \<Rightarrow> bool" where
  "store_extends s s' \<longleftrightarrow>
     (\<forall>gid g. msGroups s gid = Some g \<longrightarrow> (\<exists>g'. msGroups s' gid = Some g' \<and> extends g g'))"

lemma store_extends_refl [simp]: "store_extends s s"
  by (simp add: store_extends_def)

lemma store_extends_trans: "store_extends a b \<Longrightarrow> store_extends b c \<Longrightarrow> store_extends a c"
  unfolding store_extends_def by (meson extends_trans)

lemma flight_ok_extends:
  assumes "flight_ok H s f" and "store_extends s s'"
  shows "flight_ok H s' f"
proof (cases "ifFound f")
  case True
  with assms(1) obtain g where g: "msGroups s (ifGroupId f) = Some g" by (auto simp: flight_ok_def)
  with assms(2) obtain g' where "msGroups s' (ifGroupId f) = Some g'" "extends g g'"
    by (auto simp: store_extends_def)
  with assms(1) True g show ?thesis
    by (auto simp: flight_ok_def flightGroup_def batch_ok_def intro: probed_extends)
next
  case False
  with assms(1) show ?thesis by (simp add: flight_ok_def flightGroup_def)
qed

section \<open>Creating\<close>

lemma createGuards_Inr:
  "createGuards ctx q = Inr r \<longleftrightarrow> ctx = None \<and> length (cqGroupId q) = GroupIdBytes \<and>
     length (cqBootstrapWriteKey q) = EpochKeyBytes \<and> cqInitialCommit q = Some r \<and>
     validateRecord r = None"
  by (auto simp: createGuards_def ctxErr_def split: option.splits)

text \<open>The founding group with its policy and its prune time left open.\<close>

definition founded ::
  "hash \<Rightarrow> time \<Rightarrow> CreateGroupRequest \<Rightarrow> Record \<Rightarrow> epochOpening \<Rightarrow> u32 \<Rightarrow> u32 option \<Rightarrow> time option \<Rightarrow>
   memoryGroup" where
  "founded H now q r opn media durable prune =
     \<lparr> mgGroupId = cqGroupId q, mgCreateTime = now, mgCurrentEpoch = 1,
      mgNextRecordId = 2, mgMediaTtlSeconds = media, mgDurableTtlSeconds = durable,
      mgPolicyVersion = 1, mgEpochComplete = False, mgGroupContextHash = eoGroupContextHash opn,
      mgClosed = False, mgCloseTime = 0,
      mgRecords = [\<lparr> rrRecord = stored 1 r, rrPruneAfter = prune, rrPruned = False,
                      rrCreateTime = now, rrPolicy = 1 \<rparr>],
      mgClaims = [claimKeyOf r \<mapsto> claimOf H now (stored 1 r)],
      mgCommits = [0 \<mapsto> \<lparr> cmEpoch = 0, cmRecordId = 1, cmRecord = stored 1 r \<rparr>],
      mgSenders = [rSenderHandle r \<mapsto> \<lparr> snLastStreamIndex = rStreamIndex r, snRecordCount = 1,
                     snByteCount = recordBytes r, snLastTime = now \<rparr>],
      mgEpochs = [0 \<mapsto> bootstrapEpoch now (cqBootstrapWriteKey q), 1 \<mapsto> openedEpoch now 1 opn 1],
      mgRecovery = Map.empty \<rparr>"

lemma foundGroup_eq:
  assumes "foundGroup H now limits q r opn = Some (g, result)"
    and "openingOf r (cqEpochKeys q) = Some opn" and "rEpoch r = 0"
  obtains media durable applied prune where
    "applyLimits limits opn = (media, durable, applied)"
    and "g = founded H now q r opn media durable prune"
    and "result = \<lparr> crReason = acceptanceReason (Some applied), crCurrentEpoch = 1,
      crRecordId = 1, crApplied = Some applied \<rparr>"
proof -
  obtain media durable applied where a: "applyLimits limits opn = (media, durable, applied)"
    by (metis prod_cases3)
  have "recoveryTagOf r = None" using openingOf_kind [OF assms(2)] by (rule epoch_kind_no_tags)
  with assms(1,3) a that [of media durable applied] show ?thesis
    by (auto simp: foundGroup_def founded_def firstRecordId_def Let_def bind_eq_Some_conv
        stored_def [symmetric])
qed

lemma word_one_le: "(1::u64) \<le> e \<longleftrightarrow> e \<noteq> 0" "(1::u64) < e \<longleftrightarrow> e \<noteq> 0 \<and> e \<noteq> 1"
proof -
  show *: "(1::u64) \<le> e \<longleftrightarrow> e \<noteq> 0" by (simp add: word_le_nat_alt Suc_le_eq unat_gt_0)
  show "(1::u64) < e \<longleftrightarrow> e \<noteq> 0 \<and> e \<noteq> 1" unfolding less_le * by auto
qed

lemma foundGroup_inv:
  assumes "foundGroup H now limits q r opn = Some (g, result)"
    and o: "openingOf r (cqEpochKeys q) = Some opn"
    and w: "wellFormedEpochAttachment r 1 (cqEpochKeys q)"
    and "validateRecord r = None" and "rIsCommit r" and "rEpoch r = 0"
    and "length (cqBootstrapWriteKey q) = EpochKeyBytes"
  shows "group_inv H g" and "mgGroupId g = cqGroupId q" and "\<not> mgClosed g"
    and "group_log g = [stored 1 r]" and "crRecordId result = 1" and "crCurrentEpoch result = 1"
    and "accepted (crReason result)" and "mgCurrentEpoch g = 1"
proof -
  note k = openingOf_kind [OF o]
  have keys: "length (eoWriteKey opn) = EpochKeyBytes" "length (eoReadKey opn) = EpochKeyBytes"
    "eoExpectedWrapCount opn \<noteq> 0"
    using w o by (auto simp: wellFormedEpochAttachment_def)
  obtain media durable applied prune where g: "g = founded H now q r opn media durable prune"
    and "result = \<lparr> crReason = acceptanceReason (Some applied), crCurrentEpoch = 1,
      crRecordId = 1, crApplied = Some applied \<rparr>"
    using foundGroup_eq [OF assms(1) o assms(6)] by metis
  note g = g [unfolded founded_def]
  from this \<open>result = _\<close> show "mgGroupId g = cqGroupId q" and "\<not> mgClosed g" and l: "group_log g = [stored 1 r]"
    and "crRecordId result = 1" and "crCurrentEpoch result = 1" and "accepted (crReason result)"
    and "mgCurrentEpoch g = 1"
    by (simp_all add: group_log_def)
  have "inv_ids g" "inv_streams g" "inv_epochs g" "inv_recovery g" "inv_fanout g" "inv_shapes g"
    using assms(4-6) k epoch_kind_no_tags(1) [OF k]
    by (simp_all add: inv_ids_def inv_streams_def inv_epochs_def inv_recovery_def inv_fanout_def
        inv_shapes_def l) (simp_all add: g)
  moreover have "inv_claims H g"
    by (auto simp: inv_claims_def l) (auto simp: g claimOf_def split: if_splits)
  moreover have "inv_senders g"
    by (auto simp: inv_senders_def l by_sender_def sender_ok_def) (auto simp: g)
  moreover have "commit_ok (mgCurrentEpoch g) (group_log g) e (mgCommits g e)" for e
    using assms(5,6) unfolding l by (cases "e = 0") (simp_all add: g commit_ok_def word_one_le)
  then have "inv_commits g" by (simp add: inv_commits_def)
  moreover have "epoch_ok (mgCurrentEpoch g) (mgCommits g) e (mgEpochs g e)" for e
  proof (cases "e = 0 \<or> e = 1")
    case True
    with keys assms(7) show ?thesis
      by (elim disjE) (simp_all add: g epoch_ok_def bootstrapEpoch_def openedEpoch_def slen_def)
  next
    case False
    then show ?thesis by (simp add: g epoch_ok_def word_one_le)
  qed
  then have "inv_keys g" by (simp add: inv_keys_def)
  ultimately show "group_inv H g"
    by (simp add: group_inv_def rows_inv_def l) (simp add: g)
qed

text \<open>The three answers of a creation that is not an error: refused, taken, founded.\<close>

lemma CreateGroup_cases:
  assumes "CreateGroup H ctx now s q = Some (s', answer)"
  obtains (error) e where "s' = s" "answer = Inl e"
  | (refused) "s' = s" "answer = Inr createRejected"
  | (found) r opn g result where "createGuards ctx q = Inr r" "rIsCommit r" "rEpoch r = 0"
      "wellFormedEpochAttachment r 1 (cqEpochKeys q)" "openingOf r (cqEpochKeys q) = Some opn"
      "msGroups s (cqGroupId q) = None" "foundGroup H now (msLimits s) q r opn = Some (g, result)"
      "s' = s\<lparr>msGroups := (msGroups s)(cqGroupId q \<mapsto> g)\<rparr>" "answer = Inr result"
proof (cases "createGuards ctx q")
  case (Inl e)
  with assms error show ?thesis by (auto simp: CreateGroup_def)
next
  case (Inr r)
  show ?thesis
  proof (cases "\<not> rIsCommit r \<or> rEpoch r \<noteq> 0 \<or> \<not> wellFormedEpochAttachment r 1 (cqEpochKeys q)
      \<or> msGroups s (cqGroupId q) \<noteq> None")
    case True
    with assms Inr refused show ?thesis
      by (auto simp: CreateGroup_def bind_eq_Some_conv split: if_splits)
  next
    case False
    with assms Inr obtain opn g result where "openingOf r (cqEpochKeys q) = Some opn"
      "foundGroup H now (msLimits s) q r opn = Some (g, result)"
      "s' = s\<lparr>msGroups := (msGroups s)(cqGroupId q \<mapsto> g)\<rparr>" "answer = Inr result"
      by (auto simp: CreateGroup_def bind_eq_Some_conv split: if_splits)
    with found Inr False show ?thesis by blast
  qed
qed

lemma create_step:
  assumes "CreateGroup H ctx now s q = Some (s', answer)"
  shows "store_extends s s'" and "groups_inv H s \<Longrightarrow> groups_inv H s'"
  using assms
proof -
  from assms have "store_extends s s' \<and> (groups_inv H s \<longrightarrow> groups_inv H s')"
  proof (cases rule: CreateGroup_cases)
    case (found r opn g result)
    then have v: "validateRecord r = None" "length (cqBootstrapWriteKey q) = EpochKeyBytes"
      "length (cqGroupId q) = GroupIdBytes" by (auto simp: createGuards_Inr)
    note i = foundGroup_inv [OF found(7,5,4) v(1) found(2,3) v(2)]
    have "store_extends s s'" using found(6,8) by (auto simp: store_extends_def)
    moreover have "groups_inv H s \<longrightarrow> groups_inv H s'"
      using found(8) i(1,2) v(3) by (auto simp: groups_inv_def)
    ultimately show ?thesis ..
  qed auto
  then show "store_extends s s'" and "groups_inv H s \<Longrightarrow> groups_inv H s'" by auto
qed

section \<open>Closing\<close>

lemma group_inv_close:
  assumes "group_inv H g"
  shows "group_inv H (g\<lparr>mgClosed := True, mgCloseTime := now\<rparr>)"
  using assms by (simp add: group_inv_def)

lemma extends_close: "extends g (g\<lparr>mgClosed := True, mgCloseTime := now\<rparr>)"
  by (simp add: extends_def key_kept_def)

lemma CloseGroup_cases:
  assumes "CloseGroup ctx now s gid = (s', e)"
  shows "s' = s \<and> e \<noteq> None \<or> e = None \<and> (\<exists>g. msGroups s gid = Some g \<and> \<not> mgClosed g \<and>
    s' = s\<lparr>msGroups := (msGroups s)(gid \<mapsto> g\<lparr>mgClosed := True, mgCloseTime := now\<rparr>)\<rparr>)"
proof (cases "or_else (ctxErr ctx) (checkLength gid GroupIdBytes)")
  case None
  with assms show ?thesis
    by (cases "msGroups s gid") (auto simp: CloseGroup_def split: if_splits)
next
  case (Some err)
  with assms show ?thesis by (simp add: CloseGroup_def) blast
qed

lemma close_step:
  assumes "CloseGroup ctx now s gid = (s', e)"
  shows "store_extends s s'" and "groups_inv H s \<Longrightarrow> groups_inv H s'"
proof -
  have "store_extends s s' \<and> (groups_inv H s \<longrightarrow> groups_inv H s')"
  proof (cases "s' = s")
    case False
    with CloseGroup_cases [OF assms] obtain g where "msGroups s gid = Some g"
      "s' = s\<lparr>msGroups := (msGroups s)(gid \<mapsto> g\<lparr>mgClosed := True, mgCloseTime := now\<rparr>)\<rparr>" by blast
    then show ?thesis
      by (simp add: store_extends_def groups_inv_def extends_close group_inv_close)
  qed simp
  then show "store_extends s s'" and "groups_inv H s \<Longrightarrow> groups_inv H s'" by auto
qed

section \<open>Submitting\<close>

lemma validateRecords_None: "validateRecords rs = None \<longleftrightarrow> (\<forall>r \<in> set rs. validateRecord r = None)"
  by (induction rs) auto

lemma probe_records [simp]: "map pRecord (probe H grp ps) = map pRecord ps"
  by (auto simp: probe_def probeOne_def split: option.splits)

lemma probed_newPending: "probed H (Some g) (probeOne H g (newPending r))" "probed H None (newPending r)"
  by (auto simp: probed_def probeOne_def newPending_def zeroResult_def split: option.splits)

lemma submitBegin_Inr:
  "submitBegin H ctx s q = Inr f \<longleftrightarrow>
     ctx = None \<and> length (sqGroupId q) = GroupIdBytes \<and> sqRecords q \<noteq> [] \<and>
     (\<forall>r \<in> set (sqRecords q). validateRecord r = None) \<and>
     ((\<forall>r \<in> set (sqRecords q). \<not> rIsCommit r) \<or> length (sqRecords q) = 1) \<and>
     f = \<lparr> ifGroupId = sqGroupId q, ifFound = (msGroups s (sqGroupId q) \<noteq> None),
           ifEpochKeys = sqEpochKeys q,
           ifBatch = probe H (msGroups s (sqGroupId q)) (map newPending (sqRecords q)) \<rparr>"
  by (auto simp: submitBegin_def ctxErr_def validateRecords_None filter_empty_conv Let_def)

lemma submitBegin_ok:
  assumes "submitBegin H ctx s q = Inr f"
  shows "flight_ok H s f" and "map pRecord (ifBatch f) = sqRecords q" and "ifGroupId f = sqGroupId q"
    and "ifEpochKeys f = sqEpochKeys q" and "flightGroup s f = msGroups s (sqGroupId q)"
proof -
  note f = assms [unfolded submitBegin_Inr]
  from f show r: "map pRecord (ifBatch f) = sqRecords q" by (simp add: newPending_def comp_def)
  from f show "ifGroupId f = sqGroupId q" "ifEpochKeys f = sqEpochKeys q"
    "flightGroup s f = msGroups s (sqGroupId q)" by (simp_all add: flightGroup_def)
  have "valid_batch (ifBatch f)"
    using f r by (metis (no_types, lifting) image_eqI list.set_map valid_batch_def)
  moreover have "commit_alone (ifBatch f)"
    using f r by (metis (no_types, lifting) commit_alone_def image_eqI length_map list.set_map)
  moreover have "\<forall>p \<in> set (ifBatch f). probed H (flightGroup s f) p"
    using f by (auto simp: flightGroup_def probe_def probed_newPending split: option.splits)
  moreover have "ifBatch f \<noteq> []" using f r by (metis map_is_Nil_conv)
  ultimately show "flight_ok H s f" using f by (auto simp: flight_ok_def batch_ok_def)
qed

text \<open>The end of a submission, at the store.\<close>

lemma submitEnd_cases:
  assumes "submitEnd H now s f = Some (s', results)" and "flight_ok H s f"
    and "groups_inv H s" and "small s'"
  shows "s' = s \<and> (\<nexists>g. passes (flightGroup s f) (ifEpochKeys f) (ifBatch f) g) \<or>
    (\<exists>g g'. flightGroup s f = Some g \<and> msGroups s (ifGroupId f) = Some g \<and>
       s' = s\<lparr>msGroups := (msGroups s)(ifGroupId f \<mapsto> g')\<rparr> \<and>
       stores H (ifEpochKeys f) (ifBatch f) g g' results)"
proof -
  from assms(1) obtain grp where e: "submitGroup H (msLimits s) now (flightGroup s f) (ifEpochKeys f)
      (ifBatch f) = Some (grp, results)"
    "s' = (case grp of None \<Rightarrow> s | Some g \<Rightarrow> s\<lparr>msGroups := (msGroups s)(ifGroupId f \<mapsto> g)\<rparr>)"
    by (auto simp: submitEnd_def flightGroup_def bind_eq_Some_conv)
  have same: "s' = s" if "grp = flightGroup s f"
  proof (cases grp)
    case (Some g)
    with that have "msGroups s (ifGroupId f) = Some g" by (auto simp: flightGroup_def split: if_splits)
    with Some e(2) show ?thesis by (simp add: fun_upd_idem)
  qed (use e(2) in simp)
  have "grp = flightGroup s f \<and> (\<nexists>g. passes (flightGroup s f) (ifEpochKeys f) (ifBatch f) g) \<or>
     (\<exists>g g'. flightGroup s f = Some g \<and> grp = Some g' \<and>
        stores H (ifEpochKeys f) (ifBatch f) g g' results)"
  proof (rule submitGroup_cases [OF e(1)])
    show "batch_ok H (flightGroup s f) (ifBatch f)" using assms(2) by (simp add: flight_ok_def)
    show "group_inv H g" if "flightGroup s f = Some g" for g
      using that assms(3) by (auto simp: groups_inv_def flightGroup_def split: if_splits)
    show "length (group_log g') < 2 ^ 64" if "grp = Some g'" for g'
      using that e(2) smallD [OF assms(4), of "ifGroupId f" g'] by simp
  qed
  then show ?thesis
  proof
    assume "grp = flightGroup s f \<and> (\<nexists>g. passes (flightGroup s f) (ifEpochKeys f) (ifBatch f) g)"
    with same show ?thesis by blast
  next
    assume "\<exists>g g'. flightGroup s f = Some g \<and> grp = Some g' \<and>
      stores H (ifEpochKeys f) (ifBatch f) g g' results"
    then obtain g g' where g: "flightGroup s f = Some g" "grp = Some g'"
      "stores H (ifEpochKeys f) (ifBatch f) g g' results" by blast
    moreover from g(1) have "msGroups s (ifGroupId f) = Some g"
      by (auto simp: flightGroup_def split: if_splits)
    ultimately show ?thesis using e(2) by auto
  qed
qed

lemma end_step:
  assumes "submitEnd H now s f = Some (s', results)" and "flight_ok H s f"
    and "groups_inv H s" and "small s'"
  shows "store_extends s s'" and "groups_inv H s'"
proof -
  have "store_extends s s' \<and> groups_inv H s'"
  proof (cases "s' = s")
    case False
    with submitEnd_cases [OF assms] obtain g g' where "msGroups s (ifGroupId f) = Some g"
      and s': "s' = s\<lparr>msGroups := (msGroups s)(ifGroupId f \<mapsto> g')\<rparr>"
      and st: "stores H (ifEpochKeys f) (ifBatch f) g g' results" by blast
    moreover from st have "group_inv H g'" "extends g g'" by (simp_all add: stores_def)
    moreover from this(2) have "mgGroupId g' = mgGroupId g" by (simp add: extends_def)
    ultimately show ?thesis using assms(3) by (auto simp: store_extends_def groups_inv_def)
  qed (use assms(3) in simp)
  then show "store_extends s s'" and "groups_inv H s'" by auto
qed

lemma submitEnd_grows:
  assumes "submitEnd H now s f = Some (s', results)" and "small s'"
  shows "small s"
proof -
  from assms(1) obtain grp where e: "submitGroup H (msLimits s) now (flightGroup s f) (ifEpochKeys f)
      (ifBatch f) = Some (grp, results)"
    "s' = (case grp of None \<Rightarrow> s | Some g \<Rightarrow> s\<lparr>msGroups := (msGroups s)(ifGroupId f \<mapsto> g)\<rparr>)"
    by (auto simp: submitEnd_def flightGroup_def bind_eq_Some_conv)
  show ?thesis
  proof (cases "flightGroup s f")
    case None
    with e submitGroup_grows [OF e(1)] assms(2) show ?thesis by simp
  next
    case (Some g)
    then have g: "msGroups s (ifGroupId f) = Some g" by (auto simp: flightGroup_def split: if_splits)
    from submitGroup_grows [OF e(1)] Some obtain g' where
      "grp = Some g'" "length (group_log g) \<le> length (group_log g')" by auto
    then have s': "s' = s\<lparr>msGroups := (msGroups s)(ifGroupId f \<mapsto> g')\<rparr>"
      and len: "length (group_log g) \<le> length (group_log g')" using e(2) by simp_all
    show ?thesis unfolding small_def
    proof (intro allI impI)
      fix gid x
      assume x: "msGroups s gid = Some x"
      show "length (group_log x) < 2 ^ 64"
      proof (cases "gid = ifGroupId f")
        case True
        with x g len smallD [OF assms(2), of gid g'] s' show ?thesis by simp
      next
        case False
        with x smallD [OF assms(2), of gid x] s' show ?thesis by simp
      qed
    qed
  qed
qed

lemma store_extends_small:
  assumes "store_extends s s'" and "small s'"
  shows "small s"
  unfolding small_def
proof (intro allI impI)
  fix gid g
  assume "msGroups s gid = Some g"
  with assms(1) obtain g' where "msGroups s' gid = Some g'" "extends g g'"
    by (auto simp: store_extends_def)
  moreover from this(2) obtain rs where "group_log g' = group_log g @ rs" by (auto simp: extends_def)
  ultimately show "length (group_log g) < 2 ^ 64" using smallD [OF assms(2), of gid g'] by simp
qed

section \<open>Every reachable state\<close>

lemma store_step_keeps:
  assumes "store_step H x y" and "sys_inv H x" and "small (fst y)"
  shows "store_extends (fst x) (fst y) \<and> groups_inv H (fst y) \<and>
    (\<forall>f \<in> set (snd y). flight_ok H (fst y) f)"
  using assms
proof (cases rule: store_step.cases)
  case (create ctx now s q s' r fs)
  note c = create_step [OF create(3)]
  have "small s" using c(1) assms(3) create(2) by (auto intro: store_extends_small)
  with assms(2) create(1,2) c show ?thesis by (auto simp: sys_inv_def intro: flight_ok_extends)
next
  case (close ctx now s gid s' e fs)
  note c = close_step [OF close(3)]
  have "small s" using c(1) assms(3) close(2) by (auto intro: store_extends_small)
  with assms(2) close(1,2) c show ?thesis by (auto simp: sys_inv_def intro: flight_ok_extends)
next
  case (begin_submit ctx s q f fs)
  with assms(2,3) submitBegin_ok(1) [OF begin_submit(3)] show ?thesis by (auto simp: sys_inv_def)
next
  case (end_submit f fs now s s' results)
  have sm: "small s" "small s'" using assms(3) end_submit(2,4) by (auto intro: submitEnd_grows)
  with assms(2) end_submit(1,3) have ok: "flight_ok H s f" "groups_inv H s"
    by (auto simp: sys_inv_def)
  note e = end_step [OF end_submit(4) ok sm(2)]
  with assms(2) end_submit(1,2) sm show ?thesis
    by (auto simp: sys_inv_def intro: flight_ok_extends dest: in_set_remove1 [THEN iffD1, rotated] notin_set_remove1)
qed

interpretation store: transition_system store_start "store_step H" "sys_inv H" for H
proof
  fix x
  assume "store_start x"
  then show "sys_inv H x" by (auto simp: store_start_def sys_inv_def NewMemoryStore_def groups_inv_def)
next
  fix x y
  assume "sys_inv H x" and "store_step H x y"
  then show "sys_inv H y" using store_step_keeps by (auto simp: sys_inv_def)
qed

definition reachable :: "hash \<Rightarrow> MemoryStore \<Rightarrow> inflight list \<Rightarrow> bool" where
  "reachable H s fs \<longleftrightarrow> (\<exists>x. store_start x \<and> (store_step H)\<^sup>*\<^sup>* x (s, fs))"

lemma reachable_inv:
  assumes "reachable H s fs" and "small s"
  shows "groups_inv H s" and "f \<in> set fs \<Longrightarrow> flight_ok H s f"
  using assms store.inv_reachable by (fastforce simp: reachable_def sys_inv_def)+

lemma reachable_group:
  assumes "reachable H s fs" and "small s" and "msGroups s gid = Some g"
  shows "group_inv H g" and "mgGroupId g = gid" and "length gid = GroupIdBytes"
    and "length (group_log g) < 2 ^ 64"
  using reachable_inv(1) [OF assms(1,2)] smallD [OF assms(2,3)] assms(3)
  by (auto simp: groups_inv_def)

lemma steps_extend:
  assumes "(store_step H)\<^sup>*\<^sup>* x y" and "sys_inv H x" and "small (fst y)"
  shows "store_extends (fst x) (fst y)"
  using assms
proof (induction rule: rtranclp_induct)
  case (step y z)
  from step(1) step.prems(1) have "sys_inv H y" by (rule store.inv_steps)
  then have "store_extends (fst y) (fst z)"
    using store_step_keeps step(2) step.prems(2) by blast
  with step show ?case by (metis store_extends_small store_extends_trans)
qed simp

lemma reachable_steps:
  "reachable H s fs \<Longrightarrow> (store_step H)\<^sup>*\<^sup>* (s, fs) (s', fs') \<Longrightarrow> reachable H s' fs'"
  unfolding reachable_def by (meson rtranclp_trans)

end
