(* ===== verification/Store_Properties.thy ===== *)
theory Store_Properties
  imports Store_System
begin

text \<open>
  What a caller of the store can rely on, each statement about every reachable state whose groups
  have not run out of ids (\<open>small\<close>), whatever the hash is and however submissions overlapped on
  the way there.
\<close>

section \<open>A concrete store\<close>

definition demoGroupId :: bytes where "demoGroupId = replicate 32 9"

definition demoCreate :: CreateGroupRequest where
  "demoCreate = \<lparr> cqGroupId = demoGroupId, cqInitialCommit = Some demoCommit,
     cqBootstrapWriteKey = replicate 32 5, cqEpochKeys = None \<rparr>"

definition demoSubmit :: "Record list \<Rightarrow> SubmitRequest" where
  "demoSubmit rs = \<lparr> sqGroupId = demoGroupId, sqRecords = rs, sqEpochKeys = None \<rparr>"

text \<open>A group founded and then given records, one submission each.\<close>

fun demoSubmits :: "MemoryStore \<Rightarrow> Record list \<Rightarrow> MemoryStore option" where
  "demoSubmits s [] = Some s"
| "demoSubmits s (r # rs) = do {
     (s', _) \<leftarrow> Submit id None 0 s (demoSubmit [r]);
     demoSubmits s' rs
   }"

definition demoRun :: "Record list \<Rightarrow> MemoryStore option" where
  "demoRun rs = do {
     (s, _) \<leftarrow> CreateGroup id None 0 (NewMemoryStore DefaultLimits) demoCreate;
     demoSubmits s rs
   }"

section \<open>Lemmas\<close>

lemma CreateGroup_total:
  "\<exists>s' answer. CreateGroup H ctx now s q = Some (s', answer)"
proof (cases "createGuards ctx q")
  case (Inl e)
  then show ?thesis by (simp add: CreateGroup_def)
next
  case (Inr r)
  then have v: "validateRecord r = None" by (simp add: createGuards_Inr)
  show ?thesis
  proof (cases "wellFormedEpochAttachment r 1 (cqEpochKeys q)")
    case True
    then obtain opn where o: "openingOf r (cqEpochKeys q) = Some opn"
      by (metis wellFormedEpochAttachment_opening)
    obtain media durable applied where a: "applyLimits (msLimits s) opn = (media, durable, applied)"
      by (metis prod_cases3)
    obtain t where "pruneAfter now (rRetentionClass r) media durable = Some t"
      using pruneAfter_Some [OF v] by blast
    with a have "\<exists>x. foundGroup H now (msLimits s) q r opn = Some x" by (simp add: foundGroup_def Let_def)
    with Inr o show ?thesis by (auto simp: CreateGroup_def)
  qed (use Inr in \<open>simp add: CreateGroup_def\<close>)
qed

lemma submitEnd_total:
  assumes "flight_ok H s f" and "groups_inv H s"
    and "\<And>g. msGroups s (ifGroupId f) = Some g \<Longrightarrow> length (group_log g) + length (ifBatch f) < 2 ^ 64"
  shows "\<exists>s' results. submitEnd H now s f = Some (s', results)"
proof -
  have "\<exists>grp results. submitGroup H (msLimits s) now (flightGroup s f) (ifEpochKeys f) (ifBatch f)
      = Some (grp, results)"
  proof (rule submitGroup_total)
    show "batch_ok H (flightGroup s f) (ifBatch f)" using assms(1) by (simp add: flight_ok_def)
    show "group_inv H g \<and> length (group_log g) + length (ifBatch f) < 2 ^ 64"
      if "flightGroup s f = Some g" for g
      using that assms(2,3) by (auto simp: groups_inv_def flightGroup_def split: if_splits)
  qed
  then show ?thesis by (auto simp: submitEnd_def flightGroup_def)
qed

text \<open>A submission run through is its two steps.\<close>

lemma Submit_steps:
  assumes "Submit H ctx now s q = Some (s', answer)"
  shows "(store_step H)\<^sup>*\<^sup>* (s, fs) (s', fs)"
proof (cases "submitBegin H ctx s q")
  case (Inl e)
  with assms show ?thesis by (simp add: Submit_def)
next
  case (Inr f)
  with assms obtain results where "submitEnd H now s f = Some (s', results)"
    by (auto simp: Submit_def)
  then have "store_step H (s, f # fs) (s', remove1 f (f # fs))"
    by (intro store_step.end_submit) auto
  moreover have "store_step H (s, fs) (s, f # fs)" using Inr by (rule store_step.begin_submit)
  ultimately show ?thesis by (simp add: converse_rtranclp_into_rtranclp)
qed

lemma Submit_dom:
  assumes "Submit H ctx now s q = Some (s', answer)" and "dom (msGroups s) \<subseteq> {gid}"
  shows "dom (msGroups s') \<subseteq> {gid}"
proof (cases "submitBegin H ctx s q")
  case (Inl e)
  with assms show ?thesis by (simp add: Submit_def)
next
  case (Inr f)
  with assms(1) obtain grp results where
    e: "submitGroup H (msLimits s) now (flightGroup s f) (ifEpochKeys f) (ifBatch f) = Some (grp, results)"
    "s' = (case grp of None \<Rightarrow> s | Some g \<Rightarrow> s\<lparr>msGroups := (msGroups s)(ifGroupId f \<mapsto> g)\<rparr>)"
    by (auto simp: Submit_def submitEnd_def flightGroup_def bind_eq_Some_conv)
  from submitGroup_grows [OF e(1)] e(2) assms(2) show ?thesis
    by (cases "flightGroup s f") (auto simp: flightGroup_def split: if_splits)
qed

lemma demoSubmits_reachable:
  assumes "demoSubmits s rs = Some s'" and "reachable id s []" and "dom (msGroups s) \<subseteq> {demoGroupId}"
  shows "reachable id s' [] \<and> dom (msGroups s') \<subseteq> {demoGroupId}"
  using assms
proof (induction s rs rule: demoSubmits.induct)
  case (2 s r rs)
  from "2.prems"(1) obtain s1 answer where s1: "Submit id None 0 s (demoSubmit [r]) = Some (s1, answer)"
    "demoSubmits s1 rs = Some s'" by (auto simp: bind_eq_Some_conv)
  from "2.IH" [OF s1(1) refl s1(2) reachable_steps [OF "2.prems"(2) Submit_steps [OF s1(1)]]
      Submit_dom [OF s1(1) "2.prems"(3)]] show ?case .
qed simp

lemma demoRun_steps:
  assumes "demoRun rs = Some s"
  shows "reachable id s [] \<and> dom (msGroups s) \<subseteq> {demoGroupId}"
proof -
  from assms obtain s0 answer where c: "CreateGroup id None 0 (NewMemoryStore DefaultLimits) demoCreate
      = Some (s0, answer)" "demoSubmits s0 rs = Some s" by (auto simp: demoRun_def bind_eq_Some_conv)
  have "reachable id s0 []"
    unfolding reachable_def store_start_def using store_step.create [OF c(1)] by blast
  moreover have "dom (msGroups s0) \<subseteq> {demoGroupId}"
    using c(1) by (cases rule: CreateGroup_cases) (auto simp: NewMemoryStore_def demoCreate_def)
  ultimately show ?thesis using demoSubmits_reachable [OF c(2)] by blast
qed

lemmas demoRun_dom = demoRun_steps [THEN conjunct2]

lemma demoRun_reachable:
  assumes "demoRun rs = Some s" and "msGroups s demoGroupId = Some g"
    and "length (group_log g) < 2 ^ 64"
  shows "reachable id s [] \<and> small s"
  using demoRun_steps [OF assms(1)] assms(2,3) by (auto simp: small_def)

lemma demo_log:
  obtains s g where "demoRun [demoMarker, demoMessage] = Some s" "reachable id s []" "small s"
    "msGroups s demoGroupId = Some g" "\<not> mgClosed g" "mgCurrentEpoch g = 1"
    "group_log g = [stored 1 demoCommit, stored 2 demoMarker, stored 3 demoMessage]"
proof -
  have "(case demoRun [demoMarker, demoMessage] of None \<Rightarrow> False
    | Some s \<Rightarrow> (case msGroups s demoGroupId of None \<Rightarrow> False
      | Some g \<Rightarrow> \<not> mgClosed g \<and> mgCurrentEpoch g = 1 \<and>
          group_log g = [stored 1 demoCommit, stored 2 demoMarker, stored 3 demoMessage]))"
    by code_simp
  then obtain s g where d: "demoRun [demoMarker, demoMessage] = Some s" "msGroups s demoGroupId = Some g"
    "\<not> mgClosed g" "mgCurrentEpoch g = 1"
    "group_log g = [stored 1 demoCommit, stored 2 demoMarker, stored 3 demoMessage]"
    by (auto split: option.splits)
  with demoRun_reachable [OF d(1,2)] that show ?thesis by simp
qed

section \<open>Properties of the log\<close>

text \<open>
  C6: The record ids of a group are 1, 2, 3 and so on with no gap, in log order, and the group's
  counter is the next one.
\<close>

theorem ids_gapless:
  assumes "reachable H s fs" and "small s" and "msGroups s gid = Some g"
  shows "map rRecordId (group_log g) = map of_nat [1..<Suc (length (group_log g))] \<and>
     distinct (map rRecordId (group_log g)) \<and>
     mgNextRecordId g = of_nat (Suc (length (group_log g)))"
proof -
  note g = reachable_group [OF assms]
  have "map rRecordId (group_log g) = map of_nat [1..<Suc (length (group_log g))]"
    using g(1) by (intro nth_equalityI) (simp_all add: group_inv_def rows_inv_def inv_ids_def del: upt_Suc)
  moreover have "inj_on (of_nat :: nat \<Rightarrow> u64) {1..<Suc (length (group_log g))}"
  proof (cases "Suc (length (group_log g)) \<le> 2 ^ 64")
    case True
    then show ?thesis by (intro inj_onI of_nat_u64_inj) auto
  qed (use g(4) in simp)
  then have "distinct (map (of_nat :: nat \<Rightarrow> u64) [1..<Suc (length (group_log g))])"
    by (simp add: distinct_map del: upt_Suc)
  ultimately show ?thesis using g(1) by (simp add: group_inv_def del: upt_Suc)
qed

theorem ids_gapless_witness:
  "\<exists>s g. reachable id s [] \<and> small s \<and> msGroups s demoGroupId = Some g \<and>
     map rRecordId (group_log g) = [1, 2, 3] \<and> mgNextRecordId g = 4"
proof -
  from demo_log obtain s g where d: "reachable id s []" "small s" "msGroups s demoGroupId = Some g"
    "group_log g = [stored 1 demoCommit, stored 2 demoMarker, stored 3 demoMessage]" .
  with ids_gapless [OF d(1-3)] show ?thesis by auto
qed

text \<open>
  C4: The log of a group holds exactly one commit of every epoch below the current one and none of
  any other, and no record of an epoch stands after that epoch's commit.
\<close>

theorem one_commit_per_epoch:
  assumes "reachable H s fs" and "small s" and "msGroups s gid = Some g"
  shows "length (filter (\<lambda>r. rIsCommit r \<and> rEpoch r = e) (group_log g)) =
       (if e < mgCurrentEpoch g then 1 else 0)
     \<and> sorted_wrt (\<lambda>r r'. rEpoch r \<le> rEpoch r' \<and> (rIsCommit r \<longrightarrow> rEpoch r < rEpoch r')) (group_log g)"
proof -
  let ?f = "filter (\<lambda>r. rIsCommit r \<and> rEpoch r = e) (group_log g)"
  from reachable_group(1) [OF assms] have i: "inv_epochs g" "inv_commits g"
    by (auto simp: group_inv_def rows_inv_def)
  then have sorted: "sorted_wrt (\<lambda>r r'. rEpoch r \<le> rEpoch r' \<and> (rIsCommit r \<longrightarrow> rEpoch r < rEpoch r')) (group_log g)"
    by (simp add: inv_epochs_def)
  have "sorted_wrt (\<lambda>r r'. False) ?f"
    by (rule sorted_wrt_mono_rel [OF _ sorted_wrt_filter [OF sorted]]) auto
  then have le: "length ?f \<le> 1" by (rule sorted_wrt_False)
  from i(2) have ok: "commit_ok (mgCurrentEpoch g) (group_log g) e (mgCommits g e)"
    by (simp add: inv_commits_def)
  have "length ?f = (if e < mgCurrentEpoch g then 1 else 0)"
  proof (cases "e < mgCurrentEpoch g")
    case True
    with ok obtain r where "r \<in> set (group_log g)" "rIsCommit r" "rEpoch r = e"
      by (auto simp: commit_ok_def split: option.splits)
    then have "?f \<noteq> []" by (auto simp: filter_empty_conv)
    with le True show ?thesis by (cases ?f) auto
  next
    case False
    then show ?thesis using i(1) by (auto simp: inv_epochs_def filter_empty_conv)
  qed
  with sorted show ?thesis by blast
qed

theorem one_commit_per_epoch_witness:
  "\<exists>s g. reachable id s [] \<and> small s \<and> msGroups s demoGroupId = Some g \<and>
     length (filter (\<lambda>r. rIsCommit r \<and> rEpoch r = 0) (group_log g)) = 1"
proof -
  from demo_log obtain s g where d: "reachable id s []" "small s" "msGroups s demoGroupId = Some g"
    "mgCurrentEpoch g = 1" .
  with one_commit_per_epoch [OF d(1-3), of 0] show ?thesis by auto
qed

text \<open>
  C16: No two records of a group share a sender and a stream index, each sender's indexes rise
  through the log, and the sender's row counts what the log holds of it.
\<close>

theorem streams_monotonic:
  assumes "reachable H s fs" and "small s" and "msGroups s gid = Some g"
  shows "distinct (map claimKeyOf (group_log g)) \<and>
     sorted_wrt (\<lambda>r r'. rStreamIndex r < rStreamIndex r') (by_sender h (group_log g)) \<and>
     (case mgSenders g h of
        None \<Rightarrow> by_sender h (group_log g) = []
      | Some row \<Rightarrow> snRecordCount row = of_nat (length (by_sender h (group_log g))) \<and>
          snByteCount row = sum_list (map recordBytes (by_sender h (group_log g))) \<and>
          snLastStreamIndex row = rStreamIndex (last (by_sender h (group_log g))))"
proof -
  from reachable_group(1) [OF assms] have i: "inv_streams g" "inv_senders g"
    by (auto simp: group_inv_def rows_inv_def)
  have "sorted_wrt (\<lambda>r r'. claimKeyOf r \<noteq> claimKeyOf r') (group_log g)"
    using i(1) unfolding inv_streams_def
    by (rule sorted_wrt_mono_rel [rotated]) (auto simp: claimKeyOf_def)
  then have "distinct (map claimKeyOf (group_log g))"
    by (rule distinct_map_sorted_wrt)
  moreover have "sorted_wrt (\<lambda>r r'. rStreamIndex r < rStreamIndex r') (by_sender h (group_log g))"
    using i(1) unfolding inv_streams_def by_sender_def
    by (intro sorted_wrt_mono_rel [OF _ sorted_wrt_filter]) auto
  moreover from i(2) have "sender_ok (mgSenders g h) (by_sender h (group_log g))"
    by (simp add: inv_senders_def)
  ultimately show ?thesis by (auto simp: sender_ok_def split: option.splits)
qed

theorem streams_monotonic_witness:
  "\<exists>s g. reachable id s [] \<and> small s \<and> msGroups s demoGroupId = Some g \<and>
     distinct (map claimKeyOf (group_log g)) \<and> group_log g \<noteq> []"
proof -
  from demo_log obtain s g where d: "reachable id s []" "small s" "msGroups s demoGroupId = Some g"
    "group_log g = [stored 1 demoCommit, stored 2 demoMarker, stored 3 demoMessage]" .
  with streams_monotonic [OF d(1-3)] show ?thesis by auto
qed

text \<open>
  C17: Past the founding epoch, an ordinary record is stored only after the marker that closes its
  epoch's fan-out: in front of every record that is neither a wrap nor a marker stands an
  \<open>EpochComplete\<close> of the same epoch.
\<close>

theorem ordinary_after_marker:
  assumes "reachable H s fs" and "small s" and "msGroups s gid = Some g"
    and "i < length (group_log g)" and "rEpoch (group_log g ! i) \<noteq> 0"
    and "\<not> exemptFromEpochComplete (group_log g ! i)"
  shows "\<exists>j < i. \<exists>m. epochCompleteTagOf (group_log g ! j) = Some m \<and>
     ecEpoch m = rEpoch (group_log g ! i)"
proof -
  from reachable_group(1) [OF assms(1-3)] have "inv_fanout g" by (simp add: group_inv_def rows_inv_def)
  with assms(4-) have "marked (take i (group_log g)) (rEpoch (group_log g ! i))"
    by (simp add: inv_fanout_def)
  then obtain r m where r: "r \<in> set (take i (group_log g))" "epochCompleteTagOf r = Some m"
    "ecEpoch m = rEpoch (group_log g ! i)" by (auto simp: marked_def)
  then obtain j where "j < i" "group_log g ! j = r" using assms(4) by (auto simp: in_set_conv_nth)
  with r show ?thesis by auto
qed

theorem ordinary_after_marker_witness:
  "\<exists>s g j. reachable id s [] \<and> msGroups s demoGroupId = Some g \<and>
     group_log g ! 2 = stored 3 demoMessage \<and> j < 2 \<and> epochCompleteTagOf (group_log g ! j) \<noteq> None"
proof -
  from demo_log obtain s g where d: "reachable id s []" "small s" "msGroups s demoGroupId = Some g"
    "group_log g = [stored 1 demoCommit, stored 2 demoMarker, stored 3 demoMessage]" .
  have "rEpoch demoMessage \<noteq> 0" "\<not> exemptFromEpochComplete demoMessage"
    by (simp_all add: demo_defs exemptFromEpochComplete_def attachmentKindOf_def)
  with ordinary_after_marker [OF d(1-3), of 2] d show ?thesis by fastforce
qed

section \<open>Keys and history\<close>

text \<open>
  C13: The keys an open group answers. Every epoch a commit opened still answers its 32-byte read
  key; a write key is answered for the current epoch and its predecessor and for no other; an epoch
  not yet opened is unknown; and the current epoch answers both keys whole, so the group can always
  be written to.
\<close>

theorem epoch_keys_custody:
  assumes "reachable H s fs" and "small s" and "msGroups s gid = Some g" and "\<not> mgClosed g"
  shows "(\<forall>e. e \<noteq> 0 \<and> e \<le> mgCurrentEpoch g \<longrightarrow>
        (\<exists>k. MemoryStore_EpochKeys None s gid e = Inr k \<and> slen (ekReadKey k) = EpochKeyBytes)) \<and>
     (\<forall>e. mgCurrentEpoch g < e \<longrightarrow> MemoryStore_EpochKeys None s gid e = Inl ErrEpochKeyUnknown) \<and>
     (\<forall>e. (\<exists>k. MemoryStore_EpochKeys None s gid e = Inr k \<and> ekWriteKey k \<noteq> None) \<longleftrightarrow>
        e \<le> mgCurrentEpoch g \<and> unat (mgCurrentEpoch g) \<le> Suc (unat e)) \<and>
     (\<exists>k. MemoryStore_EpochKeys None s gid (mgCurrentEpoch g) = Inr k \<and>
        slen (ekWriteKey k) = EpochKeyBytes \<and> slen (ekReadKey k) = EpochKeyBytes)"
proof -
  note r = reachable_group [OF assms(1-3)]
  have ok: "epoch_ok (mgCurrentEpoch g) (mgCommits g) e (mgEpochs g e)" for e
    using r(1) by (simp add: group_inv_def rows_inv_def inv_keys_def)
  have one: "mgCurrentEpoch g \<noteq> 0"
    using r(1) by (auto simp: group_inv_def rows_inv_def inv_epochs_def)
  have keys: "MemoryStore_EpochKeys None s gid e = (case mgEpochs g e of None \<Rightarrow> Inl ErrEpochKeyUnknown
      | Some row \<Rightarrow> if erWriteKey row = None \<and> erReadKey row = None then Inl ErrEpochKeyUnknown
         else Inr \<lparr> ekEpoch = erEpoch row, ekWriteKey = erWriteKey row, ekReadKey = erReadKey row,
           ekReadKeyInstall = erReadKeyInstall row, ekAlgId = erAlgId row,
           ekOpenedByRecord = erOpenedByRecord row, ekAcceptTime = erAcceptTime row,
           ekRetireTime = erRetireTime row \<rparr>)" for e
    using assms(3,4) r(3) by (simp add: MemoryStore_EpochKeys_def checkLength_def)
  have "\<exists>k. MemoryStore_EpochKeys None s gid e = Inr k \<and> slen (ekReadKey k) = EpochKeyBytes \<and>
      (e = mgCurrentEpoch g \<longrightarrow> slen (ekWriteKey k) = EpochKeyBytes)"
    if "e \<noteq> 0" "e \<le> mgCurrentEpoch g" for e
    using ok [of e] that unfolding keys
    by (auto simp: epoch_ok_def slen_def EpochKeyBytes_def split: option.splits)
  moreover have "MemoryStore_EpochKeys None s gid e = Inl ErrEpochKeyUnknown" if "mgCurrentEpoch g < e" for e
    using ok [of e] that unfolding keys by (auto simp: epoch_ok_def split: option.splits)
  moreover have "(\<exists>k. MemoryStore_EpochKeys None s gid e = Inr k \<and> ekWriteKey k \<noteq> None) \<longleftrightarrow>
      e \<le> mgCurrentEpoch g \<and> unat (mgCurrentEpoch g) \<le> Suc (unat e)" for e
    using ok [of e] unfolding keys by (auto simp: epoch_ok_def split: option.splits)
  ultimately show ?thesis using one by blast
qed

theorem epoch_keys_custody_witness:
  "\<exists>s k. reachable id s [] \<and> MemoryStore_EpochKeys None s demoGroupId 1 = Inr k \<and>
     slen (ekWriteKey k) = 32 \<and> slen (ekReadKey k) = 32"
proof -
  from demo_log obtain s g where d: "reachable id s []" "small s" "msGroups s demoGroupId = Some g"
    "\<not> mgClosed g" "mgCurrentEpoch g = 1" .
  with epoch_keys_custody [OF d(1-4)] show ?thesis by (auto simp: EpochKeyBytes_def)
qed

text \<open>
  C10: Nothing a group held is ever altered. Between any two states of a run, the later log has the
  earlier one as a prefix, every claim, commit and recovery pin is the one it was, every read key
  is kept, a discarded write key does not return, and a closed group stays closed.
\<close>

theorem history_append_only:
  assumes "reachable H s fs" and "(store_step H)\<^sup>*\<^sup>* (s, fs) (s', fs')" and "small s'"
    and "msGroups s gid = Some g"
  shows "\<exists>g'. msGroups s' gid = Some g' \<and> extends g g'"
proof -
  obtain x where "store_start x" "(store_step H)\<^sup>*\<^sup>* x (s, fs)"
    using assms(1) by (auto simp: reachable_def)
  then have "sys_inv H (s, fs)" by (rule store.inv_reachable)
  from steps_extend [OF assms(2) this] assms(3,4) show ?thesis by (simp add: store_extends_def)
qed

theorem history_append_only_witness:
  "\<exists>s s' g g'. reachable id s [] \<and> (store_step id)\<^sup>*\<^sup>* (s, []) (s', []) \<and> s' \<noteq> s \<and>
     msGroups s demoGroupId = Some g \<and> msGroups s' demoGroupId = Some g' \<and> extends g g'"
proof -
  from demo_log obtain s g where d: "reachable id s []" "small s" "msGroups s demoGroupId = Some g"
    "\<not> mgClosed g" .
  let ?s' = "fst (CloseGroup None 0 s demoGroupId)"
  have s': "?s' = s\<lparr>msGroups := (msGroups s)(demoGroupId \<mapsto> g\<lparr>mgClosed := True, mgCloseTime := 0\<rparr>)\<rparr>"
    using d(3,4) by (simp add: CloseGroup_def demoGroupId_def shape_defs or_else_def checkLength_def)
  have "store_step id (s, []) (?s', [])"
    by (rule store_step.close [of None 0 s demoGroupId _ "snd (CloseGroup None 0 s demoGroupId)"]) simp
  then have steps: "(store_step id)\<^sup>*\<^sup>* (s, []) (?s', [])" by blast
  have "small ?s'" unfolding s' using d(2,3) by (auto simp: small_def)
  from history_append_only [OF d(1) steps this d(3)] obtain g' where
    g': "msGroups ?s' demoGroupId = Some g'" "extends g g'" by blast
  moreover have "mgClosed g'" using g'(1) by (auto simp: s')
  then have "?s' \<noteq> s" using g'(1) d(3,4) by auto
  ultimately show ?thesis using d(1,3) steps by blast
qed

end
