(* ===== verification/Store_Answers.thy ===== *)
theory Store_Answers
  imports Store_Properties
begin

text \<open>
  The answer to a submission, result by result, on every path: what is acknowledged, what is
  refused, and what a retry, a losing commit and a closed group are told.
\<close>

section \<open>What a submission answers\<close>

text \<open>
  The answer to a record of a batch that is not stored: a replay keeps its acknowledgement and its
  id, every other record is refused and names no id.
\<close>

definition answers :: "pending \<Rightarrow> SubmitResult \<Rightarrow> bool" where
  "answers p res \<longleftrightarrow>
     (if pProbe p = probeIdentical
      then srReason res = REASON_OK \<and> srRecordId res = srRecordId (pResult p)
      else \<not> accepted (srReason res) \<and> srRecordId res = 0)"

lemma resultsOf_nth:
  "i < length ps \<Longrightarrow> resultsOf ps ! i =
     (if accepted (srReason (pResult (ps ! i))) then pResult (ps ! i)
      else (pResult (ps ! i))\<lparr>srRecordId := 0\<rparr>)"
  by (simp add: resultsOf_def)

lemma length_resultsOf [simp]: "length (resultsOf ps) = length ps"
  by (simp add: resultsOf_def)

lemma fillOne_simps [simp]:
  "srReason (pResult (fillOne g p)) = srReason (pResult p)"
  "srRecordId (pResult (fillOne g p)) = srRecordId (pResult p)"
  "pProbe (fillOne g p) = pProbe p"
  by (simp_all add: fillOne_def Let_def split: option.split)

lemma fill_nth:
  "i < length ps \<Longrightarrow> srReason (pResult (fillCurrentEpoch grp ps ! i)) = srReason (pResult (ps ! i))"
  "i < length ps \<Longrightarrow> srRecordId (pResult (fillCurrentEpoch grp ps ! i)) = srRecordId (pResult (ps ! i))"
  "length (fillCurrentEpoch grp ps) = length ps"
  by (simp_all add: fillCurrentEpoch_def split: option.split)

lemma not_accepted [simp]:
  "\<not> accepted REASON_REJECTED" "\<not> accepted REASON_COMMIT_LOST" "\<not> accepted REASON_EPOCH_STALE"
  "\<not> accepted REASON_EPOCH_INCOMPLETE" "\<not> accepted REASON_STREAM_INDEX_REUSED"
  "\<not> accepted REASON_STREAM_INDEX_REGRESSED" "accepted REASON_OK"
  by (simp_all add: accepted_def)

lemma gate_refusal: "gate g st r keys hw pn \<noteq> REASON_OK \<Longrightarrow> \<not> accepted (gate g st r keys hw pn)"
  unfolding gate_def by (auto split: if_splits)

lemma gateLoop_refusal:
  "gateLoop g st keys hw pn k ps = Some (i, refusal) \<Longrightarrow> \<not> accepted refusal"
  by (induction g st keys hw pn k ps rule: gateLoop.induct)
    (auto simp: Let_def gate_refusal split: if_splits)

text \<open>A batch as its probe left it.\<close>

definition replay_ok :: "pending \<Rightarrow> bool" where
  "replay_ok p \<longleftrightarrow> (pProbe p = probeIdentical \<longrightarrow> srReason (pResult p) = REASON_OK)"

lemma refuseBatch_answers:
  assumes "\<forall>p \<in> set ps. replay_ok p" and "\<not> accepted reason"
  shows "list_all2 answers ps (refuseBatch grp ps off reason)"
proof (rule list_all2_all_nthI)
  fix i
  assume i: "i < length ps"
  then have "replay_ok (ps ! i)" using assms(1) by simp
  with i assms(2) show "answers (ps ! i) (refuseBatch grp ps off reason ! i)"
    by (simp add: refuseBatch_def resultsOf_nth fill_nth refuseOne_def setReason_def answers_def
        replay_ok_def)
qed (simp add: refuseBatch_def fill_nth)

lemma refuseUnavailable_answers:
  assumes "\<forall>p \<in> set ps. replay_ok p"
  shows "list_all2 answers ps (refuseUnavailable ps)"
proof (rule list_all2_all_nthI)
  fix i
  assume i: "i < length ps"
  then have "replay_ok (ps ! i)" using assms(1) by simp
  with i show "answers (ps ! i) (refuseUnavailable ps ! i)"
    by (simp add: refuseUnavailable_def resultsOf_nth answers_def replay_ok_def zeroResult_def)
qed (simp add: refuseUnavailable_def)

lemma replays_answers:
  assumes "\<forall>p \<in> set ps. replay_ok p \<and> pProbe p = probeIdentical"
  shows "list_all2 answers ps (resultsOf (fillCurrentEpoch grp ps))"
proof (rule list_all2_all_nthI)
  fix i
  assume i: "i < length ps"
  then have "replay_ok (ps ! i) \<and> pProbe (ps ! i) = probeIdentical" using assms(1) by simp
  with i show "answers (ps ! i) (resultsOf (fillCurrentEpoch grp ps) ! i)"
    by (simp add: resultsOf_nth fill_nth answers_def replay_ok_def)
qed (simp add: fill_nth)

lemma answers_same [simp]: "answers (settle p) = answers p" "answers (setCurrentEpoch e p) = answers p"
  by (auto simp: fun_eq_iff answers_def settle_def setCurrentEpoch_def)

lemma answers_settle:
  "list_all2 answers (map settle ps) rs \<longleftrightarrow> list_all2 answers ps rs"
  "list_all2 answers (locked g ps) rs \<longleftrightarrow> list_all2 answers ps rs"
  by (simp_all add: list_all2_map1 locked_def)

lemma settle_probe [simp]: "pProbe (settle p) = pProbe p"
  by (simp add: settle_def)

lemma all_settled:
  "\<forall>p \<in> set ps. \<not> pSettled p \<Longrightarrow>
     list_all pSettled (map settle ps) \<longleftrightarrow> (\<forall>p \<in> set ps. pProbe p = probeIdentical)"
  by (induction ps) (auto simp: settle_def)

lemma submitGroup_paths:
  "first_index (\<lambda>p. pProbe p = probeDiffers) 0 ps = Some i \<Longrightarrow>
     submitGroup H limits now grp keys ps = Some (grp, refuseBatch grp ps i REASON_STREAM_INDEX_REUSED)"
  "first_index (\<lambda>p. pProbe p = probeDiffers) 0 ps = None \<Longrightarrow> list_all pSettled (map settle ps) \<Longrightarrow>
     submitGroup H limits now grp keys ps = Some (grp, resultsOf (fillCurrentEpoch grp (map settle ps)))"
  "first_index (\<lambda>p. pProbe p = probeDiffers) 0 ps = None \<Longrightarrow> \<not> list_all pSettled (map settle ps) \<Longrightarrow>
     submitGroup H limits now None keys ps = Some (None, refuseUnavailable (map settle ps))"
  "first_index (\<lambda>p. pProbe p = probeDiffers) 0 ps = None \<Longrightarrow> \<not> list_all pSettled (map settle ps) \<Longrightarrow>
     mgClosed g \<Longrightarrow>
     submitGroup H limits now (Some g) keys ps = Some (Some g, refuseUnavailable (map settle ps))"
  "first_index (\<lambda>p. pProbe p = probeDiffers) 0 ps = None \<Longrightarrow> \<not> list_all pSettled (map settle ps) \<Longrightarrow>
     \<not> mgClosed g \<Longrightarrow>
     gateLoop g (state g) keys Map.empty Map.empty 0 (locked g ps) = Some (i, refusal) \<Longrightarrow>
     submitGroup H limits now (Some g) keys ps = Some (Some g, refuseBatch (Some g) (locked g ps) i refusal)"
  by (simp_all add: submitGroup_def Let_def locked_def)

lemma submitGroup_answers:
  assumes "submitGroup H limits now grp keys ps = Some (grp', results)" and "batch_ok H grp0 ps"
    and "\<nexists>g. passes grp keys ps g"
  shows "list_all2 answers ps results"
proof -
  from assms(2) have pr: "\<forall>p \<in> set ps. probed H grp0 p" by (simp add: batch_ok_def)
  then have u: "\<forall>p \<in> set ps. \<not> pSettled p" and
    ok: "\<forall>p \<in> set ps. replay_ok p" "\<forall>p \<in> set (map settle ps). replay_ok p"
    "\<And>g. \<forall>p \<in> set (locked g ps). replay_ok p"
    by (auto simp: probed_def replay_ok_def settle_def locked_def setCurrentEpoch_def zeroResult_def
        split: if_splits)
  show ?thesis
  proof (cases "first_index (\<lambda>p. pProbe p = probeDiffers) 0 ps")
    case (Some i)
    from assms(1) [unfolded submitGroup_paths(1) [OF Some]] refuseBatch_answers [OF ok(1)]
    show ?thesis by auto
  next
    case nd: None
    show ?thesis
    proof (cases "list_all pSettled (map settle ps)")
      case True
      then have "\<forall>p \<in> set (map settle ps). pProbe p = probeIdentical"
        unfolding all_settled [OF u] by simp
      with ok(2) have "list_all2 answers (map settle ps) (resultsOf (fillCurrentEpoch grp (map settle ps)))"
        by (intro replays_answers) blast
      with assms(1) [unfolded submitGroup_paths(2) [OF nd True]] show ?thesis
        by (simp only: answers_settle option.inject prod.inject) blast
    next
      case ns: False
      then have ex: "\<exists>p \<in> set ps. pProbe p \<noteq> probeIdentical"
        unfolding all_settled [OF u] by blast
      note ru = refuseUnavailable_answers [OF ok(2), unfolded answers_settle]
      show ?thesis
      proof (cases grp)
        case None
        with assms(1) submitGroup_paths(3) [OF nd ns] ru show ?thesis by simp
      next
        case (Some g)
        show ?thesis
        proof (cases "mgClosed g")
          case True
          with Some assms(1) submitGroup_paths(4) [OF nd ns True] ru show ?thesis by simp
        next
          case False
          with assms(3) Some nd ex obtain i refusal where
            l: "gateLoop g (state g) keys Map.empty Map.empty 0 (locked g ps) = Some (i, refusal)"
            by (fastforce simp: passes_def first_index_None)
          with assms(1) Some submitGroup_paths(5) [OF nd ns False l]
          have "results = refuseBatch grp (locked g ps) i refusal" by auto
          with refuseBatch_answers [OF ok(3) gateLoop_refusal [OF l]] show ?thesis
            by (simp add: answers_settle)
        qed
      qed
    qed
  qed
qed

lemma flight_inv:
  assumes "reachable H s fs" and "f \<in> set fs" and "submitEnd H now s f = Some (s', results)" and "small s'"
  shows "flight_ok H s f" and "groups_inv H s"
  using reachable_inv [OF assms(1) submitEnd_grows [OF assms(3,4)]] assms(2) by auto

lemma submitEnd_answers:
  assumes "submitEnd H now s f = Some (s', results)" and "flight_ok H s f"
    and "\<nexists>g. passes (flightGroup s f) (ifEpochKeys f) (ifBatch f) g"
  shows "list_all2 answers (ifBatch f) results"
proof -
  from assms(1) obtain grp where e: "submitGroup H (msLimits s) now (flightGroup s f) (ifEpochKeys f)
      (ifBatch f) = Some (grp, results)"
    by (auto simp: submitEnd_def flightGroup_def bind_eq_Some_conv)
  from assms(2) have "batch_ok H (flightGroup s f) (ifBatch f)" by (simp add: flight_ok_def)
  from submitGroup_answers [OF e this assms(3)] show ?thesis .
qed

lemma length_assignedIds [simp]: "length (assignedIds i ps) = length ps"
  by (induction i ps rule: assignedIds.induct) auto

lemma stores_length: "stores H keys ps g g' results \<Longrightarrow> length results = length ps"
  by (metis length_assignedIds length_map stores_def locked_def)

lemma demo_flight:
  obtains s f s' results where "reachable id s [f]" "submitEnd id 0 s f = Some (s', results)" "small s'"
    "ifGroupId f = demoGroupId" "length (ifBatch f) = 1" "map srReason results = [REASON_OK]"
    "map srRecordId results = [3]" "s' \<noteq> s"
    "\<forall>gid g. msGroups s gid = Some g \<longrightarrow> length (group_log g) = 2"
    "\<exists>g. msGroups s demoGroupId = Some g \<and> \<not> mgClosed g"
proof -
  have "some_sat (\<lambda>s. right_sat (\<lambda>f. some_sat (\<lambda>(s', results).
       some_sat (\<lambda>g. some_sat (\<lambda>g'. ifGroupId f = demoGroupId \<and> length (ifBatch f) = 1 \<and>
            map srReason results = [REASON_OK] \<and> map srRecordId results = [3] \<and>
            length (group_log g) = 2 \<and> length (group_log g') = 3 \<and> \<not> mgClosed g)
         (msGroups s' demoGroupId)) (msGroups s demoGroupId))
       (submitEnd id 0 s f)) (submitBegin id None s (demoSubmit [demoMessage]))) (demoRun [demoMarker])"
    by code_simp
  then obtain s f s' results g g' where d: "demoRun [demoMarker] = Some s"
    "submitBegin id None s (demoSubmit [demoMessage]) = Inr f" "submitEnd id 0 s f = Some (s', results)"
    "msGroups s demoGroupId = Some g" "msGroups s' demoGroupId = Some g'"
    "ifGroupId f = demoGroupId" "length (ifBatch f) = 1" "map srReason results = [REASON_OK]"
    "map srRecordId results = [3]" "length (group_log g) = 2" "length (group_log g') = 3" "\<not> mgClosed g"
    by (auto simp: sat_iff)
  from demoRun_reachable [OF d(1,4)] d(10) have "reachable id s []" by simp
  then have "reachable id s [f]"
    using store_step.begin_submit [OF d(2), of "[]"] by (meson r_into_rtranclp reachable_steps)
  moreover have "dom (msGroups s') \<subseteq> {demoGroupId}"
  proof -
    from d(2,3) have "Submit id None 0 s (demoSubmit [demoMessage]) = Some (s', Inr results)"
      by (simp add: Submit_def)
    then show ?thesis using Submit_dom demoRun_dom [OF d(1)] by blast
  qed
  then have "small s'" using d(5,11) by (auto simp: small_def)
  moreover have "s' \<noteq> s" using d(4,5,10,11) by auto
  moreover have "\<forall>gid g. msGroups s gid = Some g \<longrightarrow> length (group_log g) = 2"
    using demoRun_dom [OF d(1)] d(4,10) by auto
  moreover have "\<exists>g. msGroups s demoGroupId = Some g \<and> \<not> mgClosed g" using d(4,12) by blast
  ultimately show ?thesis using d(3,6-9) by (intro that [of s f s' results])
qed

lemma submit_answer_length:
  assumes "reachable H s fs" and "f \<in> set fs" and "submitEnd H now s f = Some (s', results)"
    and "small s'"
  shows "length results = length (ifBatch f)"
proof -
  note i = flight_inv [OF assms]
  show ?thesis
  proof (cases "\<exists>g. passes (flightGroup s f) (ifEpochKeys f) (ifBatch f) g")
    case True
    with submitEnd_cases [OF assms(3) i assms(4)] stores_length show ?thesis by blast
  next
    case False
    from submitEnd_answers [OF assms(3) i(1) False] show ?thesis by (simp add: list_all2_lengthD)
  qed
qed

section \<open>All or nothing\<close>

text \<open>
  C1: A submission is stored whole or not at all, also when others committed between its probe and
  its lock. Either the store is exactly as it was, every replayed record is acknowledged with the
  id it already had and every other record is refused and names no id; or every result is an
  acceptance and the group's log has grown by exactly the records that were not replays, in the
  batch's order, under the ids next in line.
\<close>

theorem submit_all_or_nothing:
  assumes "reachable H s fs" and "f \<in> set fs" and "submitEnd H now s f = Some (s', results)"
    and "small s'"
  shows "s' = s \<and> list_all2 answers (ifBatch f) results \<or>
    (\<exists>g g'. msGroups s (ifGroupId f) = Some g \<and> \<not> mgClosed g \<and>
       s' = s\<lparr>msGroups := (msGroups s)(ifGroupId f \<mapsto> g')\<rparr> \<and>
       list_all (accepted \<circ> srReason) results \<and> length results = length (ifBatch f) \<and>
       group_log g' = group_log g @
         newRecords (of_nat (Suc (length (group_log g)))) (map settle (ifBatch f)))"
proof -
  note i = flight_inv [OF assms]
  have new: "newRecords k (locked g ps) = newRecords k (map settle ps)" for k g ps
    by (induction ps arbitrary: k) (auto simp: locked_def setCurrentEpoch_def)
  show ?thesis
  proof (cases "\<exists>g. passes (flightGroup s f) (ifEpochKeys f) (ifBatch f) g")
    case False
    with submitEnd_cases [OF assms(3) i assms(4)] have "s' = s" by (auto simp: stores_def)
    with submitEnd_answers [OF assms(3) i(1) False] show ?thesis by blast
  next
    case True
    with submitEnd_cases [OF assms(3) i assms(4)] obtain g g' where
      "msGroups s (ifGroupId f) = Some g" "s' = s\<lparr>msGroups := (msGroups s)(ifGroupId f \<mapsto> g')\<rparr>"
      and st: "stores H (ifEpochKeys f) (ifBatch f) g g' results" by blast
    moreover from st have "\<not> mgClosed g" "list_all (accepted \<circ> srReason) results"
      "group_log g' = group_log g @
         newRecords (of_nat (Suc (length (group_log g)))) (map settle (ifBatch f))"
      by (auto simp: stores_def passes_def new)
    moreover note stores_length [OF st]
    ultimately show ?thesis by blast
  qed
qed

theorem submit_all_or_nothing_witness:
  "\<exists>s f s' results g g'. reachable id s [f] \<and> submitEnd id 0 s f = Some (s', results) \<and> s' \<noteq> s \<and>
     msGroups s demoGroupId = Some g \<and> msGroups s' demoGroupId = Some g' \<and>
     list_all (accepted \<circ> srReason) results \<and>
     group_log g' = group_log g @
       newRecords (of_nat (Suc (length (group_log g)))) (map settle (ifBatch f))"
proof -
  from demo_flight obtain s f s' results where d: "reachable id s [f]"
    "submitEnd id 0 s f = Some (s', results)" "small s'" "ifGroupId f = demoGroupId" "s' \<noteq> s" .
  with submit_all_or_nothing [OF d(1) _ d(2,3)] obtain g g' where
    "msGroups s demoGroupId = Some g" "s' = s\<lparr>msGroups := (msGroups s)(demoGroupId \<mapsto> g')\<rparr>"
    "list_all (accepted \<circ> srReason) results" "group_log g' = group_log g @
       newRecords (of_nat (Suc (length (group_log g)))) (map settle (ifBatch f))" by auto
  moreover from this(2) have "msGroups s' demoGroupId = Some g'" by simp
  ultimately show ?thesis using d(1,2,5) by blast
qed

text \<open>The record a result names is the record that was submitted.\<close>

definition names :: "hash \<Rightarrow> memoryGroup \<Rightarrow> Record \<Rightarrow> SubmitResult \<Rightarrow> bool" where
  "names H g r res \<longleftrightarrow> (\<exists>x \<in> set (group_log g). rRecordId x = srRecordId res \<and>
     claimKeyOf x = claimKeyOf r \<and> rBodyHash x = rBodyHash r \<and>
     headHash H (rCtHead x) = headHash H (rCtHead r))"

lemma newRecords_nth:
  "i < length ps \<Longrightarrow> \<not> pSettled (ps ! i) \<Longrightarrow>
     stored (assignedIds k ps ! i) (pRecord (ps ! i)) \<in> set (newRecords k ps)"
proof (induction k ps arbitrary: i rule: newRecords.induct)
  case (2 k p ps)
  then show ?case by (cases i) auto
qed simp

lemma assignedIds_settled:
  "i < length ps \<Longrightarrow> pSettled (ps ! i) \<Longrightarrow> assignedIds k ps ! i = srRecordId (pResult (ps ! i))"
proof (induction k ps arbitrary: i rule: assignedIds.induct)
  case (2 k p ps)
  then show ?case by (cases i) auto
qed simp

lemma probed_names:
  assumes "probed H (Some g) p" and "pProbe p = probeIdentical" and "inv_claims H g"
    and "srRecordId res = srRecordId (pResult p)"
  shows "names H g (pRecord p) res"
proof -
  from assms(1,2) obtain c where c: "mgClaims g (claimKeyOf (pRecord p)) = Some c"
    "clBodyHash c = rBodyHash (pRecord p)" "clHeadHash c = headHash H (rCtHead (pRecord p))"
    "srRecordId (pResult p) = clRecordId c"
    by (auto simp: probed_def zeroResult_def)
  from c(1) assms(3) obtain x where "x \<in> set (group_log g)" "claimKeyOf x = claimKeyOf (pRecord p)"
    "clRecordId c = rRecordId x" "clBodyHash c = rBodyHash x" "clHeadHash c = headHash H (rCtHead x)"
    unfolding inv_claims_def by metis
  with c assms(4) show ?thesis unfolding names_def by metis
qed

lemma names_extends: "names H g r res \<Longrightarrow> extends g g' \<Longrightarrow> names H g' r res"
  by (auto simp: names_def extends_def)

lemma accepted_names:
  assumes "reachable H s fs" and "f \<in> set fs" and "submitEnd H now s f = Some (s', results)"
    and "small s'" and "i < length (ifBatch f)" and "accepted (srReason (results ! i))"
  shows "\<exists>g'. msGroups s' (ifGroupId f) = Some g' \<and>
     names H g' (pRecord (ifBatch f ! i)) (results ! i)"
proof -
  note inv = flight_inv [OF assms(1-4)]
  let ?p = "ifBatch f ! i"
  from inv(1) assms(5) have pr: "probed H (flightGroup s f) ?p"
    by (simp add: flight_ok_def batch_ok_def)
  show ?thesis
  proof (cases "\<exists>g. passes (flightGroup s f) (ifEpochKeys f) (ifBatch f) g")
    case False
    with submitEnd_cases [OF assms(3) inv assms(4)] have "s' = s" by (auto simp: stores_def)
    from submitEnd_answers [OF assms(3) inv(1) False] assms(5) have "answers ?p (results ! i)"
      by (simp add: list_all2_conv_all_nth)
    with assms(6) have a: "pProbe ?p = probeIdentical" "srRecordId (results ! i) = srRecordId (pResult ?p)"
      by (auto simp: answers_def split: if_splits)
    with pr obtain g where g: "flightGroup s f = Some g" by (auto simp: probed_def)
    then have "msGroups s (ifGroupId f) = Some g" by (auto simp: flightGroup_def split: if_splits)
    moreover from this inv(2) have "inv_claims H g"
      by (auto simp: groups_inv_def group_inv_def rows_inv_def)
    ultimately show ?thesis using probed_names [of H g ?p "results ! i"] pr a g \<open>s' = s\<close> by auto
  next
    case True
    with submitEnd_cases [OF assms(3) inv assms(4)] obtain g g' where g: "flightGroup s f = Some g"
      "s' = s\<lparr>msGroups := (msGroups s)(ifGroupId f \<mapsto> g')\<rparr>"
      and st: "stores H (ifEpochKeys f) (ifBatch f) g g' results" by blast
    let ?k = "of_nat (Suc (length (group_log g)))" and ?ps = "locked g (ifBatch f)"
    from st have ids: "map srRecordId results = assignedIds ?k ?ps" and e: "extends g g'"
      and log: "group_log g' = group_log g @ newRecords ?k ?ps" and gi: "group_inv H g'"
      by (simp_all add: stores_def)
    have i: "i < length ?ps" using assms(5) by (simp add: locked_def)
    with ids have id: "srRecordId (results ! i) = assignedIds ?k ?ps ! i"
      by (metis length_assignedIds length_map nth_map)
    have p: "pRecord (?ps ! i) = pRecord ?p" "pSettled (?ps ! i) \<longleftrightarrow> pProbe ?p = probeIdentical"
      "srRecordId (pResult (?ps ! i)) = srRecordId (pResult ?p)"
      using assms(5) pr by (auto simp: locked_def setCurrentEpoch_def settle_def probed_def)
    have "names H g' (pRecord ?p) (results ! i)"
    proof (cases "pProbe ?p = probeIdentical")
      case True
      have "srRecordId (results ! i) = srRecordId (pResult ?p)"
        using id assignedIds_settled [OF i, of ?k] p True by simp
      moreover have "inv_claims H g'" using gi by (simp add: group_inv_def rows_inv_def)
      moreover have "probed H (Some g') ?p" using probed_extends [OF _ e] pr g(1) by simp
      ultimately show ?thesis using probed_names True by blast
    next
      case False
      then have "stored (srRecordId (results ! i)) (pRecord ?p) \<in> set (group_log g')"
        using newRecords_nth [OF i, of ?k] p id log by simp
      then show ?thesis unfolding names_def by (rule bexI [rotated]) simp
    qed
    with g(2) show ?thesis by simp
  qed
qed

text \<open>
  C11: An acceptance is never given for a record that is not stored. Every result that accepts names
  a record of the group's log with the submitted record's sender, stream index and body hash and
  with its head's hash, whether it was stored by this submission or is a replay.
\<close>

theorem acceptance_names_stored_record:
  assumes "reachable H s fs" and "f \<in> set fs" and "submitEnd H now s f = Some (s', results)"
    and "small s'" and "i < length (ifBatch f)" and "accepted (srReason (results ! i))"
  shows "\<exists>g'. msGroups s' (ifGroupId f) = Some g' \<and>
     names H g' (pRecord (ifBatch f ! i)) (results ! i)"
  using assms by (rule accepted_names)

theorem acceptance_names_stored_record_witness:
  "\<exists>s f s' results g'. reachable id s [f] \<and> submitEnd id 0 s f = Some (s', results) \<and>
     msGroups s' demoGroupId = Some g' \<and> names id g' (pRecord (ifBatch f ! 0)) (results ! 0) \<and>
     srRecordId (results ! 0) = 3"
proof -
  from demo_flight obtain s f s' results where d: "reachable id s [f]"
    "submitEnd id 0 s f = Some (s', results)" "small s'" "ifGroupId f = demoGroupId"
    "length (ifBatch f) = 1" "map srReason results = [REASON_OK]" "map srRecordId results = [3]" .
  then obtain res where r: "results = [res]" "srReason res = REASON_OK" "srRecordId res = 3" by auto
  with acceptance_names_stored_record [OF d(1) _ d(2,3), of 0] d(4,5) obtain g' where
    "msGroups s' demoGroupId = Some g'" "names id g' (pRecord (ifBatch f ! 0)) (results ! 0)" by auto
  with d(1,2) r show ?thesis by force
qed

end
