(* ===== verification/Store_Retry.thy ===== *)
theory Store_Retry
  imports Store_Answers
begin

text \<open>
  What a retry, a losing commit, a closed group and a full store are told: the paths of
  \<open>Submit\<close> that answer without writing, and the one on which writing cannot fail.
\<close>

section \<open>A concrete record that pins\<close>

definition demoRecovery :: "u64 \<Rightarrow> byte \<Rightarrow> Record" where
  "demoRecovery i key = demoMessage\<lparr> rStreamIndex := i,
     rAttachment := Some (demoAttachment\<lparr> atKind := AttachmentRecovery, atEpoch := None,
       atRecovery := Some \<lparr> rtHandle = replicate 16 4, rtVerifyPub = replicate 32 key, rtAlgId = 1 \<rparr> \<rparr>) \<rparr>"

section \<open>Retries\<close>

lemma inv_claims_unique:
  assumes "group_inv H g" and "x \<in> set (group_log g)"
  obtains c where "mgClaims g (claimKeyOf x) = Some c" and "clRecordId c = rRecordId x"
    and "clBodyHash c = rBodyHash x" and "clHeadHash c = headHash H (rCtHead x)"
proof -
  from assms(1) have i: "inv_claims H g" "inv_streams g" by (auto simp: group_inv_def rows_inv_def)
  from i(1) assms(2) obtain c where c: "mgClaims g (claimKeyOf x) = Some c"
    unfolding inv_claims_def by blast
  with i(1) obtain y where y: "y \<in> set (group_log g)" "claimKeyOf y = claimKeyOf x"
    "clRecordId c = rRecordId y" "clBodyHash c = rBodyHash y" "clHeadHash c = headHash H (rCtHead y)"
    unfolding inv_claims_def by blast
  have "sorted_wrt (\<lambda>r r'. claimKeyOf r \<noteq> claimKeyOf r') (group_log g)"
    using i(2) unfolding inv_streams_def
    by (rule sorted_wrt_mono_rel [rotated]) (auto simp: claimKeyOf_def)
  then have "distinct (map claimKeyOf (group_log g))" by (rule distinct_map_sorted_wrt)
  with y(1,2) assms(2) have "y = x" by (metis distinct_map inj_onD)
  with c y that show ?thesis by blast
qed

text \<open>A record that is stored is found by the probe, with the id it was stored under.\<close>

lemma probe_names:
  assumes "group_inv H g" and "names H g r res"
  shows "probeOne H g (newPending r) = (newPending r)\<lparr>pProbe := probeIdentical,
     pResult := zeroResult\<lparr>srRecordId := srRecordId res\<rparr>\<rparr>"
proof -
  from assms(2) obtain x where x: "x \<in> set (group_log g)" "rRecordId x = srRecordId res"
    "claimKeyOf x = claimKeyOf r" "rBodyHash x = rBodyHash r"
    "headHash H (rCtHead x) = headHash H (rCtHead r)" by (auto simp: names_def)
  from inv_claims_unique [OF assms(1) x(1)] obtain c where
    "mgClaims g (claimKeyOf x) = Some c" "clRecordId c = rRecordId x"
    "clBodyHash c = rBodyHash x" "clHeadHash c = headHash H (rCtHead x)" .
  with x show ?thesis by (simp add: probeOne_def newPending_def zeroResult_def)
qed

lemma replay_names:
  assumes "group_inv H g" and "msGroups s (sqGroupId q) = Some g"
    and "length (sqGroupId q) = GroupIdBytes" and "sqRecords q \<noteq> []"
    and "\<forall>r \<in> set (sqRecords q). validateRecord r = None"
    and "(\<forall>r \<in> set (sqRecords q). \<not> rIsCommit r) \<or> length (sqRecords q) = 1"
    and "list_all2 (names H g) (sqRecords q) results"
  shows "\<exists>results'. Submit H None now s q = Some (s, Inr results') \<and>
     map srRecordId results' = map srRecordId results \<and> list_all (\<lambda>r. srReason r = REASON_OK) results'"
proof -
  have len: "length results = length (sqRecords q)" using assms(7) by (simp add: list_all2_lengthD)
  define ps where "ps = map (probeOne H g \<circ> newPending) (sqRecords q)"
  have ps: "length ps = length (sqRecords q)" "\<And>i. i < length ps \<Longrightarrow> ps ! i =
      (newPending (sqRecords q ! i))\<lparr>pProbe := probeIdentical,
        pResult := zeroResult\<lparr>srRecordId := srRecordId (results ! i)\<rparr>\<rparr>"
    using assms(7) probe_names [OF assms(1)] by (simp_all add: ps_def list_all2_conv_all_nth)
  then have id: "\<forall>p \<in> set ps. pProbe p = probeIdentical \<and> \<not> pSettled p"
    by (auto simp: in_set_conv_nth newPending_def)
  have f: "submitBegin H None s q = Inr \<lparr> ifGroupId = sqGroupId q, ifFound = True,
      ifEpochKeys = sqEpochKeys q, ifBatch = ps \<rparr>"
    using assms(2-6) by (simp add: submitBegin_Inr probe_def ps_def)
  define rs where "rs = resultsOf (fillCurrentEpoch (Some g) (map settle ps))"
  have "first_index (\<lambda>p. pProbe p = probeDiffers) 0 ps = None"
    using id by (auto simp: first_index_None)
  moreover have "list_all pSettled (map settle ps)" using id all_settled [of ps] by blast
  ultimately have "submitGroup H (msLimits s) now (Some g) (sqEpochKeys q) ps = Some (Some g, rs)"
    unfolding rs_def by (rule submitGroup_paths(2))
  then have "Submit H None now s q = Some (s, Inr rs)"
    using f assms(2) by (simp add: Submit_def submitEnd_def fun_upd_idem)
  moreover have lr: "length rs = length ps" by (simp add: rs_def fill_nth)
  have nth: "srReason (rs ! i) = REASON_OK \<and> srRecordId (rs ! i) = srRecordId (results ! i)"
    if "i < length ps" for i
    using that ps(2) [OF that]
    by (simp add: rs_def resultsOf_nth fill_nth settle_def zeroResult_def)
  have "map srRecordId rs = map srRecordId results"
    using nth len lr ps(1) by (intro nth_equalityI) simp_all
  moreover have "list_all (\<lambda>r. srReason r = REASON_OK) rs"
    using nth lr by (auto simp: list_all_length)
  ultimately show ?thesis by blast
qed

text \<open>
  C2: A retry is safe. A request that was accepted once is, at any later moment and whatever else
  happened, a close of the group included, answered \<open>REASON_OK\<close> with the very ids it was given and
  changes nothing.
\<close>

theorem idempotent_replay:
  assumes "reachable H s fs" and "Submit H None now s q = Some (s1, Inr results)"
    and "list_all (accepted \<circ> srReason) results"
    and "(store_step H)\<^sup>*\<^sup>* (s1, fs) (s2, fs2)" and "small s2"
  shows "\<exists>results'. Submit H None now' s2 q = Some (s2, Inr results') \<and>
     map srRecordId results' = map srRecordId results \<and> list_all (\<lambda>r. srReason r = REASON_OK) results'"
proof -
  from assms(2) obtain f where f: "submitBegin H None s q = Inr f"
    "submitEnd H now s f = Some (s1, results)" by (auto simp: Submit_def split: sum.splits)
  note ok = submitBegin_ok [OF f(1)]
  have rf: "reachable H s (f # fs)"
    using reachable_steps [OF assms(1)] store_step.begin_submit [OF f(1)] by blast
  have r1: "reachable H s1 fs"
    using reachable_steps [OF assms(1) Submit_steps [OF assms(2)]] .
  obtain x where "store_start x" "(store_step H)\<^sup>*\<^sup>* x (s1, fs)" using r1 by (auto simp: reachable_def)
  then have "sys_inv H (s1, fs)" by (rule store.inv_reachable)
  from steps_extend [OF assms(4) this] assms(5) have ext: "store_extends s1 s2" by simp
  then have sm1: "small s1" using assms(5) by (rule store_extends_small)
  have len: "length results = length (ifBatch f)"
    using submit_answer_length [OF rf _ f(2) sm1] by simp
  have "\<exists>g. msGroups s1 (sqGroupId q) = Some g \<and> list_all2 (names H g) (sqRecords q) results"
  proof -
    have n: "\<exists>g. msGroups s1 (sqGroupId q) = Some g \<and> names H g (sqRecords q ! i) (results ! i)"
      if "i < length (ifBatch f)" for i
    proof -
      have "accepted (srReason (results ! i))" using assms(3) that len by (simp add: list_all_length)
      from accepted_names [OF rf _ f(2) sm1 that this] show ?thesis
        using ok(2,3) that by (metis list.set_intros(1) nth_map)
    qed
    have "ifBatch f \<noteq> []" using ok(1) by (simp add: flight_ok_def batch_ok_def)
    with n obtain g where "msGroups s1 (sqGroupId q) = Some g" by blast
    moreover with n have "list_all2 (names H g) (sqRecords q) results"
      using len ok(2) by (metis (no_types, lifting) length_map list_all2_all_nthI option.inject)
    ultimately show ?thesis by blast
  qed
  then obtain g where g: "msGroups s1 (sqGroupId q) = Some g"
    "list_all2 (names H g) (sqRecords q) results" by blast
  with ext obtain g2 where g2: "msGroups s2 (sqGroupId q) = Some g2" "extends g g2"
    by (auto simp: store_extends_def)
  have "list_all2 (names H g2) (sqRecords q) results"
    using g(2) names_extends [OF _ g2(2)] by (rule list_all2_mono)
  moreover have "group_inv H g2"
    using reachable_group(1) [OF reachable_steps [OF r1 assms(4)] assms(5) g2(1)] .
  ultimately show ?thesis
    using f(1) [unfolded submitBegin_Inr] g2(1) by (intro replay_names) auto
qed

theorem idempotent_replay_witness:
  "\<exists>s s1 s2 results results'. Submit id None 0 s (demoSubmit [demoMessage]) = Some (s1, Inr results) \<and>
     map srRecordId results = [3] \<and> s1 \<noteq> s \<and> CloseGroup None 0 s1 demoGroupId = (s2, None) \<and>
     Submit id None 1 s2 (demoSubmit [demoMessage]) = Some (s2, Inr results') \<and>
     map srRecordId results' = [3] \<and> list_all (\<lambda>r. srReason r = REASON_OK) results'"
proof -
  have "some_sat (\<lambda>s. some_sat (\<lambda>(s1, answer). right_sat (\<lambda>results.
       some_sat (\<lambda>g. some_sat (\<lambda>g1. length (group_log g) = 2 \<and> length (group_log g1) = 3 \<and>
         \<not> mgClosed g1 \<and> map srReason results = [REASON_OK] \<and> map srRecordId results = [3])
       (msGroups s1 demoGroupId)) (msGroups s demoGroupId)) answer)
       (Submit id None 0 s (demoSubmit [demoMessage]))) (demoRun [demoMarker])"
    by code_simp
  then obtain s s1 results g g1 where d: "demoRun [demoMarker] = Some s"
    "Submit id None 0 s (demoSubmit [demoMessage]) = Some (s1, Inr results)"
    "msGroups s demoGroupId = Some g" "msGroups s1 demoGroupId = Some g1"
    "length (group_log g) = 2" "length (group_log g1) = 3" "\<not> mgClosed g1"
    "map srReason results = [REASON_OK]" "map srRecordId results = [3]"
    by (auto simp: sat_iff)
  from demoRun_reachable [OF d(1,3)] d(5) have r: "reachable id s []" by simp
  let ?s2 = "s1\<lparr>msGroups := (msGroups s1)(demoGroupId \<mapsto> g1\<lparr>mgClosed := True, mgCloseTime := 0\<rparr>)\<rparr>"
  have c: "CloseGroup None 0 s1 demoGroupId = (?s2, None)"
    using d(4,7) by (simp add: CloseGroup_def demoGroupId_def shape_defs or_else_def checkLength_def)
  have st: "(store_step id)\<^sup>*\<^sup>* (s1, []) (?s2, [])"
    using store_step.close [OF c] by blast
  have "dom (msGroups s1) \<subseteq> {demoGroupId}" using Submit_dom [OF d(2)] demoRun_dom [OF d(1)] by blast
  then have "small ?s2" using d(6) by (auto simp: small_def)
  moreover have "list_all (accepted \<circ> srReason) results" using d(8) by (auto simp: accepted_def)
  ultimately obtain results' where "Submit id None 1 ?s2 (demoSubmit [demoMessage]) = Some (?s2, Inr results')"
    "map srRecordId results' = map srRecordId results" "list_all (\<lambda>r. srReason r = REASON_OK) results'"
    using idempotent_replay [OF r d(2) _ st, of 1] by blast
  moreover have "s1 \<noteq> s" using d(3-6) by auto
  ultimately show ?thesis using d(2,9) c by (intro exI [of _ s] exI [of _ s1] exI [of _ ?s2]) force
qed

section \<open>Losing commits\<close>

text \<open>
  C12: The loser of a commit race is told so and handed the winner. A new commit for an epoch that
  already has one is answered \<open>REASON_COMMIT_LOST\<close> with no id, the group's current epoch and
  exactly the commit the log holds for that epoch, however far the group has moved on; nothing is
  written.
\<close>

theorem commit_loser_gets_winner:
  assumes "reachable H s fs" and "small s" and "msGroups s gid = Some g" and "\<not> mgClosed g"
    and "validateRecord r = None" and "rIsCommit r" and "rEpoch r < mgCurrentEpoch g"
    and "mgClaims g (claimKeyOf r) = None"
  shows "\<exists>winner \<in> set (group_log g). rIsCommit winner \<and> rEpoch winner = rEpoch r \<and>
     Submit H None now s \<lparr> sqGroupId = gid, sqRecords = [r], sqEpochKeys = keys \<rparr> =
       Some (s, Inr [\<lparr> srReason = REASON_COMMIT_LOST, srRecordId = 0,
         srCurrentEpoch = mgCurrentEpoch g, srWinningCommit = Some winner, srApplied = None \<rparr>])"
proof -
  note r = reachable_group [OF assms(1-3)]
  have one: "mgCurrentEpoch g \<noteq> 0"
    using r(1) by (auto simp: group_inv_def rows_inv_def inv_epochs_def)
  have "commit_ok (mgCurrentEpoch g) (group_log g) (rEpoch r) (mgCommits g (rEpoch r))"
    using r(1) by (simp add: group_inv_def rows_inv_def inv_commits_def)
  with assms(7) obtain row where row: "mgCommits g (rEpoch r) = Some row"
    "cmRecord row \<in> set (group_log g)" "rIsCommit (cmRecord row)" "rEpoch (cmRecord row) = rEpoch r"
    by (auto simp: commit_ok_def split: option.splits)
  let ?f = "\<lparr> ifGroupId = gid, ifFound = True, ifEpochKeys = keys, ifBatch = [newPending r] \<rparr>"
  have "submitBegin H None s \<lparr> sqGroupId = gid, sqRecords = [r], sqEpochKeys = keys \<rparr> = Inr ?f"
    using assms(3,5,8) r(3) by (simp add: submitBegin_Inr probe_def probeOne_def newPending_def)
  moreover have "submitGroup H (msLimits s) now (Some g) keys [newPending r] = Some (Some g,
      [\<lparr> srReason = REASON_COMMIT_LOST, srRecordId = 0, srCurrentEpoch = mgCurrentEpoch g,
         srWinningCommit = Some (cmRecord row), srApplied = None \<rparr>])"
    using assms(4,6) row(1) one
    by (simp add: submitGroup_def newPending_def settle_def setCurrentEpoch_def gate_def state_def
        refuseBatch_def refuseOne_def setReason_def fillCurrentEpoch_def fillOne_def resultsOf_def
        zeroResult_def)
  ultimately show ?thesis using row(2-4) assms(3)
    by (intro bexI [of _ "cmRecord row"]) (simp_all add: Submit_def submitEnd_def fun_upd_idem)
qed

theorem commit_loser_gets_winner_witness:
  "\<exists>s. reachable id s [] \<and>
     Submit id None 0 s (demoSubmit [demoCommit\<lparr>rStreamIndex := 9\<rparr>]) =
       Some (s, Inr [\<lparr> srReason = REASON_COMMIT_LOST, srRecordId = 0, srCurrentEpoch = 1,
         srWinningCommit = Some (stored 1 demoCommit), srApplied = None \<rparr>])"
proof -
  let ?r = "demoCommit\<lparr>rStreamIndex := 9\<rparr>"
  have "some_sat (\<lambda>s. some_sat (\<lambda>g. \<not> mgClosed g \<and> mgCurrentEpoch g = 1 \<and> mgClaims g (claimKeyOf ?r) = None \<and>
      group_log g = [stored 1 demoCommit]) (msGroups s demoGroupId)) (demoRun [])"
    by code_simp
  then obtain s g where d: "demoRun [] = Some s" "msGroups s demoGroupId = Some g" "\<not> mgClosed g"
    "mgCurrentEpoch g = 1" "mgClaims g (claimKeyOf ?r) = None" "group_log g = [stored 1 demoCommit]"
    by (auto simp: sat_iff)
  from demoRun_reachable [OF d(1,2)] d(6) have r: "reachable id s []" "small s" by simp_all
  have "validateRecord ?r = None" by code_simp
  moreover have "rIsCommit ?r" "rEpoch ?r < mgCurrentEpoch g" using d(4) by (simp_all add: demo_defs)
  ultimately show ?thesis
    using commit_loser_gets_winner [OF r d(2,3) _ _ _ d(5), of 0 None] d(4,6) r(1)
    by (auto simp: demoSubmit_def)
qed

section \<open>Closed groups\<close>

text \<open>The store without one of its groups.\<close>

definition without :: "MemoryStore \<Rightarrow> bytes \<Rightarrow> MemoryStore" where
  "without s gid = s\<lparr>msGroups := (msGroups s)(gid := None)\<rparr>"

lemma probe_fresh:
  assumes "\<forall>r \<in> set rs. mgClaims g (claimKeyOf r) = None"
  shows "probe H (Some g) (map newPending rs) = map newPending rs"
  using assms by (auto simp: probe_def probeOne_def newPending_def)

lemma refused_unavailable:
  assumes "case grp of None \<Rightarrow> True | Some g \<Rightarrow> mgClosed g" and "rs \<noteq> []"
  shows "submitGroup H limits now grp keys (map newPending rs) =
     Some (grp, map (\<lambda>r. zeroResult\<lparr>srReason := REASON_REJECTED\<rparr>) rs)"
proof -
  have nd: "first_index (\<lambda>p. pProbe p = probeDiffers) 0 (map newPending rs) = None"
    by (simp add: first_index_None newPending_def)
  have ns: "\<not> list_all pSettled (map settle (map newPending rs))"
    using assms(2) by (cases rs) (simp_all add: newPending_def settle_def)
  have "refuseUnavailable (map settle (map newPending rs)) =
      map (\<lambda>r. zeroResult\<lparr>srReason := REASON_REJECTED\<rparr>) rs"
    by (simp add: refuseUnavailable_def resultsOf_def newPending_def zeroResult_def settle_def)
  with submitGroup_paths(3,4) [OF nd ns] assms(1) show ?thesis
    by (cases grp) (simp_all del: map_map)
qed

text \<open>
  C22: A closed group cannot be told from one that never existed. The status read, the key read, the
  fetch and the close answer the same error in both cases, and a submission none of whose records
  was stored before is answered the same results, field by field, with no epoch and no winner.
\<close>

theorem closed_like_unknown:
  assumes "msGroups s gid = Some g" and "mgClosed g"
    and "\<forall>r \<in> set (sqRecords q). mgClaims g (claimKeyOf r) = None" and "sqGroupId q = gid"
    and "fqGroupId fq = gid"
  shows "MemoryStore_GroupState ctx s gid = MemoryStore_GroupState ctx (without s gid) gid
    \<and> MemoryStore_EpochKeys ctx s gid e = MemoryStore_EpochKeys ctx (without s gid) gid e
    \<and> Fetch ctx s fq = Fetch ctx (without s gid) fq
    \<and> snd (CloseGroup ctx now s gid) = snd (CloseGroup ctx now (without s gid) gid)
    \<and> map_option snd (Submit H ctx now s q) = map_option snd (Submit H ctx now (without s gid) q)"
proof -
  let ?s = "without s gid"
  have n: "msGroups ?s gid = None" "msLimits ?s = msLimits s" by (simp_all add: without_def)
  note p = probe_fresh [OF assms(3), of H] and n
  have "map_option snd (Submit H ctx now s q) = map_option snd (Submit H ctx now ?s q)"
  proof (cases "submitBegin H ctx s q")
    case (Inl e)
    then have "submitBegin H ctx ?s q = Inl e" by (auto simp: submitBegin_def guard_Inl Let_def)
    with Inl show ?thesis by (simp add: Submit_def)
  next
    case (Inr f)
    then have b: "f = \<lparr> ifGroupId = gid, ifFound = True, ifEpochKeys = sqEpochKeys q,
        ifBatch = map newPending (sqRecords q) \<rparr>" "sqRecords q \<noteq> []"
      "submitBegin H ctx ?s q = Inr (f\<lparr>ifFound := False\<rparr>)"
      using assms(1,4) p n by (auto simp: submitBegin_Inr probe_def [of H None])
    have "submitGroup H (msLimits s) now (Some g) (sqEpochKeys q) (map newPending (sqRecords q)) =
        Some (Some g, map (\<lambda>r. zeroResult\<lparr>srReason := REASON_REJECTED\<rparr>) (sqRecords q))"
      "submitGroup H (msLimits s) now None (sqEpochKeys q) (map newPending (sqRecords q)) =
        Some (None, map (\<lambda>r. zeroResult\<lparr>srReason := REASON_REJECTED\<rparr>) (sqRecords q))"
      using refused_unavailable [OF _ b(2)] assms(2) by simp_all
    with Inr b assms(1) n show ?thesis by (simp add: Submit_def submitEnd_def)
  qed
  moreover have "snd (CloseGroup ctx now s gid) = snd (CloseGroup ctx now ?s gid)"
    using assms(1,2) n
    by (cases "or_else (ctxErr ctx) (checkLength gid GroupIdBytes)") (simp_all add: CloseGroup_def del: or_else_None)
  ultimately show ?thesis using assms n by (simp add: MemoryStore_GroupState_def MemoryStore_EpochKeys_def Fetch_def)
qed

theorem closed_like_unknown_witness:
  "\<exists>s g. msGroups s demoGroupId = Some g \<and> mgClosed g \<and> group_log g \<noteq> [] \<and>
     map_option snd (Submit id None 0 s (demoSubmit [demoMarker])) =
       map_option snd (Submit id None 0 (without s demoGroupId) (demoSubmit [demoMarker]))"
proof -
  have "some_sat (\<lambda>s. some_sat (\<lambda>g. mgClosed g \<and> mgClaims g (claimKeyOf demoMarker) = None \<and>
      group_log g \<noteq> []) (msGroups (fst (CloseGroup None 0 s demoGroupId)) demoGroupId)) (demoRun [])"
    by code_simp
  then obtain s0 g where d: "msGroups (fst (CloseGroup None 0 s0 demoGroupId)) demoGroupId = Some g"
    "mgClosed g" "mgClaims g (claimKeyOf demoMarker) = None" "group_log g \<noteq> []"
    by (auto simp: sat_iff)
  from closed_like_unknown [OF d(1,2), of "demoSubmit [demoMarker]"
      "\<lparr> fqGroupId = demoGroupId, fqSinceRecordId = 0, fqLimit = 0, fqHeadsOnly = False,
         fqClassMask = 0, fqReadEpoch = 0 \<rparr>" None 0 0 id] d
  show ?thesis
    by (intro exI [of _ "fst (CloseGroup None 0 s0 demoGroupId)"] exI [of _ g]) (simp add: demoSubmit_def)
qed

text \<open>
  A close is final. Once a group is closed no step of any run, an already begun submission
  included, changes anything of it.
\<close>

theorem closed_is_frozen:
  assumes "reachable H s fs" and "(store_step H)\<^sup>*\<^sup>* (s, fs) (s', fs')" and "small s'"
    and "msGroups s gid = Some g" and "mgClosed g"
  shows "msGroups s' gid = Some g"
  using assms(2,3)
proof (induction "(s', fs')" arbitrary: s' fs' rule: rtranclp_induct)
  case base
  then show ?case using assms(4) by simp
next
  case (step y)
  obtain s1 fs1 where y: "y = (s1, fs1)" by (cases y)
  have r1: "reachable H s1 fs1" using reachable_steps [OF assms(1)] step(1) y by simp
  obtain x where "store_start x" "(store_step H)\<^sup>*\<^sup>* x y" using r1 y by (auto simp: reachable_def)
  then have si: "sys_inv H y" by (rule store.inv_reachable)
  have ext: "store_extends s1 s'" using store_step_keeps [OF step(2) si] step.prems y by simp
  have sm: "small s1" using store_extends_small [OF ext step.prems] .
  have g1: "msGroups s1 gid = Some g" using step(3) [OF y sm] .
  from step(2) show ?case unfolding y
  proof (cases rule: store_step.cases)
    case (create ctx now q r)
    from create(2) show ?thesis using g1 by (cases rule: CreateGroup_cases) auto
  next
    case (close ctx now gid' e)
    with CloseGroup_cases [OF close(2)] g1 assms(5) show ?thesis by auto
  next
    case begin_submit
    then show ?thesis using g1 by simp
  next
    case (end_submit f now results)
    note ok = flight_inv [OF r1 end_submit(2) end_submit(3) step.prems]
    from submitEnd_cases [OF end_submit(3) ok step.prems] g1 assms(5) show ?thesis
      by (auto simp: stores_def passes_def)
  qed
qed

theorem closed_is_frozen_witness:
  "\<exists>s f s' results g. reachable id s [f] \<and> msGroups s demoGroupId = Some g \<and> mgClosed g \<and>
     submitEnd id 0 s f = Some (s', results) \<and> msGroups s' demoGroupId = Some g"
proof -
  from demo_flight obtain s f g where d: "reachable id s [f]"
    "\<forall>gid g. msGroups s gid = Some g \<longrightarrow> length (group_log g) = 2" "length (ifBatch f) = 1"
    "msGroups s demoGroupId = Some g" "\<not> mgClosed g" "ifGroupId f = demoGroupId" by metis
  let ?g = "g\<lparr>mgClosed := True, mgCloseTime := 0\<rparr>"
  let ?s = "s\<lparr>msGroups := (msGroups s)(demoGroupId \<mapsto> ?g)\<rparr>"
  have "CloseGroup None 0 s demoGroupId = (?s, None)"
    using d(4,5) by (simp add: CloseGroup_def demoGroupId_def shape_defs or_else_def checkLength_def)
  then have r: "reachable id ?s [f]" using store_step.close reachable_steps [OF d(1)] by blast
  have len: "length (group_log g') = 2" if "msGroups ?s gid = Some g'" for gid g'
    using that d(2,4) by (auto split: if_splits)
  then have sm: "small ?s" by (simp add: small_def)
  have np: "\<nexists>g. passes (flightGroup ?s f) (ifEpochKeys f) (ifBatch f) g"
    using d(6) by (auto simp: passes_def flightGroup_def)
  have "flight_ok id ?s f" using reachable_inv(2) [OF r sm] by simp
  then have "\<forall>p \<in> set (ifBatch f). \<not> pSettled p" by (simp add: flight_ok_def batch_ok_def probed_def)
  from submitGroup_refused [OF this np, of id "msLimits s" 0] obtain results where
    e: "submitEnd id 0 ?s f = Some (?s, results)"
    using d(6) by (auto simp: submitEnd_def flightGroup_def split: if_splits)
  have step: "(store_step id)\<^sup>*\<^sup>* (?s, [f]) (?s, [])"
    using store_step.end_submit [OF _ e, of "[f]"] by auto
  from closed_is_frozen [OF r step sm, of demoGroupId ?g] r e show ?thesis
    by (intro exI [of _ ?s] exI [of _ f] exI [of _ ?s] exI [of _ results] exI [of _ ?g]) simp
qed

section \<open>No request makes the store panic\<close>



section \<open>Recovery pins\<close>

text \<open>
  C19: A recovery handle is trusted on first use and never rebound. All records of a group that
  carry a handle carry one key, in one batch or in many, and it is the key the group's row holds.
\<close>

theorem recovery_pinned:
  assumes "reachable H s fs" and "small s" and "msGroups s gid = Some g"
    and "r \<in> set (group_log g)" and "recoveryTagOf r = Some tag"
    and "r' \<in> set (group_log g)" and "recoveryTagOf r' = Some tag'" and "rtHandle tag' = rtHandle tag"
  shows "rtVerifyPub tag' = rtVerifyPub tag \<and>
     map_option rcVerifyPub (mgRecovery g (rtHandle tag)) = Some (rtVerifyPub tag)"
proof -
  from reachable_group(1) [OF assms(1-3)] have i: "inv_recovery g" by (simp add: group_inv_def rows_inv_def)
  have "map_option rcVerifyPub (mgRecovery g (rtHandle tag)) = Some (rtVerifyPub tag)"
    using i assms(4,5) unfolding inv_recovery_def by blast
  moreover have "map_option rcVerifyPub (mgRecovery g (rtHandle tag')) = Some (rtVerifyPub tag')"
    using i assms(6,7) unfolding inv_recovery_def by blast
  ultimately show ?thesis using assms(8) by auto
qed

theorem recovery_pinned_witness:
  "\<exists>s g. reachable id s [] \<and> msGroups s demoGroupId = Some g \<and>
     map rRecordId (group_log g) = [1, 2, 3, 4] \<and>
     map_option rcVerifyPub (mgRecovery g (replicate 16 4)) = Some (replicate 32 1)"
proof -
  let ?rs = "[demoMarker, demoRecovery 3 1, demoRecovery 4 2, demoRecovery 5 1]"
  have "some_sat (\<lambda>s. some_sat (\<lambda>g. map rRecordId (group_log g) = [1, 2, 3, 4] \<and>
      group_log g ! 2 = stored 3 (demoRecovery 3 1)) (msGroups s demoGroupId)) (demoRun ?rs)"
    by code_simp
  then obtain s g where d: "demoRun ?rs = Some s" "msGroups s demoGroupId = Some g"
    "map rRecordId (group_log g) = [1, 2, 3, 4]" "group_log g ! 2 = stored 3 (demoRecovery 3 1)"
    by (auto simp: sat_iff)
  have len: "length (group_log g) = 4" using arg_cong [OF d(3), of length] by simp
  with demoRun_reachable [OF d(1,2)] have r: "reachable id s []" "small s" by simp_all
  have m: "stored 3 (demoRecovery 3 1) \<in> set (group_log g)"
    using d(4) len nth_mem [of 2 "group_log g"] by simp
  have t: "recoveryTagOf (stored 3 (demoRecovery 3 1)) =
      Some \<lparr> rtHandle = replicate 16 4, rtVerifyPub = replicate 32 1, rtAlgId = 1 \<rparr>"
    by (simp add: recoveryTagOf_def attachmentKindOf_def demoRecovery_def demo_defs stored_def)
  from recovery_pinned [OF r d(2) m t m t] d r show ?thesis by auto
qed

end
