(* ===== verification/Store_Fetch.thy ===== *)
theory Store_Fetch
  imports Store_Properties
begin

text \<open>
  Reading a group (\<open>Fetch\<close>): the two loops equal a filter and a prefix, a reader who pages until
  \<open>Complete\<close> has read everything its ceiling allows, once and in order, and the high water is the
  group's own under that ceiling.
\<close>

section \<open>A page as a filter and a prefix\<close>

definition visible :: "FetchRequest \<Rightarrow> recordRow \<Rightarrow> bool" where
  "visible q row \<longleftrightarrow> rEpoch (rrRecord row) \<le> fqReadEpoch q"

definition wanted :: "FetchRequest \<Rightarrow> recordRow \<Rightarrow> bool" where
  "wanted q row \<longleftrightarrow> visible q row \<and> fqSinceRecordId q < rRecordId (rrRecord row) \<and>
     classIncluded (fqClassMask q) (rRetentionClass (rrRecord row))"

definition page :: "FetchRequest \<Rightarrow> nat \<Rightarrow> recordRow list \<Rightarrow> recordRow list" where
  "page q taken rows =
     (if fqLimit q = 0 then filter (wanted q) rows
      else take (unat (fqLimit q) - taken) (filter (wanted q) rows))"

definition fetch_spec :: "FetchRequest \<Rightarrow> recordRow list \<Rightarrow> FetchResult" where
  "fetch_spec q rows =
     \<lparr> frRecords = map (\<lambda>row. read row (fqHeadsOnly q)) (page q 0 rows),
       frNextRecordId = (if page q 0 rows = [] then fqSinceRecordId q
                         else rRecordId (rrRecord (last (page q 0 rows)))),
       frHighWaterRecordId = Max (insert 0 (rRecordId ` rrRecord ` set (filter (visible q) rows))),
       frComplete = (fqLimit q = 0 \<or> length (filter (wanted q) rows) \<le> unat (fqLimit q)) \<rparr>"

lemma of_nat_eq_limit:
  fixes limit :: u32
  assumes "n \<le> unat limit"
  shows "(of_nat n = limit) \<longleftrightarrow> n = unat limit"
proof -
  have "unat limit < 2 ^ 32" by (rule order.strict_trans2 [OF unsigned_less]) simp
  then have "n < 2 ^ 32" using assms by simp
  then have "unat (of_nat n :: u32) = n" by (simp add: unat_of_nat)
  then show ?thesis by (auto simp: word_unat_eq_iff)
qed

lemma page_Cons:
  "\<not> wanted q row \<Longrightarrow> page q taken (row # rows) = page q taken rows"
  "wanted q row \<Longrightarrow> fqLimit q = 0 \<or> taken < unat (fqLimit q) \<Longrightarrow>
     page q taken (row # rows) = row # page q (Suc taken) rows"
  by (auto simp: page_def Suc_diff_Suc take_Cons')

lemma fetchLoop_page:
  assumes "fqLimit q \<noteq> 0 \<longrightarrow> length (frRecords result) \<le> unat (fqLimit q)" and "frComplete result"
  shows "fetchLoop q result rows =
    (let pg = page q (length (frRecords result)) rows
     in result\<lparr> frRecords := frRecords result @ map (\<lambda>row. read row (fqHeadsOnly q)) pg,
               frNextRecordId := (if pg = [] then frNextRecordId result
                                  else rRecordId (rrRecord (last pg))),
               frComplete := (fqLimit q = 0 \<or>
                  length (frRecords result) + length (filter (wanted q) rows) \<le> unat (fqLimit q)) \<rparr>)"
  using assms
proof (induction rows arbitrary: result)
  case Nil
  then show ?case by (auto simp: page_def Let_def)
next
  case (Cons row rows)
  show ?case
  proof (cases "wanted q row")
    case False
    then have "fetchLoop q result (row # rows) = fetchLoop q result rows"
      by (auto simp: wanted_def visible_def not_le not_less)
    with Cons False show ?thesis by (simp add: page_Cons)
  next
    case w: True
    show ?thesis
    proof (cases "fqLimit q \<noteq> 0 \<and> length (frRecords result) = unat (fqLimit q)")
      case True
      then have "fetchLoop q result (row # rows) = result\<lparr>frComplete := False\<rparr>"
        using w by (auto simp: wanted_def visible_def)
      with True w show ?thesis by (simp add: page_def Let_def)
    next
      case False
      let ?r = "result\<lparr>frRecords := frRecords result @ [read row (fqHeadsOnly q)],
                frNextRecordId := rRecordId (rrRecord row)\<rparr>"
      have room: "fqLimit q = 0 \<or> length (frRecords result) < unat (fqLimit q)"
        using False Cons.prems(1) by auto
      then have "fetchLoop q result (row # rows) = fetchLoop q ?r rows"
        using w False Cons.prems(1) by (auto simp: wanted_def visible_def of_nat_eq_limit)
      moreover note Cons.IH [of ?r]
      ultimately show ?thesis
        using Cons.prems room w by (auto simp: page_Cons(2) [OF w room] Let_def)
    qed
  qed
qed

lemma highWaterLoop_Max:
  "highWaterLoop e acc rows =
     Max (insert acc (rRecordId ` rrRecord ` set (filter (\<lambda>row. rEpoch (rrRecord row) \<le> e) rows)))"
proof (induction rows arbitrary: acc)
  case (Cons row rows)
  show ?case
  proof (cases "rEpoch (rrRecord row) \<le> e")
    case True
    let ?S = "rRecordId ` rrRecord ` set (filter (\<lambda>row. rEpoch (rrRecord row) \<le> e) rows)"
    have "Max (insert (max acc (rRecordId (rrRecord row))) ?S) =
        Max (insert acc (insert (rRecordId (rrRecord row)) ?S))"
      by (cases "?S = {}") (simp_all add: max.assoc)
    with True Cons show ?thesis by simp
  next
    case False
    with Cons show ?thesis by simp
  qed
qed simp

lemma Fetch_open:
  assumes "msGroups s (fqGroupId q) = Some g" and "\<not> mgClosed g" and "length (fqGroupId q) = GroupIdBytes"
  shows "Fetch None s q = Inr (fetch_spec q (mgRecords g))"
proof -
  let ?r = "\<lparr> frRecords = [], frNextRecordId = fqSinceRecordId q,
     frHighWaterRecordId = highWaterLoop (fqReadEpoch q) 0 (mgRecords g), frComplete = True \<rparr>"
  have v: "visible q = (\<lambda>row. rEpoch (rrRecord row) \<le> fqReadEpoch q)"
    by (simp add: fun_eq_iff visible_def)
  have "Fetch None s q = Inr (fetchLoop q ?r (mgRecords g))"
    using assms by (simp add: Fetch_def)
  also have "fetchLoop q ?r (mgRecords g) = fetch_spec q (mgRecords g)"
    by (subst fetchLoop_page) (simp_all add: fetch_spec_def Let_def highWaterLoop_Max v)
  finally show ?thesis .
qed

lemma record_id_nth:
  assumes "group_inv H g" and "i < length (mgRecords g)"
  shows "rRecordId (rrRecord (mgRecords g ! i)) = of_nat (Suc i)"
  using assms by (simp add: group_inv_def rows_inv_def inv_ids_def group_log_def)

section \<open>Paging\<close>

text \<open>What paging needs of a log: its rows are in the order of their keys.\<close>

locale ordered_log =
  fixes rows :: "'g \<Rightarrow> 'r list" and key :: "'r \<Rightarrow> 'k::linorder" and ok :: "'g \<Rightarrow> bool"
  assumes rows_sorted: "ok g \<Longrightarrow> sorted_wrt (\<lambda>x y. key x < key y) (rows g)"
begin

lemma after_last:
  assumes "ok g" and "0 < n" and "n < length (filter P (rows g))"
  shows "filter (\<lambda>x. P x \<and> key (last (take n (filter P (rows g)))) < key x) (rows g)
    = drop n (filter P (rows g))"
proof -
  let ?f = "filter P (rows g)"
  have s: "sorted_wrt (\<lambda>x y. key x < key y) ?f"
    using rows_sorted [OF assms(1)] by (rule sorted_wrt_filter)
  have l: "last (take n ?f) = ?f ! (n - 1)" using assms(2,3) by (subst last_conv_nth) (auto simp: min_def)
  have split: "?f = take n ?f @ drop n ?f" by simp
  have "filter (\<lambda>x. key (?f ! (n - 1)) < key x) (take n ?f) = []"
  proof -
    have "\<not> key (?f ! (n - 1)) < key (?f ! i)" if "i < n" for i
      using that assms(2,3) sorted_wrt_nth_less [OF s, of i "n - 1"]
      by (cases "i = n - 1") (auto simp: not_less intro: less_imp_le)
    then show ?thesis using assms(3) by (auto simp: filter_empty_conv in_set_conv_nth)
  qed
  moreover have "filter (\<lambda>x. key (?f ! (n - 1)) < key x) (drop n ?f) = drop n ?f"
  proof -
    have "key (?f ! (n - 1)) < key (?f ! (n + i))" if "n + i < length ?f" for i
      using that assms(2) sorted_wrt_nth_less [OF s, of "n - 1" "n + i"] by simp
    then show ?thesis by (auto simp: filter_id_conv in_set_conv_nth)
  qed
  ultimately have "filter (\<lambda>x. key (?f ! (n - 1)) < key x) ?f = drop n ?f"
    by (metis append_Nil filter_append split)
  then show ?thesis by (simp add: l conj_commute)
qed

end

definition log_ok :: "memoryGroup \<Rightarrow> bool" where
  "log_ok g \<longleftrightarrow> inv_ids g \<and> length (group_log g) < 2 ^ 64"

lemma log_ok_sorted:
  assumes "log_ok g"
  shows "sorted_wrt (\<lambda>x y. rRecordId (rrRecord x) < rRecordId (rrRecord y)) (mgRecords g)"
  unfolding sorted_wrt_iff_nth_less
proof (intro allI impI)
  fix i j
  assume "i < j" "j < length (mgRecords g)"
  moreover from this assms have "rRecordId (rrRecord (mgRecords g ! i)) = of_nat (Suc i)"
    "rRecordId (rrRecord (mgRecords g ! j)) = of_nat (Suc j)" "Suc j < 2 ^ 64"
    by (auto simp: log_ok_def inv_ids_def group_log_def)
  ultimately show "rRecordId (rrRecord (mgRecords g ! i)) < rRecordId (rrRecord (mgRecords g ! j))"
    using of_nat_u64_less [of "Suc i" "Suc j"] by simp
qed

interpretation group_rows: ordered_log mgRecords "\<lambda>row. rRecordId (rrRecord row)" log_ok
  by unfold_locales (rule log_ok_sorted)

text \<open>
  A reader that pages: fetch, keep the page, go on from its \<open>NextRecordId\<close> until a page is
  \<open>Complete\<close>. The number bounds the pages; \<open>None\<close> is a reader still paging when it runs out.
\<close>

fun walk :: "nat \<Rightarrow> MemoryStore \<Rightarrow> FetchRequest \<Rightarrow> Record list option" where
  "walk 0 s q = None"
| "walk (Suc n) s q =
     (case Fetch None s q of
        Inl e \<Rightarrow> None
      | Inr result \<Rightarrow>
         (if frComplete result then Some (frRecords result)
          else map_option (\<lambda>rest. frRecords result @ rest)
                 (walk n s (q\<lparr>fqSinceRecordId := frNextRecordId result\<rparr>))))"

lemma wanted_next:
  assumes "log_ok g" and "0 < n" and "n < length (filter (wanted q) (mgRecords g))"
  shows "filter (wanted (q\<lparr>fqSinceRecordId :=
      rRecordId (rrRecord (last (take n (filter (wanted q) (mgRecords g)))))\<rparr>)) (mgRecords g)
    = drop n (filter (wanted q) (mgRecords g))"
proof -
  let ?l = "last (take n (filter (wanted q) (mgRecords g)))"
  have "?l \<in> set (filter (wanted q) (mgRecords g))"
    using assms(2,3) by (metis in_set_takeD last_in_set list.size(3) not_less_zero take_eq_Nil2 less_nat_zero_code)
  then have "fqSinceRecordId q < rRecordId (rrRecord ?l)" by (simp add: wanted_def)
  then have "wanted (q\<lparr>fqSinceRecordId := rRecordId (rrRecord ?l)\<rparr>) =
      (\<lambda>x. wanted q x \<and> rRecordId (rrRecord ?l) < rRecordId (rrRecord x))"
    by (auto simp: fun_eq_iff wanted_def visible_def)
  then show ?thesis using group_rows.after_last [OF assms] by simp
qed

lemma walk_all:
  assumes "msGroups s (fqGroupId q) = Some g" and "\<not> mgClosed g" and "log_ok g"
    and "length (fqGroupId q) = GroupIdBytes" and "length (filter (wanted q) (mgRecords g)) < n"
  shows "walk n s q = Some (map (\<lambda>row. read row (fqHeadsOnly q)) (filter (wanted q) (mgRecords g)))"
  using assms
proof (induction n arbitrary: q)
  case (Suc n)
  let ?f = "filter (wanted q) (mgRecords g)" and ?l = "unat (fqLimit q)"
  note fetch = Fetch_open [OF Suc.prems(1,2,4)]
  show ?case
  proof (cases "frComplete (fetch_spec q (mgRecords g))")
    case True
    then have "page q 0 (mgRecords g) = ?f" by (auto simp: fetch_spec_def page_def)
    with True fetch show ?thesis by (simp add: fetch_spec_def)
  next
    case False
    then have l: "fqLimit q \<noteq> 0" "?l < length ?f" by (auto simp: fetch_spec_def)
    then have l0: "0 < ?l" by (simp add: unat_gt_0)
    have pg: "page q 0 (mgRecords g) = take ?l ?f" using l(1) by (simp add: page_def)
    moreover have "take ?l ?f \<noteq> []" using l l0 by auto
    ultimately have next': "frNextRecordId (fetch_spec q (mgRecords g)) = rRecordId (rrRecord (last (take ?l ?f)))"
      by (simp add: fetch_spec_def)
    let ?q = "q\<lparr>fqSinceRecordId := rRecordId (rrRecord (last (take ?l ?f)))\<rparr>"
    note w = wanted_next [OF Suc.prems(3) l0 l(2)]
    have "walk n s ?q = Some (map (\<lambda>row. read row (fqHeadsOnly q)) (drop ?l ?f))"
      using Suc.IH [of ?q] Suc.prems w l l0 by simp
    then have "walk (Suc n) s q = Some (map (\<lambda>row. read row (fqHeadsOnly q)) (take ?l ?f) @
        map (\<lambda>row. read row (fqHeadsOnly q)) (drop ?l ?f))"
      using fetch False next' pg by (simp add: fetch_spec_def)
    then show ?thesis by (metis append_take_drop_id map_append)
  qed
qed simp

lemma reachable_log_ok:
  assumes "reachable H s fs" and "small s" and "msGroups s gid = Some g"
  shows "log_ok g"
  using reachable_group [OF assms] by (simp add: log_ok_def group_inv_def rows_inv_def)

section \<open>Properties\<close>

text \<open>
  C24: A fetch of an open group is exactly the rows above the cursor, at or below the reader's epoch
  and in its classes, in log order, cut at the limit; \<open>NextRecordId\<close> is the id of the last row
  given, \<open>Complete\<close> says whether the limit cut anything, and the high water is the greatest id at
  or below the reader's epoch whatever the cursor, the classes and the limit.
\<close>

theorem fetch_refines_spec:
  assumes "reachable H s fs" and "small s" and "msGroups s (fqGroupId q) = Some g" and "\<not> mgClosed g"
  shows "Fetch None s q = Inr (fetch_spec q (mgRecords g))"
  using Fetch_open [OF assms(3,4)] reachable_group(3) [OF assms(1-3)] by simp

text \<open>
  C7: Paging is complete and exact. Whatever the limit, a reader that follows \<open>NextRecordId\<close> until
  \<open>Complete\<close> ends within one page more than there are rows and has read every row its ceiling
  and classes allow, once, in order, and no row above its ceiling.
\<close>

theorem paging_reads_everything_once:
  assumes "reachable H s fs" and "small s" and "msGroups s (fqGroupId q) = Some g" and "\<not> mgClosed g"
    and "fqSinceRecordId q = 0"
  shows "walk (Suc (length (group_log g))) s q =
     Some (map (\<lambda>row. read row (fqHeadsOnly q))
       (filter (\<lambda>row. rEpoch (rrRecord row) \<le> fqReadEpoch q \<and>
          classIncluded (fqClassMask q) (rRetentionClass (rrRecord row))) (mgRecords g)))"
proof -
  note r = reachable_group [OF assms(1-3)]
  have pos: "0 < rRecordId (rrRecord row)" if "row \<in> set (mgRecords g)" for row
  proof -
    from that obtain i where i: "i < length (mgRecords g)" "row = mgRecords g ! i"
      by (auto simp: in_set_conv_nth)
    with r(1) have "rRecordId (rrRecord row) = of_nat (Suc i)" by (simp only: record_id_nth)
    moreover have "(of_nat 0 :: u64) < of_nat (Suc i)"
      using i(1) r(4) by (subst of_nat_u64_less) (simp_all add: group_log_def)
    ultimately show ?thesis by simp
  qed
  have "filter (wanted q) (mgRecords g) = filter (\<lambda>row. rEpoch (rrRecord row) \<le> fqReadEpoch q \<and>
          classIncluded (fqClassMask q) (rRetentionClass (rrRecord row))) (mgRecords g)"
    using pos assms(5) by (intro filter_cong) (auto simp: wanted_def visible_def)
  moreover have "length (filter (wanted q) (mgRecords g)) < Suc (length (group_log g))"
    by (simp add: group_log_def le_imp_less_Suc)
  ultimately show ?thesis
    using walk_all [OF assms(3,4) reachable_log_ok [OF assms(1-3)] r(3)] by (simp del: walk.simps)
qed

theorem fetch_refines_spec_witness:
  "\<exists>s result. reachable id s [] \<and> Fetch None s \<lparr> fqGroupId = demoGroupId, fqSinceRecordId = 0, fqLimit = 1,
       fqHeadsOnly = False, fqClassMask = 0, fqReadEpoch = 1 \<rparr> = Inr result \<and>
     map rRecordId (frRecords result) = [1] \<and> \<not> frComplete result"
proof -
  from demo_log obtain s g where d: "reachable id s []" "small s" "msGroups s demoGroupId = Some g"
    "\<not> mgClosed g" "group_log g = [stored 1 demoCommit, stored 2 demoMarker, stored 3 demoMessage]" .
  let ?q = "\<lparr> fqGroupId = demoGroupId, fqSinceRecordId = 0, fqLimit = 1,
       fqHeadsOnly = False, fqClassMask = 0, fqReadEpoch = 1 \<rparr>"
  from d(5) obtain a b c where r: "mgRecords g = [a, b, c]" "rrRecord a = stored 1 demoCommit"
    "rrRecord b = stored 2 demoMarker" "rrRecord c = stored 3 demoMessage"
    by (auto simp: group_log_def map_eq_Cons_conv)
  have e: "rEpoch demoCommit = 0" "rEpoch demoMarker = 1" "rEpoch demoMessage = 1"
    by (simp_all add: demo_defs)
  have "rRecordId (read a False) = 1" by (simp add: read_def r(2) Let_def split: option.split)
  then have "map rRecordId (frRecords (fetch_spec ?q (mgRecords g))) = [1]"
    "\<not> frComplete (fetch_spec ?q (mgRecords g))"
    by (simp_all add: fetch_spec_def page_def wanted_def visible_def classIncluded_def r e)
  with fetch_refines_spec [OF d(1,2), of ?q g] d(1,3,4) show ?thesis by auto
qed

theorem paging_reads_everything_once_witness:
  "\<exists>s records. reachable id s [] \<and> walk 4 s \<lparr> fqGroupId = demoGroupId, fqSinceRecordId = 0, fqLimit = 1,
       fqHeadsOnly = False, fqClassMask = 0, fqReadEpoch = 1 \<rparr> = Some records \<and> length records = 3"
proof -
  from demo_log obtain s g where d: "reachable id s []" "small s" "msGroups s demoGroupId = Some g"
    "\<not> mgClosed g" "group_log g = [stored 1 demoCommit, stored 2 demoMarker, stored 3 demoMessage]" .
  let ?q = "\<lparr> fqGroupId = demoGroupId, fqSinceRecordId = 0, fqLimit = 1,
       fqHeadsOnly = False, fqClassMask = 0, fqReadEpoch = 1 \<rparr>"
  from d(5) obtain a b c where r: "mgRecords g = [a, b, c]" "rrRecord a = stored 1 demoCommit"
    "rrRecord b = stored 2 demoMarker" "rrRecord c = stored 3 demoMessage"
    by (auto simp: group_log_def map_eq_Cons_conv)
  have e: "rEpoch demoCommit = 0" "rEpoch demoMarker = 1" "rEpoch demoMessage = 1"
    by (simp_all add: demo_defs)
  from paging_reads_everything_once [OF d(1,2), of ?q g] d r e show ?thesis
    by (auto simp: classIncluded_def numeral_eq_Suc simp del: walk.simps)
qed

lemma filter_prefix:
  fixes f :: "'a \<Rightarrow> 'b::linorder"
  assumes "sorted_wrt (\<lambda>x y. f x \<le> f y) xs"
  shows "filter (\<lambda>x. f x \<le> c) xs = take (length (filter (\<lambda>x. f x \<le> c) xs)) xs"
  using assms
proof (induction xs)
  case (Cons x xs)
  show ?case
  proof (cases "f x \<le> c")
    case False
    with Cons.prems have "filter (\<lambda>x. f x \<le> c) xs = []" by (auto simp: filter_empty_conv)
    with False show ?thesis by simp
  qed (use Cons in simp)
qed simp

text \<open>The rows at or below a ceiling are a prefix of the log.\<close>

lemma visible_prefix:
  assumes "group_inv H g"
  shows "filter (visible q) (mgRecords g) = take (length (filter (visible q) (mgRecords g))) (mgRecords g)"
proof -
  have v: "visible q = (\<lambda>row. rEpoch (rrRecord row) \<le> fqReadEpoch q)"
    by (simp add: fun_eq_iff visible_def)
  have "sorted_wrt (\<lambda>r r'. rEpoch r \<le> rEpoch r' \<and> (rIsCommit r \<longrightarrow> rEpoch r < rEpoch r')) (group_log g)"
    using assms by (simp add: group_inv_def rows_inv_def inv_epochs_def)
  then have "sorted_wrt (\<lambda>x y. rEpoch (rrRecord x) \<le> rEpoch (rrRecord y)) (mgRecords g)"
    unfolding group_log_def sorted_wrt_map by (rule sorted_wrt_mono_rel [rotated]) simp
  from filter_prefix [OF this] show ?thesis unfolding v .
qed

lemma high_water_count:
  assumes "group_inv H g" and "length (group_log g) < 2 ^ 64"
  shows "frHighWaterRecordId (fetch_spec q (mgRecords g)) =
    of_nat (length (filter (visible q) (mgRecords g)))"
proof -
  let ?k = "length (filter (visible q) (mgRecords g))"
  have k: "?k \<le> length (mgRecords g)" "?k < 2 ^ 64"
    using assms(2) by (auto simp: group_log_def intro: le_less_trans [OF length_filter_le])
  note ids = record_id_nth [OF assms(1)]
  have "set (filter (visible q) (mgRecords g)) = nth (mgRecords g) ` {0..<?k}"
    using visible_prefix [OF assms(1), of q] nth_image [OF k(1)] by metis
  then have "rRecordId ` rrRecord ` set (filter (visible q) (mgRecords g)) = (of_nat \<circ> Suc) ` {0..<?k}"
    using ids [OF less_le_trans [OF _ k(1)]]
    by (auto simp: image_image intro!: image_cong simp del: of_nat_Suc)
  moreover have "Max (insert 0 ((of_nat \<circ> Suc) ` {0..<?k})) = (of_nat ?k :: u64)"
  proof (rule Max_eqI)
    fix y :: u64
    assume "y \<in> insert 0 ((of_nat \<circ> Suc) ` {0..<?k})"
    then show "y \<le> of_nat ?k" using k(2) by (auto simp: of_nat_u64_le simp del: of_nat_Suc)
  next
    show "of_nat ?k \<in> insert (0::u64) ((of_nat \<circ> Suc) ` {0..<?k})"
      by (cases ?k) (auto simp: image_iff simp del: of_nat_Suc)
  qed simp
  ultimately show ?thesis by (simp add: fetch_spec_def)
qed

lemma filter_suffix:
  assumes "\<And>i. i < length xs \<Longrightarrow> P (xs ! i) \<longleftrightarrow> n \<le> i"
  shows "filter P xs = drop n xs"
proof -
  have "filter P (take n xs) = []" using assms by (auto simp: filter_empty_conv in_set_conv_nth)
  moreover have "filter P (drop n xs) = drop n xs"
    using assms by (auto simp: filter_id_conv in_set_conv_nth)
  ultimately show ?thesis by (metis append_Nil append_take_drop_id filter_append)
qed

lemma after_cursor:
  assumes "group_inv H g" and "length (group_log g) < 2 ^ 64"
  shows "filter (\<lambda>row. since < rRecordId (rrRecord row)) (take k (mgRecords g)) =
    drop (unat since) (take k (mgRecords g))"
proof (rule filter_suffix)
  fix i
  assume i: "i < length (take k (mgRecords g))"
  then have "rRecordId (rrRecord (take k (mgRecords g) ! i)) = of_nat (Suc i)" "Suc i < 2 ^ 64"
    using assms by (simp_all add: group_inv_def rows_inv_def inv_ids_def group_log_def)
  then show "since < rRecordId (rrRecord (take k (mgRecords g) ! i)) \<longleftrightarrow> unat since \<le> i"
    by (simp add: word_less_nat_alt unat_of_nat less_Suc_eq_le del: of_nat_Suc)
qed

text \<open>
  The high water is the reader's own. Under a ceiling the visible rows are the first so many of
  the log, the high water is their number, and a reader of all classes whose page is complete and
  whose cursor was not past it ends exactly at it, so that "caught up" is one comparison of ids.
\<close>

theorem high_water_is_ceiling_relative:
  assumes "reachable H s fs" and "small s" and "msGroups s (fqGroupId q) = Some g" and "\<not> mgClosed g"
    and "Fetch None s q = Inr result"
  shows "frHighWaterRecordId result = of_nat (length (filter (visible q) (mgRecords g))) \<and>
     (frComplete result \<and> fqClassMask q = 0 \<and> fqSinceRecordId q \<le> frHighWaterRecordId result \<longrightarrow>
        frNextRecordId result = frHighWaterRecordId result)"
proof -
  note r = reachable_group [OF assms(1-3)]
  have res: "result = fetch_spec q (mgRecords g)" using Fetch_open [OF assms(3,4) r(3)] assms(5) by simp
  let ?v = "filter (visible q) (mgRecords g)"
  have h: "frHighWaterRecordId result = of_nat (length ?v)" using high_water_count [OF r(1,4)] res by simp
  have "frNextRecordId result = of_nat (length ?v)"
    if c: "frComplete result" "fqClassMask q = 0" "fqSinceRecordId q \<le> of_nat (length ?v)"
  proof -
    let ?n = "unat (fqSinceRecordId q)"
    have vp: "?v = take (length ?v) (mgRecords g)" by (rule visible_prefix [OF r(1)])
    have "page q 0 (mgRecords g) = filter (\<lambda>row. fqSinceRecordId q < rRecordId (rrRecord row)) ?v"
      using c(1,2) res by (auto simp: fetch_spec_def page_def wanted_def classIncluded_def conj_commute
          intro!: filter_cong)
    then have pg: "page q 0 (mgRecords g) = drop ?n ?v"
      using after_cursor [OF r(1,4), of "fqSinceRecordId q" "length ?v"] vp by simp
    have lv: "length ?v \<le> length (mgRecords g)" "length ?v < 2 ^ 64"
      using r(4) by (auto simp: group_log_def intro: le_less_trans [OF length_filter_le])
    have le: "?n \<le> length ?v" using c(3) lv(2) by (simp add: word_le_nat_alt unat_of_nat)
    show ?thesis
    proof (cases "?n = length ?v")
      case True
      then have "fqSinceRecordId q = of_nat (length ?v)" by (metis word_unat_eq_iff unat_Suc_of_nat lv(2))
      with True pg res show ?thesis by (simp add: fetch_spec_def)
    next
      case False
      with le have ne: "?n < length ?v" by simp
      then have "last (drop ?n ?v) = mgRecords g ! (length ?v - 1)"
        using vp lv(1) by (metis last_conv_nth last_drop length_0_conv less_nat_zero_code nth_take
            diff_less zero_less_one length_greater_0_conv)
      moreover have "length ?v - 1 < length (mgRecords g)" "Suc (length ?v - 1) = length ?v"
        using ne lv(1) by linarith+
      then have "rRecordId (rrRecord (mgRecords g ! (length ?v - 1))) = of_nat (length ?v)"
        using record_id_nth [OF r(1)] by metis
      ultimately show ?thesis using pg ne res by (simp add: fetch_spec_def)
    qed
  qed
  with h show ?thesis by simp
qed

theorem high_water_is_ceiling_relative_witness:
  "\<exists>s result. reachable id s [] \<and> Fetch None s \<lparr> fqGroupId = demoGroupId, fqSinceRecordId = 0, fqLimit = 0,
       fqHeadsOnly = True, fqClassMask = 0, fqReadEpoch = 0 \<rparr> = Inr result \<and>
     frHighWaterRecordId result = 1 \<and> frNextRecordId result = 1"
proof -
  from demo_log obtain s g where d: "reachable id s []" "small s" "msGroups s demoGroupId = Some g"
    "\<not> mgClosed g" "group_log g = [stored 1 demoCommit, stored 2 demoMarker, stored 3 demoMessage]" .
  let ?q = "\<lparr> fqGroupId = demoGroupId, fqSinceRecordId = 0, fqLimit = 0,
       fqHeadsOnly = True, fqClassMask = 0, fqReadEpoch = 0 \<rparr>"
  from d(5) obtain a b c where r: "mgRecords g = [a, b, c]" "rrRecord a = stored 1 demoCommit"
    "rrRecord b = stored 2 demoMarker" "rrRecord c = stored 3 demoMessage"
    by (auto simp: group_log_def map_eq_Cons_conv)
  have e: "rEpoch demoCommit = 0" "rEpoch demoMarker = 1" "rEpoch demoMessage = 1"
    by (simp_all add: demo_defs)
  have f: "Fetch None s ?q = Inr (fetch_spec ?q (mgRecords g))"
    using Fetch_open [of s ?q g] d(3,4) by (simp add: demoGroupId_def GroupIdBytes_def)
  from high_water_is_ceiling_relative [OF d(1,2) _ d(4) f] d(3)
  have "frHighWaterRecordId (fetch_spec ?q (mgRecords g)) = 1"
    "frNextRecordId (fetch_spec ?q (mgRecords g)) = 1"
    using r e by (auto simp: visible_def fetch_spec_def)
  with d(1) f show ?thesis by auto
qed

lemma read_simps [simp]:
  "rEpoch (read row h) = rEpoch (rrRecord row)" "rIsCommit (read row h) = rIsCommit (rrRecord row)"
  "rRecordId (read row h) = rRecordId (rrRecord row)"
  by (simp_all add: read_def Let_def split: option.split)

text \<open>
  A reader with the key of one epoch is handed the way into the next. Paging under a ceiling
  gives nothing above it and gives, for every epoch up to it that has ended, the commit that ended
  it.
\<close>

theorem walk_hands_over_commits:
  assumes "reachable H s fs" and "small s" and "msGroups s (fqGroupId q) = Some g" and "\<not> mgClosed g"
    and "fqSinceRecordId q = 0" and "fqClassMask q = 0"
    and "e \<le> fqReadEpoch q" and "e < mgCurrentEpoch g"
  shows "\<exists>records. walk (Suc (length (group_log g))) s q = Some records \<and>
     (\<exists>r \<in> set records. rIsCommit r \<and> rEpoch r = e) \<and>
     (\<forall>r \<in> set records. rEpoch r \<le> fqReadEpoch q)"
proof -
  note r = reachable_group [OF assms(1-3)]
  have "commit_ok (mgCurrentEpoch g) (group_log g) e (mgCommits g e)"
    using r(1) by (simp add: group_inv_def rows_inv_def inv_commits_def)
  with assms(8) obtain row where row: "row \<in> set (mgRecords g)" "rIsCommit (rrRecord row)"
    "rEpoch (rrRecord row) = e"
    by (auto simp: commit_ok_def group_log_def split: option.splits)
  let ?f = "filter (wanted q) (mgRecords g)"
  obtain i where i: "i < length (mgRecords g)" "row = mgRecords g ! i"
    using row(1) by (auto simp: in_set_conv_nth)
  have "(of_nat 0 :: u64) < of_nat (Suc i)"
    using i(1) r(4) by (subst of_nat_u64_less) (simp_all add: group_log_def)
  then have "0 < rRecordId (rrRecord row)" using record_id_nth [OF r(1) i(1)] i(2) by simp
  with row assms(5-7) have "row \<in> set ?f"
    by (simp add: wanted_def visible_def classIncluded_def)
  moreover have "walk (Suc (length (group_log g))) s q = Some (map (\<lambda>row. read row (fqHeadsOnly q)) ?f)"
    by (rule walk_all [OF assms(3,4) reachable_log_ok [OF assms(1-3)] r(3)])
      (simp add: group_log_def le_imp_less_Suc)
  ultimately show ?thesis using row(2,3)
    by (auto simp: wanted_def visible_def intro!: bexI [of _ row] simp del: walk.simps)
qed

theorem walk_hands_over_commits_witness:
  "\<exists>s records r. reachable id s [] \<and> walk 4 s \<lparr> fqGroupId = demoGroupId, fqSinceRecordId = 0, fqLimit = 2,
       fqHeadsOnly = False, fqClassMask = 0, fqReadEpoch = 0 \<rparr> = Some records \<and>
     r \<in> set records \<and> rIsCommit r \<and> rEpoch r = 0"
proof -
  from demo_log obtain s g where d: "reachable id s []" "small s" "msGroups s demoGroupId = Some g"
    "\<not> mgClosed g" "mgCurrentEpoch g = 1"
    "group_log g = [stored 1 demoCommit, stored 2 demoMarker, stored 3 demoMessage]" .
  let ?q = "\<lparr> fqGroupId = demoGroupId, fqSinceRecordId = 0, fqLimit = 2,
       fqHeadsOnly = False, fqClassMask = 0, fqReadEpoch = 0 \<rparr>"
  from walk_hands_over_commits [OF d(1,2) _ d(4), of ?q 0] d(1,3,5,6) show ?thesis
    by (auto simp: numeral_eq_Suc simp del: walk.simps)
qed

end
