(* ===== verification/Link_Box.thy ===== *)
theory Link_Box
  imports Records "HOL-Library.List_Lexorder" "HOL-Library.Product_Lexorder"
begin

text \<open>
  The link boxes of the store (\<open>src/store/store.go\<close> for the data and the shape checks,
  \<open>src/store/memory.go\<close> for the arms): a box is registered for a while under two pinned keys,
  takes at most two deposits over its life, hands them to the holder of its collect key, and is
  retired, expires, and is swept.

  The two maps of the memory store that hold the boxes are the state here; the code guards them
  with a mutex of their own that every arm holds throughout, so an arm is one step. Both are
  iterated by the code and are association lists. A row the code reaches by pointer is the value at
  its key, and the sweep's test for a pointer (\<open>row == deposit\<close>) is equality of rows, which the
  invariant makes the same thing: no box holds two deposits under one id.

  The counters \<open>next_deposit_id\<close>, \<open>deposit_count\<close> and \<open>refused_count\<close> are words of their
  column's width. A nil \<open>DepositHash\<close> or \<open>CardXwingPub\<close> is the empty list, and the zero time is 0.
\<close>

section \<open>Data\<close>

definition RendezvousIdBytes :: nat where "RendezvousIdBytes = 32"
definition LinkCardBytes :: nat where "LinkCardBytes = 4124"
definition LinkDepositBytes :: nat where "LinkDepositBytes = 17526"

definition LinkBoxKind :: u16 where "LinkBoxKind = 4"
definition LinkBoxAlgId :: u32 where "LinkBoxAlgId = 0x0014"
definition LinkBoxDeposits :: u64 where "LinkBoxDeposits = 2"

record LinkBoxRegistration =
  lgRendezvousId :: bytes
  lgDepositVerifyPub :: bytes
  lgCollectVerifyPub :: bytes
  lgPublicCt :: bytes

record LinkBox =
  lbRendezvousId :: bytes
  lbDepositVerifyPub :: bytes
  lbCollectVerifyPub :: bytes
  lbPublicCt :: bytes
  lbDepositCount :: u32
  lbDepositsTaken :: u64
  lbRefusedCount :: u64
  lbRegisterTime :: time
  lbExpireTime :: time
  lbRetiredTime :: "time option"
  lbReclaimAfter :: time

record LinkBoxRegistered =
  lxReason :: reason
  lxExpireTime :: time
  lxMailboxDepth :: u32

record LinkBoxDeposited =
  ldReason :: reason
  ldDepositId :: u64
  ldDepositHash :: bytes
  ldPendingCount :: u32
  ldReplayed :: bool

record LinkBoxCollectRequest =
  lqRendezvousId :: bytes
  lqSinceDepositId :: u64
  lqAckThroughDepositId :: u64
  lqLimit :: u32
  lqVerifiedPub :: bytes

record LinkBoxDeposit =
  dpDepositId :: u64
  dpDepositCt :: bytes
  dpCreateTime :: time

record LinkBoxCollected =
  lcReason :: reason
  lcDeposits :: "LinkBoxDeposit list"
  lcPendingCount :: u32
  lcRefusedCount :: u64
  lcExpireTime :: time
  lcComplete :: bool

record LinkBoxRetired =
  ltReason :: reason
  ltDiscardedDeposits :: u32

record LinkBoxSweepBounds =
  sbDeposits :: u32
  sbBoxes :: u32

record LinkBoxesSwept =
  swDeposits :: u32
  swBoxes :: u32
  swSkipped :: bool

definition DefaultLinkBoxSweepBounds :: LinkBoxSweepBounds where
  "DefaultLinkBoxSweepBounds = \<lparr> sbDeposits = 1000, sbBoxes = 500 \<rparr>"

definition orDefault :: "LinkBoxSweepBounds \<Rightarrow> LinkBoxSweepBounds" where
  "orDefault b =
     \<lparr> sbDeposits = (if sbDeposits b = 0 then sbDeposits DefaultLinkBoxSweepBounds else sbDeposits b),
       sbBoxes = (if sbBoxes b = 0 then sbBoxes DefaultLinkBoxSweepBounds else sbBoxes b) \<rparr>"

text \<open>UTC, at the microsecond: \<open>Truncate\<close> rounds down to a multiple since the zero time.\<close>

definition linkBoxTime :: "time \<Rightarrow> time" where
  "linkBoxTime now = now - now mod 1000"

definition Live :: "LinkBox \<Rightarrow> time \<Rightarrow> bool" where
  "Live box now \<longleftrightarrow> lbRetiredTime box = None \<and> linkBoxTime now < lbExpireTime box"

section \<open>Shape checks\<close>

definition validateLinkBoxRegistration ::
  "LinkBoxRegistration option \<Rightarrow> duration \<Rightarrow> u64 \<Rightarrow> store_error option" where
  "validateLinkBoxRegistration registration ttl liveCap =
     (case registration of
        None \<Rightarrow> Some ErrIdentifierShape
      | Some r \<Rightarrow>
          or_else (checkLength (lgRendezvousId r) RendezvousIdBytes)
         (or_else (checkLength (lgDepositVerifyPub r) VerifyPubBytes)
         (or_else (checkLength (lgCollectVerifyPub r) VerifyPubBytes)
            (if length (lgPublicCt r) \<noteq> LinkCardBytes then Some ErrLinkBoxShape
             else if ttl \<le> 0 then Some ErrLinkBoxTtl
             else if liveCap = 0 then Some ErrLinkBoxLiveCap
             else None))))"

definition validateLinkBoxDeposit :: "bytes \<Rightarrow> bytes \<Rightarrow> bytes \<Rightarrow> store_error option" where
  "validateLinkBoxDeposit rendezvousId verifiedPub depositCt =
     or_else (checkLength rendezvousId RendezvousIdBytes)
    (or_else (checkLength verifiedPub VerifyPubBytes)
       (if length depositCt \<noteq> LinkDepositBytes then Some ErrLinkBoxShape else None))"

definition validateLinkBoxAct :: "bytes \<Rightarrow> bytes \<Rightarrow> store_error option" where
  "validateLinkBoxAct rendezvousId verifiedPub =
     or_else (checkLength rendezvousId RendezvousIdBytes) (checkLength verifiedPub VerifyPubBytes)"

definition linkBoxDepositHash :: "hash \<Rightarrow> bytes \<Rightarrow> bytes" where
  "linkBoxDepositHash H depositCt = H depositCt"

definition sameLinkBoxRegistration :: "LinkBox \<Rightarrow> LinkBoxRegistration \<Rightarrow> bool" where
  "sameLinkBoxRegistration box r \<longleftrightarrow>
     lbDepositVerifyPub box = lgDepositVerifyPub r \<and>
     lbCollectVerifyPub box = lgCollectVerifyPub r \<and>
     lbPublicCt box = lgPublicCt r"

definition linkBoxDepositsAfter ::
  "LinkBoxDeposit list \<Rightarrow> u64 \<Rightarrow> u32 \<Rightarrow> LinkBoxDeposit list \<times> bool" where
  "linkBoxDepositsAfter standing since limit =
     (let after = filter (\<lambda>d. since < dpDepositId d) standing
      in if limit \<noteq> 0 \<and> limit < of_nat (length after) then (take (unat limit) after, False)
         else (after, True))"

section \<open>The rows\<close>

record memoryLinkBoxRow =
  lrRendezvousId :: bytes
  lrKind :: u16
  lrDepositVerifyPub :: bytes
  lrCollectVerifyPub :: bytes
  lrCardXwingPub :: bytes
  lrPublicCt :: bytes
  lrAlgId :: u32
  lrNextDepositId :: u64
  lrDepositCount :: u32
  lrRefusedCount :: u64
  lrRegisterTime :: time
  lrRefreshTime :: time
  lrExpireTime :: time
  lrRetiredTime :: "time option"
  lrReclaimAfter :: time

record memoryLinkDepositRow =
  drRendezvousId :: bytes
  drDepositId :: u64
  drDepositHash :: bytes
  drDepositCt :: bytes
  drCreateTime :: time
  drPruneAfter :: time

record LinkBoxStore =
  lsBoxes :: "(bytes \<times> memoryLinkBoxRow) list"
  lsDeposits :: "(bytes \<times> memoryLinkDepositRow list) list"

definition NewLinkBoxStore :: LinkBoxStore where
  "NewLinkBoxStore = \<lparr> lsBoxes = [], lsDeposits = [] \<rparr>"

definition boxAt :: "LinkBoxStore \<Rightarrow> bytes \<Rightarrow> memoryLinkBoxRow option" where
  "boxAt s key = map_of (lsBoxes s) key"

text \<open>A missing key of a Go map reads as the nil slice.\<close>

definition depositsOf :: "(bytes \<times> memoryLinkDepositRow list) list \<Rightarrow> bytes \<Rightarrow> memoryLinkDepositRow list" where
  "depositsOf m key = (case map_of m key of None \<Rightarrow> [] | Some ds \<Rightarrow> ds)"

definition depositsAt :: "LinkBoxStore \<Rightarrow> bytes \<Rightarrow> memoryLinkDepositRow list" where
  "depositsAt s key = depositsOf (lsDeposits s) key"

definition linkBox :: "memoryLinkBoxRow \<Rightarrow> LinkBox" where
  "linkBox row =
     \<lparr> lbRendezvousId = lrRendezvousId row,
       lbDepositVerifyPub = lrDepositVerifyPub row,
       lbCollectVerifyPub = lrCollectVerifyPub row,
       lbPublicCt = lrPublicCt row,
       lbDepositCount = lrDepositCount row,
       lbDepositsTaken = lrNextDepositId row - 1,
       lbRefusedCount = lrRefusedCount row,
       lbRegisterTime = lrRegisterTime row,
       lbExpireTime = lrExpireTime row,
       lbRetiredTime = lrRetiredTime row,
       lbReclaimAfter = lrReclaimAfter row \<rparr>"

definition liveLinkBox ::
  "LinkBoxStore \<Rightarrow> bytes \<Rightarrow> time \<Rightarrow> bytes \<Rightarrow> (memoryLinkBoxRow \<Rightarrow> bytes) \<Rightarrow> memoryLinkBoxRow option" where
  "liveLinkBox s rendezvousId now verifiedPub pinned =
     (case boxAt s rendezvousId of
        None \<Rightarrow> None
      | Some row \<Rightarrow> (if \<not> Live (linkBox row) now \<or> pinned row \<noteq> verifiedPub then None else Some row))"

definition depositKeyOf :: "memoryLinkBoxRow \<Rightarrow> bytes" where "depositKeyOf = lrDepositVerifyPub"
definition collectKeyOf :: "memoryLinkBoxRow \<Rightarrow> bytes" where "collectKeyOf = lrCollectVerifyPub"

definition liveCount :: "LinkBoxStore \<Rightarrow> time \<Rightarrow> nat" where
  "liveCount s now = length (filter (\<lambda>(_, row). Live (linkBox row) now) (lsBoxes s))"

section \<open>The arms\<close>

definition registerRefused :: "reason \<Rightarrow> LinkBoxRegistered" where
  "registerRefused r = \<lparr> lxReason = r, lxExpireTime = 0, lxMailboxDepth = 0 \<rparr>"

definition RegisterLinkBox ::
  "ctx \<Rightarrow> LinkBoxStore \<Rightarrow> LinkBoxRegistration option \<Rightarrow> time \<Rightarrow> duration \<Rightarrow> u64 \<Rightarrow>
   LinkBoxStore \<times> (store_error + LinkBoxRegistered)" where
  "RegisterLinkBox ctx s registration now0 ttl liveCap =
     (case or_else (ctxErr ctx) (validateLinkBoxRegistration registration ttl liveCap) of
        Some e \<Rightarrow> (s, Inl e)
      | None \<Rightarrow>
         (let r = the registration;
              now = linkBoxTime now0
          in case boxAt s (lgRendezvousId r) of
               Some row \<Rightarrow>
                 (let box = linkBox row
                  in if Live box now \<and> sameLinkBoxRegistration box r
                     then (s, Inr \<lparr> lxReason = REASON_OK, lxExpireTime = lbExpireTime box,
                                    lxMailboxDepth = lbDepositCount box \<rparr>)
                     else (s, Inr (registerRefused REASON_REJECTED)))
             | None \<Rightarrow>
                 (if liveCap \<le> of_nat (liveCount s now)
                  then (s, Inr (registerRefused REASON_CARD_RATE_LIMITED))
                  else let expire = linkBoxTime (now + ttl) in
                    (s\<lparr>lsBoxes := AList.update (lgRendezvousId r)
                        \<lparr> lrRendezvousId = lgRendezvousId r, lrKind = LinkBoxKind,
                          lrDepositVerifyPub = lgDepositVerifyPub r,
                          lrCollectVerifyPub = lgCollectVerifyPub r,
                          lrCardXwingPub = [], lrPublicCt = lgPublicCt r, lrAlgId = LinkBoxAlgId,
                          lrNextDepositId = 1, lrDepositCount = 0, lrRefusedCount = 0,
                          lrRegisterTime = now, lrRefreshTime = now, lrExpireTime = expire,
                          lrRetiredTime = None, lrReclaimAfter = expire \<rparr> (lsBoxes s)\<rparr>,
                     Inr \<lparr> lxReason = REASON_OK, lxExpireTime = expire, lxMailboxDepth = 0 \<rparr>))))"

definition MemoryStore_LinkBox :: "ctx \<Rightarrow> LinkBoxStore \<Rightarrow> bytes \<Rightarrow> store_error + LinkBox" where
  "MemoryStore_LinkBox ctx s rendezvousId =
     (case or_else (ctxErr ctx) (checkLength rendezvousId RendezvousIdBytes) of
        Some e \<Rightarrow> Inl e
      | None \<Rightarrow> (case boxAt s rendezvousId of
                   None \<Rightarrow> Inl ErrLinkBoxUnknown
                 | Some row \<Rightarrow> Inr (linkBox row)))"

definition depositRefused :: "reason \<Rightarrow> LinkBoxDeposited" where
  "depositRefused r =
     \<lparr> ldReason = r, ldDepositId = 0, ldDepositHash = [], ldPendingCount = 0, ldReplayed = False \<rparr>"

definition putBox :: "LinkBoxStore \<Rightarrow> bytes \<Rightarrow> memoryLinkBoxRow \<Rightarrow> LinkBoxStore" where
  "putBox s key row = s\<lparr>lsBoxes := AList.update key row (lsBoxes s)\<rparr>"

definition putDeposits :: "LinkBoxStore \<Rightarrow> bytes \<Rightarrow> memoryLinkDepositRow list \<Rightarrow> LinkBoxStore" where
  "putDeposits s key ds = s\<lparr>lsDeposits := AList.update key ds (lsDeposits s)\<rparr>"

definition DepositLinkBox ::
  "hash \<Rightarrow> ctx \<Rightarrow> LinkBoxStore \<Rightarrow> bytes \<Rightarrow> bytes \<Rightarrow> bytes \<Rightarrow> time \<Rightarrow>
   LinkBoxStore \<times> (store_error + LinkBoxDeposited)" where
  "DepositLinkBox H ctx s rendezvousId verifiedPub depositCt now0 =
     (case or_else (ctxErr ctx) (validateLinkBoxDeposit rendezvousId verifiedPub depositCt) of
        Some e \<Rightarrow> (s, Inl e)
      | None \<Rightarrow>
         (let depositHash = linkBoxDepositHash H depositCt;
              now = linkBoxTime now0
          in case liveLinkBox s rendezvousId now verifiedPub depositKeyOf of
               None \<Rightarrow> (s, Inr (depositRefused REASON_CARD_RETIRED))
             | Some row \<Rightarrow>
                (case find (\<lambda>d. drDepositHash d = depositHash) (depositsAt s rendezvousId) of
                   Some d \<Rightarrow>
                     (s, Inr \<lparr> ldReason = REASON_OK, ldDepositId = drDepositId d,
                               ldDepositHash = drDepositHash d,
                               ldPendingCount = lrDepositCount row, ldReplayed = True \<rparr>)
                 | None \<Rightarrow>
                     (if LinkBoxDeposits \<le> lrNextDepositId row - 1
                      then (putBox s rendezvousId (row\<lparr>lrRefusedCount := lrRefusedCount row + 1\<rparr>),
                            Inr (depositRefused REASON_CARD_RATE_LIMITED))
                      else
                        (let depositId = lrNextDepositId row;
                             deposit = \<lparr> drRendezvousId = rendezvousId, drDepositId = depositId,
                                         drDepositHash = depositHash, drDepositCt = depositCt,
                                         drCreateTime = now, drPruneAfter = lrExpireTime row \<rparr>;
                             row' = row\<lparr>lrNextDepositId := lrNextDepositId row + 1,
                                        lrDepositCount := lrDepositCount row + 1\<rparr>
                         in (putBox (putDeposits s rendezvousId (depositsAt s rendezvousId @ [deposit]))
                               rendezvousId row',
                             Inr \<lparr> ldReason = REASON_OK, ldDepositId = depositId,
                                   ldDepositHash = depositHash,
                                   ldPendingCount = lrDepositCount row', ldReplayed = False \<rparr>))))))"

definition standingOf :: "memoryLinkDepositRow \<Rightarrow> LinkBoxDeposit" where
  "standingOf d = \<lparr> dpDepositId = drDepositId d, dpDepositCt = drDepositCt d,
                    dpCreateTime = drCreateTime d \<rparr>"

definition collectRefused :: LinkBoxCollected where
  "collectRefused = \<lparr> lcReason = REASON_CARD_RETIRED, lcDeposits = [], lcPendingCount = 0,
     lcRefusedCount = 0, lcExpireTime = 0, lcComplete = False \<rparr>"

definition CollectLinkBox ::
  "ctx \<Rightarrow> LinkBoxStore \<Rightarrow> LinkBoxCollectRequest option \<Rightarrow> time \<Rightarrow>
   LinkBoxStore \<times> (store_error + LinkBoxCollected)" where
  "CollectLinkBox ctx s request now0 =
     (case or_else (ctxErr ctx)
             (case request of None \<Rightarrow> Some ErrIdentifierShape
              | Some q \<Rightarrow> validateLinkBoxAct (lqRendezvousId q) (lqVerifiedPub q)) of
        Some e \<Rightarrow> (s, Inl e)
      | None \<Rightarrow>
         (let q = the request;
              now = linkBoxTime now0;
              key = lqRendezvousId q
          in case liveLinkBox s key now (lqVerifiedPub q) collectKeyOf of
               None \<Rightarrow> (s, Inr collectRefused)
             | Some row \<Rightarrow>
                (let kept = filter (\<lambda>d. lqAckThroughDepositId q < drDepositId d) (depositsAt s key);
                     (returned, complete) =
                       linkBoxDepositsAfter (map standingOf kept) (lqSinceDepositId q) (lqLimit q)
                 in (putBox (putDeposits s key kept) key
                       (row\<lparr>lrRefusedCount := 0, lrDepositCount := of_nat (length kept)\<rparr>),
                     Inr \<lparr> lcReason = REASON_OK, lcDeposits = returned,
                           lcPendingCount = of_nat (length kept),
                           lcRefusedCount = lrRefusedCount row, lcExpireTime = lrExpireTime row,
                           lcComplete = complete \<rparr>))))"

definition RetireLinkBox ::
  "ctx \<Rightarrow> LinkBoxStore \<Rightarrow> bytes \<Rightarrow> bytes \<Rightarrow> time \<Rightarrow>
   LinkBoxStore \<times> (store_error + LinkBoxRetired)" where
  "RetireLinkBox ctx s rendezvousId verifiedPub now0 =
     (case or_else (ctxErr ctx) (validateLinkBoxAct rendezvousId verifiedPub) of
        Some e \<Rightarrow> (s, Inl e)
      | None \<Rightarrow>
         (let now = linkBoxTime now0
          in case liveLinkBox s rendezvousId now verifiedPub collectKeyOf of
               None \<Rightarrow> (s, Inr \<lparr> ltReason = REASON_CARD_RETIRED, ltDiscardedDeposits = 0 \<rparr>)
             | Some row \<Rightarrow>
                 (putBox (s\<lparr>lsDeposits := AList.delete rendezvousId (lsDeposits s)\<rparr>) rendezvousId
                    (row\<lparr>lrRetiredTime := Some now, lrDepositCount := 0\<rparr>),
                  Inr \<lparr> ltReason = REASON_OK,
                        ltDiscardedDeposits = of_nat (length (depositsAt s rendezvousId)) \<rparr>)))"

definition LiveLinkBoxes :: "ctx \<Rightarrow> LinkBoxStore \<Rightarrow> time \<Rightarrow> store_error + u64" where
  "LiveLinkBoxes ctx s now =
     guard (ctxErr ctx) (Inr (of_nat (liveCount s (linkBoxTime now))))"

section \<open>The sweep\<close>

text \<open>
  Both statements take what is due, oldest first and then by key, and no more than their bound.
\<close>

definition dueDeposits :: "LinkBoxStore \<Rightarrow> time \<Rightarrow> u32 \<Rightarrow> memoryLinkDepositRow list" where
  "dueDeposits s now bound =
     (let due = sort_key (\<lambda>d. (drPruneAfter d, drRendezvousId d, drDepositId d))
                  (filter (\<lambda>d. \<not> now < drPruneAfter d) (concat (map snd (lsDeposits s))))
      in if bound < of_nat (length due) then take (unat bound) due else due)"

definition deleteDeposit ::
  "memoryLinkDepositRow \<Rightarrow> (bytes \<times> memoryLinkDepositRow list) list \<Rightarrow>
   (bytes \<times> memoryLinkDepositRow list) list" where
  "deleteDeposit deposit m =
     (let key = drRendezvousId deposit;
          left = filter (\<lambda>row. row \<noteq> deposit) (depositsOf m key)
      in if length left = 0 then AList.delete key m else AList.update key left m)"

definition recount ::
  "(bytes \<times> memoryLinkDepositRow list) list \<Rightarrow> bytes \<Rightarrow> (bytes \<times> memoryLinkBoxRow) list \<Rightarrow>
   (bytes \<times> memoryLinkBoxRow) list" where
  "recount deposits key boxes =
     (case map_of boxes key of
        None \<Rightarrow> boxes
      | Some row \<Rightarrow>
          AList.update key (row\<lparr>lrDepositCount := of_nat (length (depositsOf deposits key))\<rparr>) boxes)"

definition dueBoxes :: "(bytes \<times> memoryLinkBoxRow) list \<Rightarrow> time \<Rightarrow> u32 \<Rightarrow> memoryLinkBoxRow list" where
  "dueBoxes boxes now bound =
     (let due = sort_key (\<lambda>row. (lrReclaimAfter row, lrRendezvousId row))
                  (filter (\<lambda>row. \<not> now < lrReclaimAfter row) (map snd boxes))
      in if bound < of_nat (length due) then take (unat bound) due else due)"

definition SweepLinkBoxes ::
  "ctx \<Rightarrow> LinkBoxStore \<Rightarrow> time \<Rightarrow> LinkBoxSweepBounds \<Rightarrow>
   LinkBoxStore \<times> (store_error + LinkBoxesSwept)" where
  "SweepLinkBoxes ctx s now0 bounds0 =
     (case ctxErr ctx of
        Some e \<Rightarrow> (s, Inl e)
      | None \<Rightarrow>
         (let bounds = orDefault bounds0;
              now = linkBoxTime now0;
              due = dueDeposits s now (sbDeposits bounds);
              deposits1 = fold deleteDeposit due (lsDeposits s);
              touched = remdups (map drRendezvousId due);
              boxes1 = fold (recount deposits1) touched (lsBoxes s);
              reclaimable = dueBoxes boxes1 now (sbBoxes bounds);
              keys = map lrRendezvousId reclaimable
          in (\<lparr> lsBoxes = fold AList.delete keys boxes1,
                lsDeposits = fold AList.delete keys deposits1 \<rparr>,
              Inr \<lparr> swDeposits = of_nat (length due), swBoxes = of_nat (length reclaimable),
                    swSkipped = False \<rparr>)))"
end
