(* ===== verification/Link_Box_Invariant.thy ===== *)
theory Link_Box_Invariant
  imports Link_Box
begin

text \<open>
  The runs of the link box store, what every state of a run satisfies, and the effect of each arm
  on one box. An \<open>arm\<close> is one call with its arguments; the mutex makes a run a list of them.
\<close>

section \<open>Runs\<close>

datatype arm =
    Register ctx "LinkBoxRegistration option" time duration u64
  | Deposit ctx bytes bytes bytes time
  | Collect ctx "LinkBoxCollectRequest option" time
  | Retire ctx bytes bytes time
  | Sweep ctx time LinkBoxSweepBounds

fun armTime :: "arm \<Rightarrow> time" where
  "armTime (Register _ _ now _ _) = now"
| "armTime (Deposit _ _ _ _ now) = now"
| "armTime (Collect _ _ now) = now"
| "armTime (Retire _ _ _ now) = now"
| "armTime (Sweep _ now _) = now"

fun runArm :: "hash \<Rightarrow> arm \<Rightarrow> LinkBoxStore \<Rightarrow> LinkBoxStore" where
  "runArm H (Register ctx r now ttl cap) s = fst (RegisterLinkBox ctx s r now ttl cap)"
| "runArm H (Deposit ctx rid pub ct now) s = fst (DepositLinkBox H ctx s rid pub ct now)"
| "runArm H (Collect ctx q now) s = fst (CollectLinkBox ctx s q now)"
| "runArm H (Retire ctx rid pub now) s = fst (RetireLinkBox ctx s rid pub now)"
| "runArm H (Sweep ctx now bounds) s = fst (SweepLinkBoxes ctx s now bounds)"

definition runArms :: "hash \<Rightarrow> arm list \<Rightarrow> LinkBoxStore \<Rightarrow> LinkBoxStore" where
  "runArms H = fold (runArm H)"

lemma runArms_simps [simp]:
  "runArms H [] s = s"
  "runArms H (a # as) s = runArms H as (runArm H a s)"
  "runArms H (as @ bs) s = runArms H bs (runArms H as s)"
  by (simp_all add: runArms_def)

section \<open>The invariant\<close>

definition deposit_ok :: "hash \<Rightarrow> bytes \<Rightarrow> memoryLinkBoxRow \<Rightarrow> memoryLinkDepositRow \<Rightarrow> bool" where
  "deposit_ok H k row d \<longleftrightarrow>
     drRendezvousId d = k \<and> drDepositHash d = H (drDepositCt d) \<and>
     drPruneAfter d = lrExpireTime row \<and> 1 \<le> drDepositId d \<and> drDepositId d < lrNextDepositId row"

definition box_ok :: "hash \<Rightarrow> bytes \<Rightarrow> memoryLinkBoxRow option \<Rightarrow> memoryLinkDepositRow list \<Rightarrow> bool" where
  "box_ok H k b ds =
     (case b of
        None \<Rightarrow> ds = []
      | Some row \<Rightarrow>
          lrRendezvousId row = k \<and> length k = RendezvousIdBytes \<and>
          length (lrDepositVerifyPub row) = VerifyPubBytes \<and>
          length (lrCollectVerifyPub row) = VerifyPubBytes \<and> 1 \<le> lrNextDepositId row \<and> lrNextDepositId row \<le> 3 \<and>
          lrDepositCount row = of_nat (length ds) \<and> lrReclaimAfter row = lrExpireTime row \<and>
          (lrRetiredTime row \<noteq> None \<longrightarrow> ds = []) \<and>
          sorted_wrt (\<lambda>d e. drDepositId d < drDepositId e) ds \<and>
          distinct (map drDepositHash ds) \<and>
          (\<forall>d \<in> set ds. deposit_ok H k row d))"

definition link_inv :: "hash \<Rightarrow> LinkBoxStore \<Rightarrow> bool" where
  "link_inv H s \<longleftrightarrow> distinct (map fst (lsBoxes s)) \<and> distinct (map fst (lsDeposits s)) \<and>
     (\<forall>k. box_ok H k (boxAt s k) (depositsAt s k))"

section \<open>Lookups\<close>

lemma depositsOf_simps [simp]:
  "depositsOf (AList.update k ds m) k' = (if k' = k then ds else depositsOf m k')"
  "depositsOf (AList.delete k m) k' = (if k' = k then [] else depositsOf m k')"
  by (simp_all add: depositsOf_def update_conv' delete_conv')

lemma lookups [simp]:
  "boxAt (putBox s k row) k' = (if k' = k then Some row else boxAt s k')"
  "depositsAt (putBox s k row) k' = depositsAt s k'"
  "boxAt (putDeposits s k ds) k' = boxAt s k'"
  "depositsAt (putDeposits s k ds) k' = (if k' = k then ds else depositsAt s k')"
  "boxAt (s\<lparr>lsDeposits := m\<rparr>) k' = boxAt s k'"
  "depositsAt (s\<lparr>lsDeposits := m\<rparr>) k' = depositsOf m k'"
  by (simp_all add: boxAt_def depositsAt_def putBox_def putDeposits_def update_conv')

lemma keys_distinct [simp]:
  "distinct (map fst (lsBoxes (putDeposits s k ds))) = distinct (map fst (lsBoxes s))"
  "distinct (map fst (lsDeposits (putBox s k row))) = distinct (map fst (lsDeposits s))"
  by (simp_all add: putBox_def putDeposits_def)

lemma keys_distinct_put [simp]:
  "distinct (map fst (lsBoxes s)) \<Longrightarrow> distinct (map fst (lsBoxes (putBox s k row)))"
  "distinct (map fst (lsDeposits s)) \<Longrightarrow> distinct (map fst (lsDeposits (putDeposits s k ds)))"
  by (simp_all add: putBox_def putDeposits_def distinct_update)

lemma liveLinkBox_Some:
  "liveLinkBox s k now pub pinned = Some row \<longleftrightarrow>
     boxAt s k = Some row \<and> Live (linkBox row) now \<and> pinned row = pub"
  by (auto simp: liveLinkBox_def split: option.splits if_splits)

lemma Live_linkBox: "Live (linkBox row) now \<longleftrightarrow> lrRetiredTime row = None \<and> linkBoxTime now < lrExpireTime row"
  by (simp add: Live_def linkBox_def)

lemma linkBoxTime_idem [simp]: "linkBoxTime (linkBoxTime t) = linkBoxTime t"
  by (simp add: linkBoxTime_def mod_diff_left_eq)

lemma linkBoxTime_mono: "t \<le> t' \<Longrightarrow> linkBoxTime t \<le> linkBoxTime t'"
  unfolding linkBoxTime_def minus_mod_eq_mult_div by (simp add: zdiv_mono1)

lemma liveLinkBox_trunc: "liveLinkBox s k (linkBoxTime now) pub pinned = liveLinkBox s k now pub pinned"
  by (simp add: liveLinkBox_def Live_linkBox split: option.split)

lemma link_invI:
  assumes "link_inv H s" and "distinct (map fst (lsBoxes s'))" and "distinct (map fst (lsDeposits s'))"
    and "\<And>k'. k' \<noteq> k \<Longrightarrow> boxAt s' k' = boxAt s k' \<and> depositsAt s' k' = depositsAt s k'"
    and "box_ok H k (boxAt s' k) (depositsAt s' k)"
  shows "link_inv H s'"
  using assms unfolding link_inv_def by metis

lemma link_inv_distinct: "link_inv H s \<Longrightarrow> distinct (map fst (lsBoxes s))"
  "link_inv H s \<Longrightarrow> distinct (map fst (lsDeposits s))"
  by (simp_all add: link_inv_def)

lemma link_inv_box: "link_inv H s \<Longrightarrow> box_ok H k (boxAt s k) (depositsAt s k)"
  by (simp add: link_inv_def)

section \<open>What each arm does to its box\<close>

definition freshRow :: "LinkBoxRegistration \<Rightarrow> time \<Rightarrow> time \<Rightarrow> memoryLinkBoxRow" where
  "freshRow r now expire =
     \<lparr> lrRendezvousId = lgRendezvousId r, lrKind = LinkBoxKind,
       lrDepositVerifyPub = lgDepositVerifyPub r, lrCollectVerifyPub = lgCollectVerifyPub r,
       lrCardXwingPub = [], lrPublicCt = lgPublicCt r, lrAlgId = LinkBoxAlgId,
       lrNextDepositId = 1, lrDepositCount = 0, lrRefusedCount = 0, lrRegisterTime = now,
       lrRefreshTime = now, lrExpireTime = expire, lrRetiredTime = None, lrReclaimAfter = expire \<rparr>"

definition registration_ok :: "LinkBoxRegistration \<Rightarrow> bool" where
  "registration_ok r \<longleftrightarrow> length (lgRendezvousId r) = RendezvousIdBytes \<and>
     length (lgDepositVerifyPub r) = VerifyPubBytes \<and> length (lgCollectVerifyPub r) = VerifyPubBytes"

lemma RegisterLinkBox_cases:
  obtains (same) "fst (RegisterLinkBox ctx s registration now ttl cap) = s"
  | (fresh) r where "registration = Some r" "registration_ok r" "boxAt s (lgRendezvousId r) = None"
      "of_nat (liveCount s (linkBoxTime now)) < cap"
      "fst (RegisterLinkBox ctx s registration now ttl cap) =
         putBox s (lgRendezvousId r) (freshRow r (linkBoxTime now) (linkBoxTime (linkBoxTime now + ttl)))"
proof (cases "or_else (ctxErr ctx) (validateLinkBoxRegistration registration ttl cap)")
  case (Some e)
  with same show ?thesis by (simp add: RegisterLinkBox_def)
next
  case None
  then obtain r where r: "registration = Some r" "registration_ok r"
    by (auto simp: validateLinkBoxRegistration_def registration_ok_def split: option.splits if_splits)
  show ?thesis
  proof (cases "boxAt s (lgRendezvousId r) = None \<and> of_nat (liveCount s (linkBoxTime now)) < cap")
    case True
    with None r fresh show ?thesis
      by (simp add: RegisterLinkBox_def putBox_def freshRow_def Let_def linorder_not_less [symmetric]
          del: or_else_None)
  next
    case False
    with None r same show ?thesis
      by (auto simp: RegisterLinkBox_def Let_def split: option.splits)
  qed
qed

definition freshDeposit :: "hash \<Rightarrow> bytes \<Rightarrow> bytes \<Rightarrow> time \<Rightarrow> memoryLinkBoxRow \<Rightarrow> memoryLinkDepositRow" where
  "freshDeposit H rid ct now row =
     \<lparr> drRendezvousId = rid, drDepositId = lrNextDepositId row, drDepositHash = H ct,
       drDepositCt = ct, drCreateTime = now, drPruneAfter = lrExpireTime row \<rparr>"

lemma DepositLinkBox_cases:
  assumes "DepositLinkBox H ctx s rid pub ct now = (s', answer)"
  obtains (error) e where "s' = s" "answer = Inl e"
  | (dead) "s' = s" "answer = Inr (depositRefused REASON_CARD_RETIRED)"
      "liveLinkBox s rid now pub depositKeyOf = None"
  | (replay) row d where "s' = s" "liveLinkBox s rid now pub depositKeyOf = Some row"
      "d \<in> set (depositsAt s rid)" "drDepositHash d = H ct"
      "answer = Inr \<lparr> ldReason = REASON_OK, ldDepositId = drDepositId d, ldDepositHash = H ct,
         ldPendingCount = lrDepositCount row, ldReplayed = True \<rparr>"
  | (full) row where "liveLinkBox s rid now pub depositKeyOf = Some row"
      "2 \<le> lrNextDepositId row - 1" "\<forall>d \<in> set (depositsAt s rid). drDepositHash d \<noteq> H ct"
      "s' = putBox s rid (row\<lparr>lrRefusedCount := lrRefusedCount row + 1\<rparr>)"
      "answer = Inr (depositRefused REASON_CARD_RATE_LIMITED)"
  | (taken) row where "liveLinkBox s rid now pub depositKeyOf = Some row"
      "lrNextDepositId row - 1 < 2" "\<forall>d \<in> set (depositsAt s rid). drDepositHash d \<noteq> H ct"
      "s' = putBox (putDeposits s rid (depositsAt s rid @ [freshDeposit H rid ct (linkBoxTime now) row])) rid
         (row\<lparr>lrNextDepositId := lrNextDepositId row + 1, lrDepositCount := lrDepositCount row + 1\<rparr>)"
      "answer = Inr \<lparr> ldReason = REASON_OK, ldDepositId = lrNextDepositId row, ldDepositHash = H ct,
         ldPendingCount = lrDepositCount row + 1, ldReplayed = False \<rparr>"
proof (cases "or_else (ctxErr ctx) (validateLinkBoxDeposit rid pub ct)")
  case (Some e)
  with assms error show ?thesis by (auto simp: DepositLinkBox_def)
next
  case None
  note e = assms [unfolded DepositLinkBox_def None Let_def linkBoxDepositHash_def, simplified]
  have live: "liveLinkBox s rid (linkBoxTime now) pub depositKeyOf = liveLinkBox s rid now pub depositKeyOf"
    by (rule liveLinkBox_trunc)
  show ?thesis
  proof (cases "liveLinkBox s rid now pub depositKeyOf")
    case None
    with e live dead show ?thesis by simp
  next
    case row: (Some row)
    show ?thesis
    proof (cases "find (\<lambda>d. drDepositHash d = H ct) (depositsAt s rid)")
      case (Some d)
      then have "d \<in> set (depositsAt s rid)" "drDepositHash d = H ct"
        by (auto simp: find_Some_iff)
      with e live row Some replay show ?thesis by simp
    next
      case None
      then have n: "\<forall>d \<in> set (depositsAt s rid). drDepositHash d \<noteq> H ct" by (simp add: find_None_iff)
      show ?thesis
      proof (cases "2 \<le> lrNextDepositId row - 1")
        case True
        with e live row None n full show ?thesis by (simp add: LinkBoxDeposits_def)
      next
        case False
        with e live row None n taken show ?thesis
          by (simp add: LinkBoxDeposits_def freshDeposit_def linorder_not_le)
      qed
    qed
  qed
qed

lemma CollectLinkBox_cases:
  assumes "CollectLinkBox ctx s request now = (s', answer)"
  obtains (error) e where "s' = s" "answer = Inl e"
  | (dead) q where "request = Some q" "s' = s" "answer = Inr collectRefused"
      "liveLinkBox s (lqRendezvousId q) now (lqVerifiedPub q) collectKeyOf = None"
  | (collected) q row kept where "request = Some q"
      "liveLinkBox s (lqRendezvousId q) now (lqVerifiedPub q) collectKeyOf = Some row"
      "kept = filter (\<lambda>d. lqAckThroughDepositId q < drDepositId d) (depositsAt s (lqRendezvousId q))"
      "s' = putBox (putDeposits s (lqRendezvousId q) kept) (lqRendezvousId q)
         (row\<lparr>lrRefusedCount := 0, lrDepositCount := of_nat (length kept)\<rparr>)"
      "answer = Inr \<lparr> lcReason = REASON_OK,
         lcDeposits = fst (linkBoxDepositsAfter (map standingOf kept) (lqSinceDepositId q) (lqLimit q)),
         lcPendingCount = of_nat (length kept), lcRefusedCount = lrRefusedCount row,
         lcExpireTime = lrExpireTime row,
         lcComplete = snd (linkBoxDepositsAfter (map standingOf kept) (lqSinceDepositId q) (lqLimit q)) \<rparr>"
proof (cases "or_else (ctxErr ctx) (case request of None \<Rightarrow> Some ErrIdentifierShape
      | Some q \<Rightarrow> validateLinkBoxAct (lqRendezvousId q) (lqVerifiedPub q))")
  case (Some e)
  with assms error show ?thesis by (auto simp: CollectLinkBox_def)
next
  case None
  then obtain q where q: "request = Some q" by (auto split: option.splits)
  note e = assms [unfolded CollectLinkBox_def None Let_def, simplified]
  have live: "liveLinkBox s (lqRendezvousId q) (linkBoxTime now) (lqVerifiedPub q) collectKeyOf =
      liveLinkBox s (lqRendezvousId q) now (lqVerifiedPub q) collectKeyOf"
    by (rule liveLinkBox_trunc)
  show ?thesis
  proof (cases "liveLinkBox s (lqRendezvousId q) now (lqVerifiedPub q) collectKeyOf")
    case None
    with e live q dead show ?thesis by simp
  next
    case (Some row)
    with e live q collected show ?thesis by (simp add: case_prod_beta)
  qed
qed

lemma RetireLinkBox_cases:
  assumes "RetireLinkBox ctx s rid pub now = (s', answer)"
  obtains (error) e where "s' = s" "answer = Inl e"
  | (dead) "s' = s" "answer = Inr \<lparr> ltReason = REASON_CARD_RETIRED, ltDiscardedDeposits = 0 \<rparr>"
      "liveLinkBox s rid now pub collectKeyOf = None"
  | (retired) row where "liveLinkBox s rid now pub collectKeyOf = Some row"
      "s' = putBox (s\<lparr>lsDeposits := AList.delete rid (lsDeposits s)\<rparr>) rid
         (row\<lparr>lrRetiredTime := Some (linkBoxTime now), lrDepositCount := 0\<rparr>)"
      "answer = Inr \<lparr> ltReason = REASON_OK, ltDiscardedDeposits = of_nat (length (depositsAt s rid)) \<rparr>"
proof (cases "or_else (ctxErr ctx) (validateLinkBoxAct rid pub)")
  case (Some e)
  with assms error show ?thesis by (auto simp: RetireLinkBox_def)
next
  case None
  note e = assms [unfolded RetireLinkBox_def None Let_def, simplified]
  have live: "liveLinkBox s rid (linkBoxTime now) pub collectKeyOf = liveLinkBox s rid now pub collectKeyOf"
    by (rule liveLinkBox_trunc)
  show ?thesis
  proof (cases "liveLinkBox s rid now pub collectKeyOf")
    case None
    with e live dead show ?thesis by simp
  next
    case (Some row)
    with e live retired show ?thesis by simp
  qed
qed

section \<open>The sweep on one box\<close>

definition filed :: "(bytes \<times> memoryLinkDepositRow list) list \<Rightarrow> bool" where
  "filed m \<longleftrightarrow> (\<forall>k. \<forall>d \<in> set (depositsOf m k). drRendezvousId d = k)"

lemma depositsOf_deleteDeposit:
  assumes "filed m"
  shows "depositsOf (deleteDeposit d m) k = filter (\<lambda>e. e \<noteq> d) (depositsOf m k)"
proof (cases "drRendezvousId d = k")
  case True
  then show ?thesis by (auto simp: deleteDeposit_def Let_def)
next
  case False
  with assms have "filter (\<lambda>e. e \<noteq> d) (depositsOf m k) = depositsOf m k"
    by (intro filter_True) (auto simp: filed_def)
  with False show ?thesis by (auto simp: deleteDeposit_def Let_def)
qed

lemma deleteDeposit_keeps:
  "filed m \<Longrightarrow> filed (deleteDeposit d m)"
  "distinct (map fst m) \<Longrightarrow> distinct (map fst (deleteDeposit d m))"
  by (auto simp: filed_def depositsOf_deleteDeposit [unfolded filed_def])
    (simp add: deleteDeposit_def Let_def distinct_update distinct_delete)

lemma fold_deleteDeposit:
  assumes "filed m"
  shows "depositsOf (fold deleteDeposit due m) k = filter (\<lambda>e. e \<notin> set due) (depositsOf m k)"
  using assms
proof (induction due arbitrary: m)
  case (Cons d due)
  then show ?case
    by (simp add: deleteDeposit_keeps depositsOf_deleteDeposit)
qed simp

lemma fold_deleteDeposit_distinct:
  "distinct (map fst m) \<Longrightarrow> distinct (map fst (fold deleteDeposit due m))"
  by (induction due arbitrary: m) (simp_all add: deleteDeposit_keeps)

lemma map_of_recount:
  "map_of (recount D key boxes) k =
     map_option (\<lambda>row. if k = key then row\<lparr>lrDepositCount := of_nat (length (depositsOf D k))\<rparr> else row)
       (map_of boxes k)"
proof (cases "map_of boxes key")
  case None
  then show ?thesis by (cases "k = key") (auto simp: recount_def option.map_ident_strong)
next
  case (Some row)
  then show ?thesis by (auto simp: recount_def update_conv' option.map_ident_strong)
qed

lemma map_of_fold_recount:
  "map_of (fold (recount D) keys boxes) k =
     map_option (\<lambda>row. if k \<in> set keys then row\<lparr>lrDepositCount := of_nat (length (depositsOf D k))\<rparr> else row)
       (map_of boxes k)"
  by (induction keys arbitrary: boxes) (auto simp: map_of_recount option.map_comp option.map_ident_strong
      cong: map_option_cong intro!: map_option_cong)

lemma fold_recount_distinct:
  "distinct (map fst boxes) \<Longrightarrow> distinct (map fst (fold (recount D) keys boxes))"
  by (induction keys arbitrary: boxes) (simp_all add: recount_def distinct_update split: option.split)

lemma fold_delete:
  "map_of (fold AList.delete keys m) k = (if k \<in> set keys then None else map_of m k)"
  "distinct (map fst m) \<Longrightarrow> distinct (map fst (fold AList.delete keys m))"
  by (induction keys arbitrary: m) (auto simp: delete_conv' distinct_delete)

lemma depositsOf_fold_delete:
  "depositsOf (fold AList.delete keys m) k = (if k \<in> set keys then [] else depositsOf m k)"
  by (simp add: depositsOf_def fold_delete)

lemma map_of_values: "distinct (map fst m) \<Longrightarrow> v \<in> set (map snd m) \<longleftrightarrow> (\<exists>k. map_of m k = Some v)"
  by (force dest: map_of_SomeD)

lemma set_concat_deposits:
  assumes "distinct (map fst m)"
  shows "d \<in> set (concat (map snd m)) \<longleftrightarrow> (\<exists>k. d \<in> set (depositsOf m k))"
  using assms by (force simp: depositsOf_def dest: map_of_SomeD split: option.splits)

lemma bounded_take:
  fixes bound :: u32
  shows "set (if bound < of_nat (length xs) then take (unat bound) xs else xs) \<subseteq> set xs"
    and "(of_nat (length (if bound < of_nat (length xs) then take (unat bound) xs else xs)) :: u32) < bound \<Longrightarrow>
      (if bound < of_nat (length xs) then take (unat bound) xs else xs) = xs"
proof -
  have "unat bound < length xs" if "bound < of_nat (length xs)"
    using that mod_less_eq_dividend [of "length xs" "2 ^ 32"]
    by (simp add: word_less_nat_alt unat_of_nat)
  then show "(of_nat (length (if bound < of_nat (length xs) then take (unat bound) xs else xs)) :: u32) < bound \<Longrightarrow>
      (if bound < of_nat (length xs) then take (unat bound) xs else xs) = xs"
    by (auto simp: min_def split: if_splits)
qed (auto dest: in_set_takeD)

lemma set_dueDeposits:
  assumes "d \<in> set (dueDeposits s now bound)"
  shows "drPruneAfter d \<le> now" and "d \<in> set (concat (map snd (lsDeposits s)))"
  using assms by (auto simp: dueDeposits_def Let_def dest!: in_set_takeD split: if_splits)

lemma all_dueDeposits:
  assumes "of_nat (length (dueDeposits s now bound)) < bound"
    and "d \<in> set (concat (map snd (lsDeposits s)))" and "drPruneAfter d \<le> now"
  shows "d \<in> set (dueDeposits s now bound)"
  using assms(1) unfolding dueDeposits_def Let_def
  by (subst bounded_take(2)) (use assms(2,3) in simp_all)

lemma set_dueBoxes:
  assumes "row \<in> set (dueBoxes boxes now bound)"
  shows "lrReclaimAfter row \<le> now" and "row \<in> set (map snd boxes)"
  using assms by (auto simp: dueBoxes_def Let_def dest!: in_set_takeD split: if_splits)

lemma all_dueBoxes:
  assumes "of_nat (length (dueBoxes boxes now bound)) < bound"
    and "row \<in> set (map snd boxes)" and "lrReclaimAfter row \<le> now"
  shows "row \<in> set (dueBoxes boxes now bound)"
  using assms(1) unfolding dueBoxes_def Let_def
  by (subst bounded_take(2)) (use assms(2,3) in auto)

lemma link_inv_filed: "link_inv H s \<Longrightarrow> filed (lsDeposits s)"
proof -
  assume inv: "link_inv H s"
  have "drRendezvousId d = k" if "d \<in> set (depositsAt s k)" for k d
    using link_inv_box [OF inv, of k] that
    by (auto simp: box_ok_def deposit_ok_def split: option.splits)
  then show ?thesis by (simp add: filed_def depositsAt_def)
qed

definition recounted :: "memoryLinkDepositRow list \<Rightarrow> memoryLinkBoxRow \<Rightarrow> memoryLinkBoxRow" where
  "recounted ds row = row\<lparr>lrDepositCount := of_nat (length ds)\<rparr>"

text \<open>What the two batches of a sweep leave, over the maps it builds on the way.\<close>

lemma swept_maps:
  assumes inv: "link_inv H s" and D: "D = fold deleteDeposit due (lsDeposits s)"
    and B: "B = fold (recount D) (remdups (map drRendezvousId due)) (lsBoxes s)"
  shows "depositsOf D k = filter (\<lambda>d. d \<notin> set due) (depositsAt s k)"
    and "map_of B k = map_option (recounted (depositsOf D k)) (boxAt s k)"
    and "distinct (map fst B)" and "distinct (map fst D)"
proof -
  show D': "depositsOf D k = filter (\<lambda>d. d \<notin> set due) (depositsAt s k)" for k
    unfolding D depositsAt_def by (rule fold_deleteDeposit) (rule link_inv_filed [OF inv])
  show "map_of B k = map_option (recounted (depositsOf D k)) (boxAt s k)"
  proof (cases "boxAt s k")
    case (Some row)
    then have ok: "lrDepositCount row = of_nat (length (depositsAt s k))"
      "\<forall>d \<in> set (depositsAt s k). drRendezvousId d = k"
      using link_inv_box [OF inv, of k] by (auto simp: box_ok_def deposit_ok_def)
    show ?thesis
    proof (cases "k \<in> drRendezvousId ` set due")
      case False
      with ok(2) have "depositsOf D k = depositsAt s k" unfolding D' by (intro filter_True) auto
      with Some False ok(1) show ?thesis by (simp add: B map_of_fold_recount recounted_def boxAt_def)
    qed (use Some in \<open>simp add: B map_of_fold_recount recounted_def boxAt_def\<close>)
  qed (simp add: B map_of_fold_recount boxAt_def)
  show "distinct (map fst B)" "distinct (map fst D)"
    using link_inv_distinct [OF inv] by (simp_all add: B D fold_recount_distinct fold_deleteDeposit_distinct)
qed

lemma swept_boxes:
  assumes inv: "link_inv H s" and B: "\<And>k. map_of B k = map_option (recounted (f k)) (boxAt s k)"
    and dist: "distinct (map fst B)"
  shows "k \<in> set (map lrRendezvousId (dueBoxes B t n)) \<Longrightarrow> \<exists>row. boxAt s k = Some row \<and> lrExpireTime row \<le> t"
    and "of_nat (length (dueBoxes B t n)) < n \<Longrightarrow> boxAt s k = Some row \<Longrightarrow> lrReclaimAfter row \<le> t \<Longrightarrow>
      k \<in> set (map lrRendezvousId (dueBoxes B t n))"
proof -
  assume "k \<in> set (map lrRendezvousId (dueBoxes B t n))"
  then obtain r where r: "r \<in> set (dueBoxes B t n)" "k = lrRendezvousId r" by auto
  with set_dueBoxes [of r B] dist obtain k' where k': "map_of B k' = Some r" "lrReclaimAfter r \<le> t"
    by (metis map_of_values)
  then obtain row where row: "boxAt s k' = Some row" "r = recounted (f k') row" unfolding B by auto
  with link_inv_box [OF inv, of k'] have "lrRendezvousId row = k'" "lrReclaimAfter row = lrExpireTime row"
    by (simp_all add: box_ok_def)
  with row r k'(2) show "\<exists>row. boxAt s k = Some row \<and> lrExpireTime row \<le> t" by (simp add: recounted_def)
next
  assume n: "of_nat (length (dueBoxes B t n)) < n" and row: "boxAt s k = Some row" "lrReclaimAfter row \<le> t"
  let ?r = "recounted (f k) row"
  from row(1) have "?r \<in> set (map snd B)" using B map_of_values [OF dist] by auto
  then have "?r \<in> set (dueBoxes B t n)" using n row(2) by (intro all_dueBoxes) (simp_all add: recounted_def)
  moreover have "lrRendezvousId ?r = k"
    using link_inv_box [OF inv, of k] row(1) by (simp add: box_ok_def recounted_def)
  ultimately show "k \<in> set (map lrRendezvousId (dueBoxes B t n))" by force
qed

lemma SweepLinkBoxes_cases:
  assumes inv: "link_inv H s" and e: "SweepLinkBoxes ctx s now bounds = (s', answer)"
  obtains (error) e where "s' = s" "answer = Inl e"
  | (swept) due gone D K where "\<forall>d \<in> due. drPruneAfter d \<le> linkBoxTime now"
      "\<forall>k \<in> gone. \<exists>row. boxAt s k = Some row \<and> lrExpireTime row \<le> linkBoxTime now"
      "\<And>k. depositsAt s' k = (if k \<in> gone then [] else filter (\<lambda>d. d \<notin> due) (depositsAt s k))"
      "\<And>k. boxAt s' k = (if k \<in> gone then None
                            else map_option (recounted (depositsAt s' k)) (boxAt s k))"
      "distinct (map fst (lsBoxes s'))" "distinct (map fst (lsDeposits s'))"
      "answer = Inr \<lparr> swDeposits = of_nat (length D), swBoxes = of_nat (length K), swSkipped = False \<rparr>"
      "due = set D" "gone = set K" "\<forall>d \<in> due. \<exists>k. d \<in> set (depositsAt s k)"
      "of_nat (length D) < sbDeposits (orDefault bounds) \<Longrightarrow>
         \<forall>k. \<forall>d \<in> set (depositsAt s k). drPruneAfter d \<le> linkBoxTime now \<longrightarrow> d \<in> due"
      "of_nat (length K) < sbBoxes (orDefault bounds) \<Longrightarrow>
         \<forall>k row. boxAt s k = Some row \<longrightarrow> lrReclaimAfter row \<le> linkBoxTime now \<longrightarrow> k \<in> gone"
proof (cases "ctxErr ctx")
  case (Some x)
  with e error show ?thesis by (auto simp: SweepLinkBoxes_def)
next
  case None
  define due where "due = dueDeposits s (linkBoxTime now) (sbDeposits (orDefault bounds))"
  define D where "D = fold deleteDeposit due (lsDeposits s)"
  define B where "B = fold (recount D) (remdups (map drRendezvousId due)) (lsBoxes s)"
  define rows where "rows = dueBoxes B (linkBoxTime now) (sbBoxes (orDefault bounds))"
  define keys where "keys = map lrRendezvousId rows"
  from e None have s': "s' = \<lparr> lsBoxes = fold AList.delete keys B, lsDeposits = fold AList.delete keys D \<rparr>"
    by (simp add: SweepLinkBoxes_def Let_def due_def D_def B_def rows_def keys_def)
  note D = swept_maps(1) [OF inv D_def B_def] and B = swept_maps(2) [OF inv D_def B_def]
    and dist = swept_maps(3,4) [OF inv D_def B_def]
  note boxes = swept_boxes [OF inv B dist(1), where t = "linkBoxTime now" and n = "sbBoxes (orDefault bounds)",
      folded rows_def, folded keys_def]
  note d_in = set_concat_deposits [OF link_inv_distinct(2) [OF inv]]
  show ?thesis
  proof (rule swept)
    show "answer = Inr \<lparr> swDeposits = of_nat (length due), swBoxes = of_nat (length keys), swSkipped = False \<rparr>"
      using e None by (simp add: SweepLinkBoxes_def Let_def due_def D_def B_def rows_def keys_def)
    show "\<forall>d \<in> set due. \<exists>k. d \<in> set (depositsAt s k)"
      using set_dueDeposits(2) by (auto simp: due_def depositsAt_def simp flip: d_in)
    show "\<forall>k. \<forall>d \<in> set (depositsAt s k). drPruneAfter d \<le> linkBoxTime now \<longrightarrow> d \<in> set due"
      if "of_nat (length due) < sbDeposits (orDefault bounds)"
      using all_dueDeposits [OF that [unfolded due_def]] d_in by (auto simp: due_def depositsAt_def)
    show "\<forall>k row. boxAt s k = Some row \<longrightarrow> lrReclaimAfter row \<le> linkBoxTime now \<longrightarrow> k \<in> set keys"
      if "of_nat (length keys) < sbBoxes (orDefault bounds)"
      using boxes(2) that by (simp add: keys_def)
    show "\<forall>d \<in> set due. drPruneAfter d \<le> linkBoxTime now" by (auto simp: due_def set_dueDeposits)
    show "\<forall>k \<in> set keys. \<exists>row. boxAt s k = Some row \<and> lrExpireTime row \<le> linkBoxTime now"
      using boxes(1) by blast
    show d: "depositsAt s' k = (if k \<in> set keys then [] else filter (\<lambda>d. d \<notin> set due) (depositsAt s k))" for k
      by (simp add: s' depositsAt_def depositsOf_fold_delete D [unfolded depositsAt_def])
    show "boxAt s' k = (if k \<in> set keys then None
        else map_option (recounted (depositsAt s' k)) (boxAt s k))" for k
      unfolding d by (simp add: s' boxAt_def fold_delete B [unfolded boxAt_def] D)
    show "distinct (map fst (lsBoxes s'))" "distinct (map fst (lsDeposits s'))"
      using dist by (simp_all add: s' fold_delete)
  qed (rule refl)+
qed

lemma deposit_ok_row:
  "lrExpireTime row' = lrExpireTime row \<Longrightarrow> lrNextDepositId row \<le> lrNextDepositId row' \<Longrightarrow>
   deposit_ok H k row d \<Longrightarrow> deposit_ok H k row' d"
  by (auto simp: deposit_ok_def)

section \<open>Every arm keeps the invariant\<close>

lemma register_keeps:
  assumes "link_inv H s"
  shows "link_inv H (fst (RegisterLinkBox ctx s r now ttl cap))"
proof (cases rule: RegisterLinkBox_cases [of ctx s r now ttl cap])
  case (fresh reg)
  show ?thesis unfolding fresh(5)
  proof (rule link_invI [OF assms, where k = "lgRendezvousId reg"])
    have "depositsAt s (lgRendezvousId reg) = []"
      using link_inv_box [OF assms, of "lgRendezvousId reg"] fresh(3) by (simp add: box_ok_def)
    then show "box_ok H (lgRendezvousId reg)
        (boxAt (putBox s (lgRendezvousId reg) (freshRow reg (linkBoxTime now) (linkBoxTime (linkBoxTime now + ttl)))) (lgRendezvousId reg))
        (depositsAt (putBox s (lgRendezvousId reg) (freshRow reg (linkBoxTime now) (linkBoxTime (linkBoxTime now + ttl)))) (lgRendezvousId reg))"
      using fresh(2) by (simp add: box_ok_def freshRow_def registration_ok_def)
  qed (use link_inv_distinct [OF assms] in simp_all)
qed (use assms in simp)

lemma next_deposit:
  "(1::u64) \<le> n \<Longrightarrow> n - 1 < 2 \<Longrightarrow> n < n + 1 \<and> 1 \<le> n + 1 \<and> n + 1 \<le> 3"
proof -
  assume "n - 1 < 2"
  then have "unat (n - 1) < 2" by (simp add: word_less_nat_alt)
  then consider "unat (n - 1) = 0" | "unat (n - 1) = 1" by linarith
  then have "n - 1 = 0 \<or> n - 1 = 1" by cases (simp_all add: word_unat_eq_iff)
  then have "n = 1 \<or> n = 2" by (auto simp: algebra_simps)
  then show ?thesis by auto
qed

lemma deposit_keeps:
  assumes inv: "link_inv H s" and e: "DepositLinkBox H ctx s rid pub ct now = (s', answer)"
  shows "link_inv H s'"
  using e
proof (cases rule: DepositLinkBox_cases)
  case (full row)
  then have "boxAt s rid = Some row" by (simp add: liveLinkBox_Some)
  with link_inv_box [OF inv, of rid] have "box_ok H rid (boxAt s' rid) (depositsAt s' rid)"
    unfolding full(4) by (simp add: box_ok_def deposit_ok_def)
  then show ?thesis
    by (rule link_invI [OF inv, rotated -1]) (use link_inv_distinct [OF inv] full(4) in simp_all)
next
  case (taken row)
  then have row: "boxAt s rid = Some row" "lrRetiredTime row = None" by (simp_all add: liveLinkBox_Some Live_linkBox)
  let ?ds = "depositsAt s rid" and ?d = "freshDeposit H rid ct (linkBoxTime now) row"
  let ?row = "row\<lparr>lrNextDepositId := lrNextDepositId row + 1, lrDepositCount := lrDepositCount row + 1\<rparr>"
  from link_inv_box [OF inv, of rid] row have ok: "box_ok H rid (Some row) ?ds" by simp
  then have n: "lrNextDepositId row < lrNextDepositId row + 1" "1 \<le> lrNextDepositId row"
    "1 \<le> lrNextDepositId row + 1" "lrNextDepositId row + 1 \<le> 3"
    using next_deposit [of "lrNextDepositId row"] taken(2) by (auto simp: box_ok_def)
  have "deposit_ok H rid ?row d" if "d \<in> set ?ds" for d
    using ok that n by (auto simp: box_ok_def intro: deposit_ok_row)
  moreover have "deposit_ok H rid ?row ?d" using n by (simp add: deposit_ok_def freshDeposit_def)
  moreover have "drDepositId d < drDepositId ?d" if "d \<in> set ?ds" for d
    using ok that by (auto simp: box_ok_def deposit_ok_def freshDeposit_def)
  moreover have "drDepositHash ?d \<notin> drDepositHash ` set ?ds"
    using taken(3) by (auto simp: freshDeposit_def)
  ultimately have "box_ok H rid (Some ?row) (?ds @ [?d])"
    using ok row(2) n by (auto simp: box_ok_def)
  then have "box_ok H rid (boxAt s' rid) (depositsAt s' rid)" unfolding taken(4) by simp
  then show ?thesis
    by (rule link_invI [OF inv, rotated -1]) (use link_inv_distinct [OF inv] taken(4) in simp_all)
qed (use inv in simp_all)

lemma box_ok_filter:
  assumes "box_ok H k (Some row) ds"
    and "row' = row\<lparr>lrDepositCount := of_nat (length (filter P ds)), lrRefusedCount := n\<rparr>"
  shows "box_ok H k (Some row') (filter P ds)"
  using assms by (auto simp: box_ok_def sorted_wrt_filter distinct_map_filter intro: deposit_ok_row)

lemma collect_keeps:
  assumes inv: "link_inv H s" and e: "CollectLinkBox ctx s request now = (s', answer)"
  shows "link_inv H s'"
  using e
proof (cases rule: CollectLinkBox_cases)
  case (collected q row kept)
  let ?k = "lqRendezvousId q"
  from collected(2) link_inv_box [OF inv, of ?k] have "box_ok H ?k (Some row) (depositsAt s ?k)"
    by (simp add: liveLinkBox_Some)
  then have "box_ok H ?k (Some (row\<lparr>lrRefusedCount := 0, lrDepositCount := of_nat (length kept)\<rparr>)) kept"
    unfolding collected(3) by (rule box_ok_filter [where n = 0]) simp
  then have "box_ok H ?k (boxAt s' ?k) (depositsAt s' ?k)" unfolding collected(4) by simp
  then show ?thesis
    by (rule link_invI [OF inv, rotated -1]) (use link_inv_distinct [OF inv] collected(4) in simp_all)
qed (use inv in simp_all)

lemma retire_keeps:
  assumes inv: "link_inv H s" and e: "RetireLinkBox ctx s rid pub now = (s', answer)"
  shows "link_inv H s'"
  using e
proof (cases rule: RetireLinkBox_cases)
  case (retired row)
  with link_inv_box [OF inv, of rid] have "box_ok H rid (boxAt s' rid) (depositsAt s' rid)"
    by (simp add: liveLinkBox_Some box_ok_def)
  then show ?thesis
  proof (rule link_invI [OF inv, rotated -1])
    show "boxAt s' k' = boxAt s k' \<and> depositsAt s' k' = depositsAt s k'" if "k' \<noteq> rid" for k'
      unfolding retired(2) using that by simp (simp add: depositsAt_def)
    show "distinct (map fst (lsBoxes s'))" "distinct (map fst (lsDeposits s'))"
      unfolding retired(2) using link_inv_distinct [OF inv] by (simp_all add: distinct_delete)
  qed
qed (use inv in simp_all)

lemma sweep_keeps:
  assumes inv: "link_inv H s" and e: "SweepLinkBoxes ctx s now bounds = (s', answer)"
  shows "link_inv H s'"
  using inv e
proof (cases rule: SweepLinkBoxes_cases)
  case (swept due gone)
  have "box_ok H k (boxAt s' k) (depositsAt s' k)" for k
  proof (cases "k \<in> gone \<or> boxAt s k = None")
    case True
    then show ?thesis using link_inv_box [OF inv, of k] by (auto simp: swept(3,4) box_ok_def)
  next
    case False
    then obtain row where "boxAt s k = Some row" by auto
    moreover have "box_ok H k (Some (recounted (filter (\<lambda>d. d \<notin> due) (depositsAt s k)) row))
        (filter (\<lambda>d. d \<notin> due) (depositsAt s k))"
      using link_inv_box [OF inv, of k] calculation
      by (intro box_ok_filter [where row = row and n = "lrRefusedCount row"]) (simp_all add: recounted_def)
    ultimately show ?thesis using False by (simp add: swept(3,4))
  qed
  with swept(5,6) show ?thesis by (simp add: link_inv_def)
qed (use inv in simp)

lemma runArm_keeps: "link_inv H s \<Longrightarrow> link_inv H (runArm H a s)"
  by (cases a) (auto intro: register_keeps deposit_keeps [OF _ surjective_pairing]
      collect_keeps [OF _ surjective_pairing] retire_keeps [OF _ surjective_pairing]
      sweep_keeps [OF _ surjective_pairing])

interpretation links: transition_system "\<lambda>s. s = NewLinkBoxStore" "\<lambda>s t. \<exists>a. t = runArm H a s" "link_inv H" for H
  by unfold_locales (auto simp: runArm_keeps, simp add: link_inv_def NewLinkBoxStore_def box_ok_def
      boxAt_def depositsAt_def depositsOf_def)

lemma runArms_steps: "(\<lambda>s t. \<exists>a. t = runArm H a s)\<^sup>*\<^sup>* s (runArms H as s)"
proof (induction as arbitrary: s)
  case (Cons a as)
  then show ?case by (auto intro: converse_rtranclp_into_rtranclp)
qed simp

lemma runArms_inv: "link_inv H (runArms H as NewLinkBoxStore)"
  using links.inv_reachable [OF refl runArms_steps] .
end
