(* ===== verification/Link_Box_Properties.thy ===== *)
theory Link_Box_Properties
  imports Link_Box_Invariant
begin

text \<open>
  What a link box promises: it takes two deposits in its life and no more, the cap on live boxes
  holds along every run whose clock does not go back, a deposit that was accepted is handed to the
  holder of the collect key until it acknowledges or retires it or the box expires, and a sweep
  changes the answer of no later arm on a box.
\<close>

section \<open>Definitions\<close>

definition liveKeys :: "LinkBoxStore \<Rightarrow> time \<Rightarrow> bytes set" where
  "liveKeys s t = {k. \<exists>row. boxAt s k = Some row \<and> Live (linkBox row) t}"

fun armCap :: "arm \<Rightarrow> u64" where
  "armCap (Register _ _ _ _ cap) = cap"
| "armCap _ = 0"

text \<open>The arms by which the holder of a collect key gives a deposit up.\<close>

fun givesUp :: "bytes \<Rightarrow> bytes \<Rightarrow> u64 \<Rightarrow> arm \<Rightarrow> bool" where
  "givesUp rid pub depositId (Collect _ (Some q) _) \<longleftrightarrow>
     lqRendezvousId q = rid \<and> lqVerifiedPub q = pub \<and> depositId \<le> lqAckThroughDepositId q"
| "givesUp rid pub depositId (Retire _ rid' pub' _) \<longleftrightarrow> rid' = rid \<and> pub' = pub"
| "givesUp rid pub depositId _ \<longleftrightarrow> False"

definition demoId :: bytes where "demoId = replicate 32 1"
definition demoPub :: bytes where "demoPub = replicate 32 2"
definition demoCt :: bytes where "demoCt = replicate 17526 3"

definition demoRegistration :: LinkBoxRegistration where
  "demoRegistration = \<lparr> lgRendezvousId = demoId, lgDepositVerifyPub = demoPub,
     lgCollectVerifyPub = demoPub, lgPublicCt = replicate 4124 0 \<rparr>"

definition demoRegister :: arm where
  "demoRegister = Register None (Some demoRegistration) 0 5000 1"

definition demoDeposit :: arm where
  "demoDeposit = Deposit None demoId demoPub demoCt 1000"

lemmas demo_link_defs =
  demoId_def demoPub_def demoCt_def demoRegistration_def demoRegister_def demoDeposit_def

section \<open>Lemmas\<close>

lemma sorted_ids_length:
  assumes "sorted_wrt (\<lambda>d e. f d < (f e :: u64)) ds" and "\<forall>d \<in> set ds. 1 \<le> f d \<and> f d < n"
  shows "length ds \<le> unat n - 1"
proof -
  have "distinct (map f ds)"
    using assms(1) by (intro distinct_map_sorted_wrt) (auto elim: sorted_wrt_mono_rel [rotated])
  then have "length ds = card (unat ` f ` set ds)"
    by (metis card_image distinct_card inj_on_def length_map list.set_map word_unat_eq_iff)
  also have "\<dots> \<le> card {1 ..< unat n}"
    using assms(2) by (intro card_mono) (auto simp: word_le_nat_alt word_less_nat_alt)
  finally show ?thesis by simp
qed

lemma finite_liveKeys: "finite (liveKeys s t)"
  by (rule finite_subset [of _ "dom (map_of (lsBoxes s))"])
    (auto simp: liveKeys_def boxAt_def finite_dom_map_of)

lemma liveCount_card:
  assumes "distinct (map fst (lsBoxes s))"
  shows "liveCount s t = card (liveKeys s t)"
proof -
  let ?live = "filter (\<lambda>(_, row). Live (linkBox row) t) (lsBoxes s)"
  have "distinct (map fst ?live)" using assms by (rule distinct_map_filter)
  then have "liveCount s t = card (fst ` set ?live)"
    using distinct_card [of "map fst ?live"] by (simp add: liveCount_def)
  also have "fst ` set ?live = liveKeys s t"
    using assms by (force simp: liveKeys_def boxAt_def)
  finally show ?thesis .
qed

lemma Live_mono: "t \<le> t' \<Longrightarrow> Live box t' \<Longrightarrow> Live box t"
  using linkBoxTime_mono [of t t'] by (simp add: Live_def)

lemma liveKeys_mono: "t \<le> t' \<Longrightarrow> liveKeys s t' \<subseteq> liveKeys s t"
  by (auto simp: liveKeys_def intro: Live_mono)

text \<open>No arm but a registration adds to the live boxes, and a registration adds its own.\<close>

lemma liveKeys_put:
  "liveKeys (putBox s k row) t \<subseteq> insert k (liveKeys s t)"
  "boxAt s k = Some row0 \<Longrightarrow> (Live (linkBox row) t \<Longrightarrow> Live (linkBox row0) t) \<Longrightarrow>
     liveKeys (putBox s k row) t \<subseteq> liveKeys s t"
  by (auto simp: liveKeys_def split: if_splits)

lemma liveKeys_deposits [simp]:
  "liveKeys (putDeposits s k ds) t = liveKeys s t"
  "liveKeys (s\<lparr>lsDeposits := m\<rparr>) t = liveKeys s t"
  by (simp_all add: liveKeys_def)

lemma liveKeys_runArm:
  assumes inv: "link_inv H s" and "\<forall>ctx r now ttl cap. a \<noteq> Register ctx r now ttl cap"
  shows "liveKeys (runArm H a s) t \<subseteq> liveKeys s t"
proof (cases a)
  case (Deposit ctx rid pub ct now)
  obtain s' x where e: "DepositLinkBox H ctx s rid pub ct now = (s', x)" by fastforce
  then have "liveKeys s' t \<subseteq> liveKeys s t"
  proof (cases rule: DepositLinkBox_cases)
    case (full row)
    then show ?thesis
      by (simp add: liveLinkBox_Some) (rule liveKeys_put(2), auto simp: Live_linkBox)
  next
    case (taken row)
    then show ?thesis
      by (simp add: liveLinkBox_Some)
        (rule liveKeys_put(2) [of "putDeposits s rid _", simplified], auto simp: Live_linkBox)
  qed simp_all
  with e Deposit show ?thesis by simp
next
  case (Collect ctx q now)
  obtain s' x where e: "CollectLinkBox ctx s q now = (s', x)" by fastforce
  then have "liveKeys s' t \<subseteq> liveKeys s t"
  proof (cases rule: CollectLinkBox_cases)
    case (collected q row kept)
    then show ?thesis
      by (simp add: liveLinkBox_Some)
        (rule liveKeys_put(2) [of "putDeposits s _ _", simplified], auto simp: Live_linkBox)
  qed simp_all
  with e Collect show ?thesis by simp
next
  case (Retire ctx rid pub now)
  obtain s' x where e: "RetireLinkBox ctx s rid pub now = (s', x)" by fastforce
  then have "liveKeys s' t \<subseteq> liveKeys s t"
  proof (cases rule: RetireLinkBox_cases)
    case (retired row)
    then show ?thesis
      by (auto simp: liveKeys_def Live_linkBox split: if_splits)
  qed simp_all
  with e Retire show ?thesis by simp
next
  case (Sweep ctx now bounds)
  obtain s' x where e: "SweepLinkBoxes ctx s now bounds = (s', x)" by fastforce
  with inv have "liveKeys s' t \<subseteq> liveKeys s t"
  proof (cases rule: SweepLinkBoxes_cases)
    case (swept due gone)
    then show ?thesis by (auto simp: liveKeys_def Live_linkBox recounted_def split: if_splits)
  qed simp
  with e Sweep show ?thesis by simp
qed (use assms(2) in blast)

lemma cap_step:
  assumes inv: "link_inv H s" and t: "armTime a \<le> t" and cap: "armCap a \<le> cap"
    and c: "card (liveKeys s (armTime a)) \<le> unat cap"
  shows "card (liveKeys (runArm H a s) t) \<le> unat cap"
proof -
  have c': "card (liveKeys s t) \<le> unat cap"
    using card_mono [OF finite_liveKeys liveKeys_mono [OF t, of s]] c by simp
  show ?thesis
  proof (cases "\<forall>ctx r now ttl n. a \<noteq> Register ctx r now ttl n")
    case True
    from card_mono [OF finite_liveKeys liveKeys_runArm [OF inv True, of t]] c' show ?thesis by simp
  next
    case False
    then obtain ctx r now ttl n where a: "a = Register ctx r now ttl n" by blast
    show ?thesis
    proof (cases rule: RegisterLinkBox_cases [of ctx s r now ttl n])
      case same
      with c' a show ?thesis by simp
    next
      case (fresh reg)
      let ?n = "card (liveKeys s (linkBoxTime now))"
      have trunc: "liveKeys s (linkBoxTime now) = liveKeys s now" by (simp add: liveKeys_def Live_linkBox)
      with c a have small: "?n < 2 ^ 64" using unsigned_less [where ?'a = nat and w = cap] by simp
      have "of_nat ?n < n" using fresh(4) liveCount_card [OF link_inv_distinct(1) [OF inv]] by simp
      with cap a have "of_nat ?n < cap" by simp
      with small have "?n < unat cap" by (simp add: word_less_nat_alt unat_of_nat)
      moreover have "card (liveKeys (runArm H a s) t) \<le> card (insert (lgRendezvousId reg) (liveKeys s t))"
        unfolding a runArm.simps fresh(5) by (intro card_mono liveKeys_put) (simp add: finite_liveKeys)
      moreover have "card (liveKeys s t) \<le> ?n"
        unfolding trunc using t a by (intro card_mono finite_liveKeys liveKeys_mono) simp
      moreover have "card (insert (lgRendezvousId reg) (liveKeys s t)) \<le> Suc (card (liveKeys s t))"
        by (simp add: card_insert_if finite_liveKeys)
      ultimately show ?thesis by linarith
    qed
  qed
qed

lemma cap_run:
  assumes "link_inv H s" and "sorted (map armTime arms)" and "\<forall>a \<in> set arms. armCap a \<le> cap"
    and "\<forall>a \<in> set arms. armTime a \<le> now" and "\<forall>a \<in> set arms. t \<le> armTime a"
    and "card (liveKeys s t) \<le> unat cap" and "t \<le> now"
  shows "card (liveKeys (runArms H arms s) now) \<le> unat cap"
  using assms
proof (induction arms arbitrary: s t)
  case Nil
  then show ?case using card_mono [OF finite_liveKeys liveKeys_mono [of t now s]] by simp
next
  case (Cons a arms)
  have "card (liveKeys s (armTime a)) \<le> unat cap"
    using card_mono [OF finite_liveKeys liveKeys_mono [of t "armTime a" s]] Cons.prems by simp
  then have "card (liveKeys (runArm H a s) (armTime a)) \<le> unat cap"
    using Cons.prems by (intro cap_step) simp_all
  with Cons.prems show ?case
    by (simp, intro Cons.IH [of "runArm H a s" "armTime a"]) (simp_all add: runArm_keeps)
qed

subsection \<open>A deposit that stands\<close>

definition holds :: "LinkBoxStore \<Rightarrow> bytes \<Rightarrow> bytes \<Rightarrow> time \<Rightarrow> memoryLinkDepositRow \<Rightarrow> bool" where
  "holds s rid pub expire d \<longleftrightarrow>
     (\<exists>row. boxAt s rid = Some row \<and> lrCollectVerifyPub row = pub \<and> lrExpireTime row = expire \<and>
        d \<in> set (depositsAt s rid))"

lemma holds_put:
  assumes "holds s rid pub expire d" and "boxAt s k = Some row"
    and "lrCollectVerifyPub row' = lrCollectVerifyPub row" "lrExpireTime row' = lrExpireTime row"
    and "k = rid \<Longrightarrow> d \<in> set ds"
  shows "holds (putBox (putDeposits s k ds) k row') rid pub expire d"
  using assms by (auto simp: holds_def)

lemma holds_collect:
  assumes "holds s rid pub expire d" and e: "CollectLinkBox ctx s request now = (s', answer)"
    and "\<not> givesUp rid pub (drDepositId d) (Collect ctx request now)"
  shows "holds s' rid pub expire d"
  using e
proof (cases rule: CollectLinkBox_cases)
  case (collected q row kept)
  then have row: "boxAt s (lqRendezvousId q) = Some row" "lrCollectVerifyPub row = lqVerifiedPub q"
    by (simp_all add: liveLinkBox_Some collectKeyOf_def)
  have "d \<in> set kept" if "lqRendezvousId q = rid"
    using that assms(1,3) row collected(1,3) by (auto simp: holds_def)
  then show ?thesis unfolding collected(4) using assms(1) row by (intro holds_put) auto
qed (use assms(1) in simp_all)

lemma holds_sweep:
  assumes inv: "link_inv H s" and h: "holds s rid pub expire d" and "linkBoxTime now < expire"
    and e: "SweepLinkBoxes ctx s now bounds = (s', answer)"
  shows "holds s' rid pub expire d"
  using inv e
proof (cases rule: SweepLinkBoxes_cases)
  case (swept due gone)
  from h obtain row where row: "boxAt s rid = Some row" "lrCollectVerifyPub row = pub"
    "lrExpireTime row = expire" "d \<in> set (depositsAt s rid)" by (auto simp: holds_def)
  with swept(2) assms(3) have "rid \<notin> gone" by auto
  moreover from row link_inv_box [OF inv, of rid] have "drPruneAfter d = expire"
    by (auto simp: box_ok_def deposit_ok_def)
  with swept(1) assms(3) have "d \<notin> due" by auto
  ultimately show ?thesis using row by (simp add: holds_def swept(3,4) recounted_def)
qed (use h in simp)

lemma holds_step:
  assumes inv: "link_inv H s" and h: "holds s rid pub expire d"
    and "linkBoxTime (armTime a) < expire" and g: "\<not> givesUp rid pub (drDepositId d) a"
  shows "holds (runArm H a s) rid pub expire d"
proof (cases a)
  case (Register ctx r now ttl cap)
  show ?thesis
    by (cases rule: RegisterLinkBox_cases [of ctx s r now ttl cap])
      (use h Register in \<open>auto simp: holds_def\<close>)
next
  case (Deposit ctx rid' pub' ct now)
  obtain s' x where e: "DepositLinkBox H ctx s rid' pub' ct now = (s', x)" by fastforce
  then have "holds s' rid pub expire d"
  proof (cases rule: DepositLinkBox_cases)
    case (full row)
    then show ?thesis using h by (auto simp: holds_def liveLinkBox_Some)
  next
    case (taken row)
    then show ?thesis unfolding taken(4) using h
      by (intro holds_put) (auto simp: liveLinkBox_Some holds_def)
  qed (use h in simp_all)
  with e Deposit show ?thesis by simp
next
  case (Collect ctx q now)
  with holds_collect [OF h surjective_pairing] g show ?thesis by simp
next
  case (Retire ctx rid' pub' now)
  obtain s' x where e: "RetireLinkBox ctx s rid' pub' now = (s', x)" by fastforce
  then have "holds s' rid pub expire d"
  proof (cases rule: RetireLinkBox_cases)
    case (retired row)
    with h g Retire have "rid' \<noteq> rid" by (auto simp: holds_def liveLinkBox_Some collectKeyOf_def)
    with h show ?thesis unfolding retired(2) holds_def by simp (simp add: depositsAt_def)
  qed (use h in simp_all)
  with e Retire show ?thesis by simp
next
  case (Sweep ctx now bounds)
  with holds_sweep [OF inv h _ surjective_pairing] assms(3) show ?thesis by simp
qed

lemma holds_run:
  assumes "link_inv H s" and "holds s rid pub expire d" and "linkBoxTime t < expire"
    and "\<forall>a \<in> set arms. armTime a \<le> t \<and> \<not> givesUp rid pub (drDepositId d) a"
  shows "holds (runArms H arms s) rid pub expire d"
  using assms
proof (induction arms arbitrary: s)
  case (Cons a arms)
  have "linkBoxTime (armTime a) < expire"
    using Cons.prems(3,4) linkBoxTime_mono [of "armTime a" t] by force
  with Cons.prems have "holds (runArm H a s) rid pub expire d" by (intro holds_step) simp_all
  with Cons.prems show ?case by (simp add: Cons.IH runArm_keeps)
qed simp

lemma deposit_holds:
  assumes inv: "link_inv H s" and e: "DepositLinkBox H ctx s rid pub ct now = (s', Inr x)"
    and ok: "ldReason x = REASON_OK"
  obtains d row where "boxAt s' rid = Some row" "holds s' rid (lrCollectVerifyPub row) (lrExpireTime row) d"
    "drDepositId d = ldDepositId x" "H (drDepositCt d) = H ct" "\<not> ldReplayed x \<Longrightarrow> drDepositCt d = ct"
  using e
proof (cases rule: DepositLinkBox_cases)
  case (replay row d)
  from replay(2) have row: "boxAt s rid = Some row" by (simp add: liveLinkBox_Some)
  with link_inv_box [OF inv, of rid] replay(3) have "drDepositHash d = H (drDepositCt d)"
    by (auto simp: box_ok_def deposit_ok_def)
  with replay row that [of row d] show ?thesis by (auto simp: holds_def)
next
  case (taken row)
  with that [of _ "freshDeposit H rid ct (linkBoxTime now) row"] show ?thesis
    by (auto simp: holds_def freshDeposit_def)
qed (use ok in \<open>simp_all add: depositRefused_def\<close>)

text \<open>A collect that acknowledges less than an id and asks from below it is handed the deposit.\<close>

lemma collect_returns:
  assumes inv: "link_inv H s" and h: "holds s (lqRendezvousId q) (lqVerifiedPub q) expire d"
    and "linkBoxTime t < expire" and "lqSinceDepositId q < drDepositId d"
    and "lqAckThroughDepositId q < drDepositId d" and "lqLimit q = 0"
  shows "\<exists>s' c. CollectLinkBox None s (Some q) t = (s', Inr c) \<and> lcReason c = REASON_OK \<and> lcComplete c \<and>
    standingOf d \<in> set (lcDeposits c)"
proof -
  from h obtain row where row: "boxAt s (lqRendezvousId q) = Some row"
    "lrCollectVerifyPub row = lqVerifiedPub q" "lrExpireTime row = expire"
    "d \<in> set (depositsAt s (lqRendezvousId q))" by (auto simp: holds_def)
  with link_inv_box [OF inv, of "lqRendezvousId q"]
  have ok: "length (lqRendezvousId q) = RendezvousIdBytes" "length (lqVerifiedPub q) = VerifyPubBytes"
    "lrRetiredTime row = None"
    by (auto simp: box_ok_def)
  with row assms(3) have live: "liveLinkBox s (lqRendezvousId q) (linkBoxTime t) (lqVerifiedPub q) collectKeyOf = Some row"
    by (simp add: liveLinkBox_Some Live_linkBox collectKeyOf_def)
  have "or_else (ctxErr None) (validateLinkBoxAct (lqRendezvousId q) (lqVerifiedPub q)) = None"
    using ok by (simp add: validateLinkBoxAct_def checkLength_def)
  with live row(4) assms(4-6) show ?thesis
    by (simp add: CollectLinkBox_def Let_def linkBoxDepositsAfter_def standingOf_def image_iff)
       force
qed

subsection \<open>What a sweep leaves\<close>

lemma sweep_live:
  assumes inv: "link_inv H s" and e: "SweepLinkBoxes ctx s now bounds = (s', answer)" and "now \<le> t"
  shows "liveLinkBox s' k t pub pinned = liveLinkBox s k t pub pinned"
    and "liveLinkBox s k t pub pinned = Some row \<Longrightarrow> depositsAt s' k = depositsAt s k"
    and "liveKeys s' t = liveKeys s t"
proof -
  have *: "(\<exists>row. boxAt s k = Some row \<and> Live (linkBox row) t) \<Longrightarrow>
      boxAt s' k = boxAt s k \<and> depositsAt s' k = depositsAt s k" for k
    using inv e
  proof (cases rule: SweepLinkBoxes_cases)
    case (swept due gone)
    assume "\<exists>row. boxAt s k = Some row \<and> Live (linkBox row) t"
    then obtain row where row: "boxAt s k = Some row" "linkBoxTime now < lrExpireTime row"
      using linkBoxTime_mono [OF \<open>now \<le> t\<close>] by (force simp: Live_linkBox)
    with swept(2) have "k \<notin> gone" by force
    moreover have "d \<notin> due" if "d \<in> set (depositsAt s k)" for d
      using link_inv_box [OF inv, of k] row that swept(1) by (auto simp: box_ok_def deposit_ok_def)
    then have "filter (\<lambda>d. d \<notin> due) (depositsAt s k) = depositsAt s k" by (intro filter_True) auto
    ultimately show ?thesis
      using link_inv_box [OF inv, of k] row by (simp add: swept(3,4) recounted_def box_ok_def)
  qed simp
  have **: "liveKeys s' t \<subseteq> liveKeys s t"
    using liveKeys_runArm [OF inv, of "Sweep ctx now bounds" t] e by simp
  show "liveKeys s' t = liveKeys s t" using ** * by (force simp: liveKeys_def)
  show "liveLinkBox s k t pub pinned = Some row \<Longrightarrow> depositsAt s' k = depositsAt s k"
    using * [of k] by (auto simp: liveLinkBox_Some)
  show "liveLinkBox s' k t pub pinned = liveLinkBox s k t pub pinned"
  proof (cases "\<exists>row. boxAt s k = Some row \<and> Live (linkBox row) t")
    case True
    with * [of k] show ?thesis by (simp add: liveLinkBox_def)
  next
    case False
    with ** have "\<not> (\<exists>row. boxAt s' k = Some row \<and> Live (linkBox row) t)" by (auto simp: liveKeys_def)
    with False show ?thesis by (auto simp: liveLinkBox_def split: option.split)
  qed
qed

subsection \<open>A concrete box\<close>

lemma demo_register:
  "runArms H [demoRegister] NewLinkBoxStore =
     \<lparr> lsBoxes = [(demoId, freshRow demoRegistration 0 5000)], lsDeposits = [] \<rparr>"
  by (simp add: NewLinkBoxStore_def demo_link_defs RegisterLinkBox_def validateLinkBoxRegistration_def
      RendezvousIdBytes_def VerifyPubBytes_def LinkCardBytes_def boxAt_def liveCount_def linkBoxTime_def
      freshRow_def checkLength_def)

lemma demo_deposit:
  "DepositLinkBox H None (runArms H [demoRegister] NewLinkBoxStore) demoId demoPub demoCt 1000 =
     (\<lparr> lsBoxes = [(demoId, (freshRow demoRegistration 0 5000)\<lparr>lrNextDepositId := 2, lrDepositCount := 1\<rparr>)],
        lsDeposits = [(demoId, [freshDeposit H demoId demoCt 1000 (freshRow demoRegistration 0 5000)])] \<rparr>,
      Inr \<lparr> ldReason = REASON_OK, ldDepositId = 1, ldDepositHash = H demoCt, ldPendingCount = 1,
            ldReplayed = False \<rparr>)"
proof -
  have "length demoId = RendezvousIdBytes" "length demoPub = VerifyPubBytes" "length demoCt = LinkDepositBytes"
    by (simp_all add: demoId_def demoPub_def demoCt_def RendezvousIdBytes_def VerifyPubBytes_def
        LinkDepositBytes_def)
  then have "validateLinkBoxDeposit demoId demoPub demoCt = None"
    by (simp add: validateLinkBoxDeposit_def checkLength_def)
  then show ?thesis unfolding demo_register
    by (simp add: DepositLinkBox_def liveLinkBox_def boxAt_def freshRow_def linkBoxTime_def Live_linkBox
        demoRegistration_def depositKeyOf_def depositsAt_def depositsOf_def putBox_def putDeposits_def
        LinkBoxDeposits_def linkBoxDepositHash_def freshDeposit_def Let_def)
qed

lemma demo_link:
  "\<exists>row d. boxAt (runArms H [demoRegister, demoDeposit] NewLinkBoxStore) demoId = Some row \<and>
     depositsAt (runArms H [demoRegister, demoDeposit] NewLinkBoxStore) demoId = [d] \<and>
     drDepositCt d = demoCt"
proof -
  have "runArms H [demoRegister, demoDeposit] NewLinkBoxStore =
      fst (DepositLinkBox H None (runArms H [demoRegister] NewLinkBoxStore) demoId demoPub demoCt 1000)"
    by (simp add: demoDeposit_def)
  then show ?thesis unfolding demo_deposit by (simp add: boxAt_def depositsAt_def depositsOf_def freshDeposit_def)
qed

section \<open>Properties\<close>

lemma link_box_facts:
  assumes "boxAt (runArms H arms NewLinkBoxStore) rid = Some row"
    and "ds = depositsAt (runArms H arms NewLinkBoxStore) rid"
  shows "lbDepositsTaken (linkBox row) \<le> LinkBoxDeposits"
    and "length ds \<le> unat (lbDepositsTaken (linkBox row))"
    and "unat (lbDepositCount (linkBox row)) = length ds"
    and "sorted_wrt (\<lambda>d e. drDepositId d < drDepositId e) ds"
    and "\<forall>d \<in> set ds. 1 \<le> drDepositId d \<and> drDepositId d \<le> lbDepositsTaken (linkBox row) \<and>
      drDepositHash d = linkBoxDepositHash H (drDepositCt d) \<and> drPruneAfter d = lrExpireTime row"
    and "lrRetiredTime row \<noteq> None \<longrightarrow> ds = []"
proof -
  have ok: "box_ok H rid (Some row) ds" using link_inv_box [OF runArms_inv [of H arms], of rid] assms by simp
  then have n: "1 \<le> lrNextDepositId row" "lrNextDepositId row \<le> 3" by (simp_all add: box_ok_def)
  have taken: "unat (lbDepositsTaken (linkBox row)) = unat (lrNextDepositId row) - 1"
    using n(1) by (simp add: linkBox_def unat_sub)
  show l: "length ds \<le> unat (lbDepositsTaken (linkBox row))"
    unfolding taken using ok by (intro sorted_ids_length) (auto simp: box_ok_def deposit_ok_def)
  show two: "lbDepositsTaken (linkBox row) \<le> LinkBoxDeposits"
    using n taken by (simp add: LinkBoxDeposits_def word_le_nat_alt)
  show "unat (lbDepositCount (linkBox row)) = length ds"
    using ok l two by (simp add: box_ok_def linkBox_def LinkBoxDeposits_def word_le_nat_alt unat_of_nat)
  show "sorted_wrt (\<lambda>d e. drDepositId d < drDepositId e) ds" "lrRetiredTime row \<noteq> None \<longrightarrow> ds = []"
    using ok by (simp_all add: box_ok_def)
  have "drDepositId d \<le> lbDepositsTaken (linkBox row)" if "drDepositId d < lrNextDepositId row" for d
    using that n taken by (simp add: word_le_nat_alt word_less_nat_alt)
  with ok show "\<forall>d \<in> set ds. 1 \<le> drDepositId d \<and> drDepositId d \<le> lbDepositsTaken (linkBox row) \<and>
      drDepositHash d = linkBoxDepositHash H (drDepositCt d) \<and> drPruneAfter d = lrExpireTime row"
    by (auto simp: box_ok_def deposit_ok_def linkBoxDepositHash_def)
qed

text \<open>
  C34: whatever is called on the store, a box has taken at most two deposits over its life; the
  deposits that stand carry distinct ids, in order, below the next one and are counted exactly;
  each carries the hash of its ciphertext and is due when its box expires; a retired box holds none.
\<close>

theorem link_box_life:
  assumes "boxAt (runArms H arms NewLinkBoxStore) rid = Some row"
    and "ds = depositsAt (runArms H arms NewLinkBoxStore) rid"
  shows "lbDepositsTaken (linkBox row) \<le> LinkBoxDeposits \<and>
    length ds \<le> unat (lbDepositsTaken (linkBox row)) \<and>
    unat (lbDepositCount (linkBox row)) = length ds \<and>
    sorted_wrt (\<lambda>d e. drDepositId d < drDepositId e) ds \<and>
    (\<forall>d \<in> set ds. 1 \<le> drDepositId d \<and> drDepositId d \<le> lbDepositsTaken (linkBox row) \<and>
      drDepositHash d = linkBoxDepositHash H (drDepositCt d) \<and> drPruneAfter d = lrExpireTime row) \<and>
    (lrRetiredTime row \<noteq> None \<longrightarrow> ds = [])"
  using link_box_facts [OF assms] by blast

theorem link_box_life_witness:
  "\<exists>row d. boxAt (runArms id [demoRegister, demoDeposit] NewLinkBoxStore) demoId = Some row \<and>
     depositsAt (runArms id [demoRegister, demoDeposit] NewLinkBoxStore) demoId = [d] \<and>
     unat (lbDepositCount (linkBox row)) = 1 \<and> drDepositHash d = demoCt"
proof -
  let ?s = "runArms id [demoRegister, demoDeposit] NewLinkBoxStore"
  obtain row d where "boxAt ?s demoId = Some row" "depositsAt ?s demoId = [d]" "drDepositCt d = demoCt"
    using demo_link [of id] by auto
  with link_box_life [of id "[demoRegister, demoDeposit]" demoId row "[d]"] show ?thesis
    by (simp add: linkBoxDepositHash_def)
qed

text \<open>
  along any run whose clock does not go back and whose registrations all name a cap of at most
  \<open>cap\<close>, \<open>LiveLinkBoxes\<close> answers the number of live boxes exactly and it never exceeds \<open>cap\<close>.
\<close>

theorem live_boxes_capped:
  assumes "sorted (map armTime arms)" and "\<forall>a \<in> set arms. armCap a \<le> cap \<and> 0 \<le> armTime a \<and> armTime a \<le> now"
  shows "\<exists>n. LiveLinkBoxes None (runArms H arms NewLinkBoxStore) now = Inr n \<and> n \<le> cap \<and>
    unat n = card (liveKeys (runArms H arms NewLinkBoxStore) now)"
proof -
  let ?s = "runArms H arms NewLinkBoxStore"
  define t where "t = min 0 now"
  have "card (liveKeys NewLinkBoxStore t) \<le> unat cap"
    by (simp add: liveKeys_def NewLinkBoxStore_def boxAt_def)
  then have le: "card (liveKeys ?s now) \<le> unat cap"
    using assms runArms_inv [where as = "[]"] by (intro cap_run [of H NewLinkBoxStore arms cap now t]) (auto simp: t_def)
  then have u: "unat (of_nat (card (liveKeys ?s now)) :: u64) = card (liveKeys ?s now)"
    using unsigned_less [where ?'a = nat and w = cap] by (simp add: unat_of_nat)
  have "liveKeys ?s (linkBoxTime now) = liveKeys ?s now" by (simp add: liveKeys_def Live_linkBox)
  then have "LiveLinkBoxes None ?s now = Inr (of_nat (card (liveKeys ?s now)))"
    using liveCount_card [OF link_inv_distinct(1) [OF runArms_inv]] by (simp add: LiveLinkBoxes_def)
  with le u show ?thesis by (simp add: word_le_nat_alt)
qed

theorem live_boxes_capped_witness:
  "\<exists>n. LiveLinkBoxes None (runArms id [demoRegister, demoDeposit] NewLinkBoxStore) 2000 = Inr n \<and> n \<le> 1"
  using live_boxes_capped [of "[demoRegister, demoDeposit]" 1 2000 id]
  by (auto simp: demoRegister_def demoDeposit_def)

text \<open>
  C30: a deposit that was answered \<open>REASON_OK\<close> is handed over. Whatever is called after it, as long
  as the holder of the box's collect key has neither acknowledged through its id nor retired the
  box and the box has not expired, a collect under that key from below the id answers a deposit
  with that id whose ciphertext has the submitted one's hash, and the submitted ciphertext itself
  unless the deposit was a replay.
\<close>

theorem deposit_delivered:
  assumes "s = runArms H before NewLinkBoxStore"
    and "DepositLinkBox H ctx s rid pub ct now = (s1, Inr x)" and "ldReason x = REASON_OK"
    and "boxAt s1 rid = Some row"
    and "\<forall>a \<in> set later. armTime a \<le> t \<and> \<not> givesUp rid (lrCollectVerifyPub row) (ldDepositId x) a"
    and "Live (linkBox row) t"
    and "lqRendezvousId q = rid" and "lqVerifiedPub q = lrCollectVerifyPub row"
    and "lqSinceDepositId q < ldDepositId x" and "lqAckThroughDepositId q < ldDepositId x" and "lqLimit q = 0"
  shows "\<exists>s2 c d. CollectLinkBox None (runArms H later s1) (Some q) t = (s2, Inr c) \<and>
    lcReason c = REASON_OK \<and> lcComplete c \<and> d \<in> set (lcDeposits c) \<and> dpDepositId d = ldDepositId x \<and>
    H (dpDepositCt d) = H ct \<and> (\<not> ldReplayed x \<longrightarrow> dpDepositCt d = ct)"
proof -
  have inv: "link_inv H s" unfolding assms(1) by (rule runArms_inv)
  have inv1: "link_inv H s1" using inv assms(2) by (rule deposit_keeps)
  from deposit_holds [OF inv assms(2,3)] obtain d where
    d: "holds s1 rid (lrCollectVerifyPub row) (lrExpireTime row) d" "drDepositId d = ldDepositId x"
      "H (drDepositCt d) = H ct" "\<not> ldReplayed x \<Longrightarrow> drDepositCt d = ct"
    using assms(4) by (metis option.inject)
  have t: "linkBoxTime t < lrExpireTime row" using assms(6) by (simp add: Live_linkBox)
  have "link_inv H (runArms H later s1)"
    using links.inv_steps [OF runArms_steps inv1] .
  moreover have "holds (runArms H later s1) (lqRendezvousId q) (lqVerifiedPub q) (lrExpireTime row) d"
    unfolding assms(7,8) using inv1 d(1) t by (rule holds_run) (use assms(5) d(2) in simp)
  ultimately show ?thesis
    using collect_returns [of H _ q "lrExpireTime row" d t] t assms(9-11) d(2-4)
    by (force simp: standingOf_def)
qed

theorem deposit_delivered_witness:
  "\<exists>s1 x s2 c d. DepositLinkBox id None (runArms id [demoRegister] NewLinkBoxStore) demoId demoPub demoCt 1000 = (s1, Inr x) \<and>
     CollectLinkBox None (runArms id [Sweep None 2000 DefaultLinkBoxSweepBounds] s1)
       (Some \<lparr> lqRendezvousId = demoId, lqSinceDepositId = 0, lqAckThroughDepositId = 0, lqLimit = 0,
               lqVerifiedPub = demoPub \<rparr>) 2000 = (s2, Inr c) \<and>
     d \<in> set (lcDeposits c) \<and> dpDepositId d = 1 \<and> dpDepositCt d = demoCt"
proof -
  let ?q = "\<lparr> lqRendezvousId = demoId, lqSinceDepositId = 0, lqAckThroughDepositId = 0, lqLimit = 0,
    lqVerifiedPub = demoPub \<rparr>"
  let ?row = "(freshRow demoRegistration 0 5000)\<lparr>lrNextDepositId := 2, lrDepositCount := 1\<rparr>"
  note d = demo_deposit [of id]
  show ?thesis
    using deposit_delivered [OF refl d, where q = ?q and t = 2000 and row = ?row
        and later = "[Sweep None 2000 DefaultLinkBoxSweepBounds]"] d
    by (force simp: boxAt_def Live_linkBox linkBoxTime_def freshRow_def demoRegistration_def)
qed

lemma sweep_answers:
  assumes "s = runArms H before NewLinkBoxStore"
    and "SweepLinkBoxes ctx s now bounds = (s', answer)" and "now \<le> t"
  shows "snd (DepositLinkBox H c s' rid pub ct t) = snd (DepositLinkBox H c s rid pub ct t)"
    and "snd (CollectLinkBox c s' request t) = snd (CollectLinkBox c s request t)"
    and "snd (RetireLinkBox c s' rid pub t) = snd (RetireLinkBox c s rid pub t)"
    and "LiveLinkBoxes c s' t = LiveLinkBoxes c s t"
proof -
  have inv: "link_inv H s" unfolding assms(1) by (rule runArms_inv)
  have inv': "link_inv H s'" using inv assms(2) by (rule sweep_keeps)
  note same = sweep_live [OF inv assms(2,3)]
  note live = liveLinkBox_trunc same(1)
  show "snd (DepositLinkBox H c s' rid pub ct t) = snd (DepositLinkBox H c s rid pub ct t)"
    using same(2) [of rid pub depositKeyOf]
    by (auto simp: DepositLinkBox_def Let_def live split: option.splits)
  show "snd (CollectLinkBox c s' request t) = snd (CollectLinkBox c s request t)"
    using same(2) [of "lqRendezvousId (the request)" "lqVerifiedPub (the request)" collectKeyOf]
    by (auto simp: CollectLinkBox_def Let_def live case_prod_beta split: option.splits)
  show "snd (RetireLinkBox c s' rid pub t) = snd (RetireLinkBox c s rid pub t)"
    using same(2) [of rid pub collectKeyOf]
    by (auto simp: RetireLinkBox_def Let_def live split: option.splits)
  have "liveKeys u (linkBoxTime t) = liveKeys u t" for u by (simp add: liveKeys_def Live_linkBox)
  with same(3) have "liveCount s' (linkBoxTime t) = liveCount s (linkBoxTime t)"
    by (simp add: liveCount_card link_inv_distinct(1) [OF inv] link_inv_distinct(1) [OF inv'])
  then show "LiveLinkBoxes c s' t = LiveLinkBoxes c s t" by (simp add: LiveLinkBoxes_def)
qed
text \<open>
  C37: a sweep is invisible to the holders of boxes. At any instant from the sweep's on, a deposit,
  a collect, a retirement and the count of live boxes are answered after the sweep exactly as they
  would have been without it, whatever the sweep reclaimed.
\<close>

theorem sweep_invisible:
  assumes "s = runArms H before NewLinkBoxStore"
    and "SweepLinkBoxes ctx s now bounds = (s', answer)" and "now \<le> t"
  shows "snd (DepositLinkBox H c s' rid pub ct t) = snd (DepositLinkBox H c s rid pub ct t) \<and>
    snd (CollectLinkBox c s' request t) = snd (CollectLinkBox c s request t) \<and>
    snd (RetireLinkBox c s' rid pub t) = snd (RetireLinkBox c s rid pub t) \<and>
    LiveLinkBoxes c s' t = LiveLinkBoxes c s t"
  using sweep_answers [OF assms] by blast

theorem sweep_invisible_witness:
  "\<exists>s' x. SweepLinkBoxes None (runArms id [demoRegister] NewLinkBoxStore) 6000 DefaultLinkBoxSweepBounds
       = (s', Inr x) \<and> swBoxes x = 1 \<and> boxAt s' demoId = None \<and>
     snd (RetireLinkBox None s' demoId demoPub 6000) =
       snd (RetireLinkBox None (runArms id [demoRegister] NewLinkBoxStore) demoId demoPub 6000)"
proof -
  have "\<exists>s' x. SweepLinkBoxes None (runArms id [demoRegister] NewLinkBoxStore) 6000 DefaultLinkBoxSweepBounds
       = (s', Inr x) \<and> swBoxes x = 1 \<and> boxAt s' demoId = None"
    unfolding demo_register
    by (simp add: SweepLinkBoxes_def Let_def dueDeposits_def dueBoxes_def orDefault_def
        DefaultLinkBoxSweepBounds_def linkBoxTime_def freshRow_def demoRegistration_def boxAt_def)
  then show ?thesis using sweep_invisible [OF refl, where H = id and before = "[demoRegister]"] by fastforce
qed

end
