(* ===== verification/Sweep.thy ===== *)
theory Sweep
  imports Link_Box_Properties
begin

text \<open>
  The sweep job (\<open>src/sweep/sweep.go\<close>): a pass runs batches of the link box sweep until one
  reaches neither of its bounds, the lock is found held, or the pass has run its batches or spent
  its budget. The sweeper is the interface \<open>LinkBoxSweeper\<close>, here an argument, and the locale
  \<open>link_box_sweeper\<close> is what the job relies on of one; the memory store is an instance.

  What the job meets from outside is \<open>passEnv\<close>: the answers of its clock in the order it asks, the
  two readings of its context in each batch, and what other callers did to the store before one.
  Logging is left out.
\<close>

section \<open>Definitions\<close>

type_synonym 's sweeper =
  "ctx \<Rightarrow> 's \<Rightarrow> time \<Rightarrow> LinkBoxSweepBounds \<Rightarrow> 's \<times> (store_error + LinkBoxesSwept)"

definition DefaultEvery :: duration where "DefaultEvery = 300000000000"
definition DefaultMaxBatches :: int where "DefaultMaxBatches = 50"
definition DefaultBudget :: duration where "DefaultBudget = 20000000000"
definition DefaultPause :: duration where "DefaultPause = 100000000"

record SweepConfig =
  scEvery :: duration
  scBounds :: LinkBoxSweepBounds
  scMaxBatches :: int
  scBudget :: duration
  scPause :: duration

record Totals =
  tBatches :: int
  tDeposits :: u64
  tBoxes :: u64
  tSkipped :: bool

record 's Job =
  jbLinkBoxes :: "'s sweeper"
  jbEvery :: duration
  jbBounds :: LinkBoxSweepBounds
  jbMaxBatches :: int
  jbBudget :: duration
  jbPause :: duration

text \<open>\<open>None\<close> is \<open>ErrNoLinkBoxes\<close>: no store to sweep.\<close>

definition newJob :: "'s sweeper option \<Rightarrow> SweepConfig \<Rightarrow> 's Job option" where
  "newJob linkBoxes config =
     (case linkBoxes of
        None \<Rightarrow> None
      | Some sweeper \<Rightarrow> Some
          \<lparr> jbLinkBoxes = sweeper,
            jbEvery = (if scEvery config \<le> 0 then DefaultEvery else scEvery config),
            jbBounds =
              \<lparr> sbDeposits = (if sbDeposits (scBounds config) = 0
                              then sbDeposits DefaultLinkBoxSweepBounds else sbDeposits (scBounds config)),
                sbBoxes = (if sbBoxes (scBounds config) = 0
                           then sbBoxes DefaultLinkBoxSweepBounds else sbBoxes (scBounds config)) \<rparr>,
            jbMaxBatches = (if scMaxBatches config \<le> 0 then DefaultMaxBatches else scMaxBatches config),
            jbBudget = (if scBudget config \<le> 0 then DefaultBudget else scBudget config),
            jbPause = (if scPause config \<le> 0 then DefaultPause else scPause config) \<rparr>)"

record 's passEnv =
  peNow :: "nat \<Rightarrow> time"
  peCtx :: "int \<Rightarrow> ctx"
  peCtxIn :: "int \<Rightarrow> ctx"
  peOther :: "int \<Rightarrow> 's \<Rightarrow> 's"

function passLoop ::
  "'s Job \<Rightarrow> 's passEnv \<Rightarrow> time \<Rightarrow> nat \<Rightarrow> Totals \<Rightarrow> 's \<Rightarrow> 's \<times> Totals \<times> store_error option" where
  "passLoop job env started n totals s =
     (if \<not> tBatches totals < jbMaxBatches job then (s, totals, None)
      else if tBatches totals \<noteq> 0 \<and> jbBudget job \<le> peNow env n - started then (s, totals, None)
      else
        (let m = (if tBatches totals \<noteq> 0 then Suc n else n)
         in case peCtx env (tBatches totals) of
              Some e \<Rightarrow> (s, totals, Some (ErrCtx e))
            | None \<Rightarrow>
               (case jbLinkBoxes job (peCtxIn env (tBatches totals)) (peOther env (tBatches totals) s)
                       (peNow env m) (jbBounds job) of
                  (s', Inl e) \<Rightarrow> (s', totals, Some e)
                | (s', Inr swept) \<Rightarrow>
                   (if swSkipped swept then (s', totals\<lparr>tSkipped := True\<rparr>, None)
                    else
                      (let totals' = totals\<lparr>tBatches := tBatches totals + 1,
                                            tDeposits := tDeposits totals + ucast (swDeposits swept),
                                            tBoxes := tBoxes totals + ucast (swBoxes swept)\<rparr>
                       in if swDeposits swept < sbDeposits (jbBounds job) \<and>
                             swBoxes swept < sbBoxes (jbBounds job)
                          then (s', totals', None)
                          else passLoop job env started (Suc m) totals' s')))))"
  by pat_completeness auto

termination
  by (relation "measure (\<lambda>(job, _, _, _, totals, _). nat (jbMaxBatches job - tBatches totals))") auto

declare passLoop.simps [simp del]

definition Pass :: "'s Job \<Rightarrow> 's passEnv \<Rightarrow> 's \<Rightarrow> 's \<times> Totals \<times> store_error option" where
  "Pass job env s =
     passLoop job env (peNow env 0) 1 \<lparr> tBatches = 0, tDeposits = 0, tBoxes = 0, tSkipped = False \<rparr> s"

definition depositRows :: "LinkBoxStore \<Rightarrow> (bytes \<times> memoryLinkDepositRow) set" where
  "depositRows s = {(k, d). d \<in> set (depositsAt s k)}"

definition boxKeys :: "LinkBoxStore \<Rightarrow> bytes set" where
  "boxKeys s = dom (boxAt s)"

definition linkRows :: "LinkBoxStore \<Rightarrow> nat" where
  "linkRows s = card (depositRows s) + card (boxKeys s)"

definition linkDue :: "LinkBoxStore \<Rightarrow> time \<Rightarrow> bool" where
  "linkDue s t \<longleftrightarrow> (\<exists>k. \<exists>d \<in> set (depositsAt s k). drPruneAfter d \<le> linkBoxTime t) \<or>
     (\<exists>k row. boxAt s k = Some row \<and> lrReclaimAfter row \<le> linkBoxTime t)"

section \<open>What the job relies on of a sweeper\<close>

text \<open>
  A batch that is not interrupted answers; one that reaches a bound has deleted something; one that
  reaches neither leaves nothing due; and what is due stays due.
\<close>

locale link_box_sweeper =
  fixes sweep :: "'s sweeper"
    and inv :: "'s \<Rightarrow> bool"
    and rows :: "'s \<Rightarrow> nat"
    and due :: "'s \<Rightarrow> time \<Rightarrow> bool"
  assumes answers: "inv s \<Longrightarrow> \<exists>s' x. sweep None s t b = (s', Inr x) \<and> \<not> swSkipped x \<and> inv s'"
    and progress: "inv s \<Longrightarrow> sweep None s t b = (s', Inr x) \<Longrightarrow> sbDeposits b \<noteq> 0 \<Longrightarrow> sbBoxes b \<noteq> 0 \<Longrightarrow>
      \<not> (swDeposits x < sbDeposits b \<and> swBoxes x < sbBoxes b) \<Longrightarrow> rows s' < rows s"
    and finished: "inv s \<Longrightarrow> sweep None s t b = (s', Inr x) \<Longrightarrow> sbDeposits b \<noteq> 0 \<Longrightarrow> sbBoxes b \<noteq> 0 \<Longrightarrow>
      swDeposits x < sbDeposits b \<Longrightarrow> swBoxes x < sbBoxes b \<Longrightarrow> \<not> due s' t"
    and due_later: "t \<le> t' \<Longrightarrow> due s t \<Longrightarrow> due s t'"
begin

lemma passLoop_clears:
  assumes "jbLinkBoxes job = sweep" and "inv s"
    and "sbDeposits (jbBounds job) \<noteq> 0" and "sbBoxes (jbBounds job) \<noteq> 0"
    and "\<And>i. peCtx env i = None" and "\<And>i. peCtxIn env i = None" and "\<And>i. peOther env i = id"
    and "\<And>i. started \<le> peNow env i" and "\<And>i. peNow env i - started < jbBudget job"
    and "int (rows s) < jbMaxBatches job - tBatches totals" and "passLoop job env started n totals s = (s', totals', e)"
  shows "e = None \<and> \<not> due s' started \<and> inv s'"
  using assms(2,10,11)
proof (induction "rows s" arbitrary: s n totals rule: less_induct)
  case less
  define m where "m = (if tBatches totals \<noteq> 0 then Suc n else n)"
  obtain s1 x where x: "sweep None s (peNow env m) (jbBounds job) = (s1, Inr x)" "\<not> swSkipped x" "inv s1"
    using answers [OF less.prems(1)] by blast
  have go: "tBatches totals < jbMaxBatches job" using less.prems(2) by linarith
  have budget: "\<not> jbBudget job \<le> peNow env n - started" using assms(9) [of n] by simp
  define t1 where "t1 = totals\<lparr>tBatches := tBatches totals + 1,
    tDeposits := tDeposits totals + ucast (swDeposits x), tBoxes := tBoxes totals + ucast (swBoxes x)\<rparr>"
  have step: "passLoop job env started n totals s =
      (if swDeposits x < sbDeposits (jbBounds job) \<and> swBoxes x < sbBoxes (jbBounds job) then (s1, t1, None)
       else passLoop job env started (Suc m) t1 s1)"
    using go budget x assms(1,5-7) by (subst passLoop.simps) (simp add: m_def t1_def Let_def)
  show ?case
  proof (cases "swDeposits x < sbDeposits (jbBounds job) \<and> swBoxes x < sbBoxes (jbBounds job)")
    case True
    then have "\<not> due s1 (peNow env m)" using finished [OF less.prems(1) x(1) assms(3,4)] by blast
    then have "\<not> due s1 started" using due_later assms(8) by blast
    with True step less.prems(3) x(3) show ?thesis by simp
  next
    case False
    then have "rows s1 < rows s" using progress [OF less.prems(1) x(1) assms(3,4)] by blast
    with less.prems(2,3) False step show ?thesis
      by (intro less.hyps [of s1 t1 "Suc m"]) (simp_all add: x(3) t1_def)
  qed
qed

end

section \<open>The memory store is a sweeper\<close>


lemma finite_rows: "finite (depositRows s)" "finite (boxKeys s)"
proof -
  show "finite (boxKeys s)"
    by (rule finite_subset [of _ "dom (map_of (lsBoxes s))"])
      (auto simp: boxKeys_def boxAt_def finite_dom_map_of)
  have "x \<in> (\<Union>p \<in> set (lsDeposits s). Pair (fst p) ` set (snd p))" if "x \<in> depositRows s" for x
  proof -
    from that obtain k d where x: "x = (k, d)" "d \<in> set (depositsOf (lsDeposits s) k)"
      by (auto simp: depositRows_def depositsAt_def)
    then obtain ds where "map_of (lsDeposits s) k = Some ds" "d \<in> set ds"
      by (cases "map_of (lsDeposits s) k") (simp_all add: depositsOf_def)
    with map_of_SomeD [OF this(1)] x(1) show ?thesis by force
  qed
  then have "depositRows s \<subseteq> (\<Union>p \<in> set (lsDeposits s). Pair (fst p) ` set (snd p))" by blast
  then show "finite (depositRows s)" by (rule finite_subset) auto
qed

lemma sweep_batch:
  assumes inv: "link_inv H s" and e: "SweepLinkBoxes None s t b = (s', Inr x)"
    and b: "sbDeposits b \<noteq> 0" "sbBoxes b \<noteq> 0"
  shows "\<not> (swDeposits x < sbDeposits b \<and> swBoxes x < sbBoxes b) \<Longrightarrow> linkRows s' < linkRows s"
    and "swDeposits x < sbDeposits b \<Longrightarrow> swBoxes x < sbBoxes b \<Longrightarrow> \<not> linkDue s' t"
proof -
  have bounds: "orDefault b = b" using b by (simp add: orDefault_def)
  from inv e have "(\<not> (swDeposits x < sbDeposits b \<and> swBoxes x < sbBoxes b) \<longrightarrow> linkRows s' < linkRows s) \<and>
      (swDeposits x < sbDeposits b \<longrightarrow> swBoxes x < sbBoxes b \<longrightarrow> \<not> linkDue s' t)"
  proof (cases rule: SweepLinkBoxes_cases)
    case (swept due gone D K)
    have sub: "depositRows s' \<subseteq> depositRows s" "boxKeys s' \<subseteq> boxKeys s"
      by (auto simp: depositRows_def boxKeys_def swept(3,4) split: if_splits)
    have le: "card (depositRows s') \<le> card (depositRows s)" "card (boxKeys s') \<le> card (boxKeys s)"
      using sub by (simp_all add: card_mono finite_rows)
    have "linkRows s' < linkRows s" if "\<not> (swDeposits x < sbDeposits b \<and> swBoxes x < sbBoxes b)"
    proof (cases "D = []")
      case False
      then obtain d k where "d \<in> due" "d \<in> set (depositsAt s k)" using swept(8,10) by (metis last_in_set)
      then have "(k, d) \<in> depositRows s - depositRows s'" by (auto simp: depositRows_def swept(3))
      with sub have "card (depositRows s') < card (depositRows s)"
        by (intro psubset_card_mono finite_rows) blast
      with le show ?thesis by (simp add: linkRows_def)
    next
      case True
      with that b swept(7) have "K \<noteq> []" by (auto simp: word_neq_0_conv)
      then obtain k where "k \<in> gone" using swept(9) by (metis last_in_set)
      with swept(2,4) have "k \<in> boxKeys s - boxKeys s'" by (auto simp: boxKeys_def)
      with sub have "card (boxKeys s') < card (boxKeys s)"
        by (intro psubset_card_mono finite_rows) blast
      with le show ?thesis by (simp add: linkRows_def)
    qed
    moreover have "\<not> linkDue s' t" if "swDeposits x < sbDeposits b" "swBoxes x < sbBoxes b"
    proof -
      from that swept(7) have "of_nat (length D) < sbDeposits (orDefault b)" "of_nat (length K) < sbBoxes (orDefault b)"
        by (simp_all add: bounds)
      from swept(11) [OF this(1)] swept(12) [OF this(2)] show ?thesis
        by (auto simp: linkDue_def swept(3,4) recounted_def split: if_splits)
    qed
    ultimately show ?thesis by blast
  qed simp
  then show "\<not> (swDeposits x < sbDeposits b \<and> swBoxes x < sbBoxes b) \<Longrightarrow> linkRows s' < linkRows s"
    "swDeposits x < sbDeposits b \<Longrightarrow> swBoxes x < sbBoxes b \<Longrightarrow> \<not> linkDue s' t" by blast+
qed

interpretation memory_sweeper: link_box_sweeper SweepLinkBoxes "link_inv H" linkRows linkDue for H
proof
  fix s t b
  assume inv: "link_inv H s"
  obtain s' x where e: "SweepLinkBoxes None s t b = (s', Inr x)" "\<not> swSkipped x"
    by (simp add: SweepLinkBoxes_def Let_def)
  with sweep_keeps [OF inv] show "\<exists>s' x. SweepLinkBoxes None s t b = (s', Inr x) \<and> \<not> swSkipped x \<and> link_inv H s'"
    by blast
next
  show "linkDue s t'" if "t \<le> t'" "linkDue s t" for s t t'
    using that linkBoxTime_mono [OF that(1)] unfolding linkDue_def by (meson order_trans)
qed (fact sweep_batch)+

section \<open>Properties\<close>

lemma newJob_bounds:
  "newJob (Some sweep) config = Some job \<Longrightarrow>
     jbLinkBoxes job = sweep \<and> sbDeposits (jbBounds job) \<noteq> 0 \<and> sbBoxes (jbBounds job) \<noteq> 0"
  by (auto simp: newJob_def DefaultLinkBoxSweepBounds_def split: if_splits)

text \<open>
  A pass clears what is due. On any store a run of arms leaves, a job built by \<open>New\<close>
  whose pass nobody interrupts, whose clock does not go back behind its start, whose budget lasts
  and which may run more batches than the store has rows ends without an error and leaves no
  deposit and no box that was due when it started.
\<close>

theorem pass_clears:
  assumes "newJob (Some SweepLinkBoxes) config = Some job"
    and "s = runArms H arms NewLinkBoxStore"
    and "\<And>i. peCtx env i = None \<and> peCtxIn env i = None \<and> peOther env i = id"
    and "\<And>i. peNow env 0 \<le> peNow env i \<and> peNow env i - peNow env 0 < jbBudget job"
    and "int (linkRows s) < jbMaxBatches job"
  shows "\<exists>s' totals. Pass job env s = (s', totals, None) \<and> \<not> linkDue s' (peNow env 0)"
proof -
  obtain s' totals e where p: "Pass job env s = (s', totals, e)" by (metis prod_cases3)
  have inv: "link_inv H s" unfolding assms(2) by (rule runArms_inv)
  have "e = None \<and> \<not> linkDue s' (peNow env 0) \<and> link_inv H s'"
    using newJob_bounds [OF assms(1)] inv assms(3-5) p
    by (intro memory_sweeper.passLoop_clears [where job = job and env = env and s = s]) (auto simp: Pass_def)
  with p show ?thesis by blast
qed

theorem pass_clears_witness:
  "\<exists>job s' totals. newJob (Some SweepLinkBoxes)
       \<lparr> scEvery = 0, scBounds = \<lparr> sbDeposits = 0, sbBoxes = 0 \<rparr>, scMaxBatches = 0, scBudget = 0, scPause = 0 \<rparr>
       = Some job \<and>
     linkDue (runArms id [demoRegister] NewLinkBoxStore) 6000 \<and>
     Pass job \<lparr> peNow = \<lambda>_. 6000, peCtx = \<lambda>_. None, peCtxIn = \<lambda>_. None, peOther = \<lambda>_. id \<rparr>
       (runArms id [demoRegister] NewLinkBoxStore) = (s', totals, None) \<and>
     \<not> linkDue s' 6000"
proof -
  let ?c = "\<lparr> scEvery = 0, scBounds = \<lparr> sbDeposits = 0, sbBoxes = 0 \<rparr>, scMaxBatches = 0, scBudget = 0, scPause = 0 \<rparr>"
  let ?s = "runArms id [demoRegister] NewLinkBoxStore"
  obtain job where job: "newJob (Some SweepLinkBoxes) ?c = Some job" "jbMaxBatches job = 50"
    "jbBudget job = 20000000000"
    by (simp add: newJob_def DefaultMaxBatches_def DefaultBudget_def)
  have "boxKeys ?s = {demoId}" "depositRows ?s = {}" "linkDue ?s 6000"
    unfolding demo_register
    by (auto simp: boxKeys_def depositRows_def boxAt_def depositsAt_def depositsOf_def linkDue_def
        freshRow_def linkBoxTime_def split: if_splits)
  moreover from this have "linkRows ?s = 1" by (simp add: linkRows_def)
  ultimately show ?thesis
    using pass_clears [OF job(1) refl, where H = id and arms = "[demoRegister]"
        and env = "\<lparr> peNow = \<lambda>_. 6000, peCtx = \<lambda>_. None, peCtxIn = \<lambda>_. None, peOther = \<lambda>_. id \<rparr>"] job
    by auto
qed

end
