(* ===== verification/Reassembly.thy ===== *)
theory Reassembly
  imports Prelude
begin

text \<open>
  Fragmentation (\<open>src/peer/frame.go\<close>): the reassembly of a request from its fragments, keyed by
  the client and the request id, with its abort rules, its caps and its expiry, and the cutting of
  a response into fragments.

  A Go \<open>int\<close> is an \<open>int\<close>; the fragment's fields keep their width. \<open>order\<close> holds the open
  keys oldest first. A buffer's \<open>element\<close> points at its own entry there, and a key has at most one
  (\<open>ra_inv\<close>), so removing the element is removing the key. The two readings of the clock in
  \<open>accept\<close>, the expiry's and the opening's, are two arguments. The mutex makes \<open>accept\<close> and
  \<open>sweep\<close> single steps.
\<close>

section \<open>Bounds\<close>

definition MaxFragmentPartBytes :: int where "MaxFragmentPartBytes = 2048"

definition withinLimits :: "int \<Rightarrow> int \<Rightarrow> reason" where
  "withinLimits bytes max_bytes = (if max_bytes < bytes then REASON_OVERSIZE else REASON_OK)"

definition partSize :: "int \<Rightarrow> int" where
  "partSize budget =
     (if budget \<le> 0 \<or> MaxFragmentPartBytes < budget then MaxFragmentPartBytes else budget)"

section \<open>The abort rules\<close>

record Fragment =
  fRequestId :: u64
  fIndex :: u32
  fCount :: u32
  fPart :: bytes

record partial =
  pCount :: u32
  pNext :: u32
  pBytes :: bytes
  pStarted :: time

record fragmentState =
  fsFragment :: Fragment
  fsCurrent :: "partial option"
  fsOpenForClient :: int
  fsOpen :: int
  fsPerClient :: int
  fsMaxReassemblies :: int
  fsMaxRequestBytes :: int

definition next_index :: "fragmentState \<Rightarrow> u32" where
  "next_index st = (case fsCurrent st of None \<Rightarrow> 0 | Some p \<Rightarrow> pNext p)"

definition buffered :: "fragmentState \<Rightarrow> int" where
  "buffered st = (case fsCurrent st of None \<Rightarrow> 0 | Some p \<Rightarrow> int (length (pBytes p)))"

definition opens :: "fragmentState \<Rightarrow> bool" where
  "opens st \<longleftrightarrow> fsCurrent st = None"

type_synonym abortRule = "fragmentState \<Rightarrow> reason"

definition reassemblyAborts :: "abortRule list" where
  "reassemblyAborts =
    [\<lambda>st. if fCount (fsFragment st) \<le> fIndex (fsFragment st) then REASON_REJECTED else REASON_OK,
     \<lambda>st. if fIndex (fsFragment st) \<noteq> next_index st then REASON_REJECTED else REASON_OK,
     \<lambda>st. if opens st then REASON_OK
          else if fCount (fsFragment st) \<noteq> pCount (the (fsCurrent st)) then REASON_REJECTED
          else REASON_OK,
     \<lambda>st. if opens st \<and> fsPerClient st \<le> fsOpenForClient st then REASON_REJECTED else REASON_OK,
     \<lambda>st. if opens st \<and> 0 < fsMaxReassemblies st \<and> fsMaxReassemblies st \<le> fsOpen st
          then REASON_REJECTED else REASON_OK,
     \<lambda>st. withinLimits (buffered st + int (length (fPart (fsFragment st)))) (fsMaxRequestBytes st)]"

text \<open>The rules are asked in turn and the first that refuses decides.\<close>

fun firstRefusal :: "abortRule list \<Rightarrow> fragmentState \<Rightarrow> reason" where
  "firstRefusal [] st = REASON_OK"
| "firstRefusal (rule # rules) st =
     (if rule st = REASON_OK then firstRefusal rules st else rule st)"

section \<open>The reassembler\<close>

type_synonym clientId = bytes
type_synonym reassemblyKey = "clientId \<times> u64"

record reassembly =
  raMaxRequestBytes :: int
  raPerClient :: int
  raMaxReassemblies :: int
  raIdle :: duration
  raInFlight :: "(reassemblyKey \<times> partial) list"
  raCounts :: "(clientId \<times> int) list"
  raOrder :: "reassemblyKey list"
  raExamined :: u64

definition newReassembly :: "int \<Rightarrow> int \<Rightarrow> int \<Rightarrow> duration \<Rightarrow> reassembly" where
  "newReassembly maxRequestBytes perClient maxReassemblies idle =
     \<lparr> raMaxRequestBytes = maxRequestBytes, raPerClient = perClient,
       raMaxReassemblies = maxReassemblies, raIdle = idle, raInFlight = [], raCounts = [],
       raOrder = [], raExamined = 0 \<rparr>"

definition countOf :: "reassembly \<Rightarrow> clientId \<Rightarrow> int" where
  "countOf r c = (case map_of (raCounts r) c of None \<Rightarrow> 0 | Some n \<Rightarrow> n)"

definition drop_key :: "reassembly \<Rightarrow> reassemblyKey \<Rightarrow> reassembly" where
  "drop_key r key =
     (case map_of (raInFlight r) key of
        None \<Rightarrow> r
      | Some _ \<Rightarrow>
         r\<lparr>raInFlight := AList.delete key (raInFlight r),
           raOrder := remove1 key (raOrder r),
           raCounts := (if countOf r (fst key) \<le> 1 then AList.delete (fst key) (raCounts r)
                        else AList.update (fst key) (countOf r (fst key) - 1) (raCounts r))\<rparr>)"

function expireLoop :: "time \<Rightarrow> reassembly \<Rightarrow> nat \<Rightarrow> reassembly \<times> nat" where
  "expireLoop deadline r dropped =
     (case raOrder r of
        [] \<Rightarrow> (r, dropped)
      | key # rest \<Rightarrow>
         (let r1 = r\<lparr>raExamined := raExamined r + 1\<rparr>
          in case map_of (raInFlight r) key of
               None \<Rightarrow> expireLoop deadline (r1\<lparr>raOrder := rest\<rparr>) dropped
             | Some p \<Rightarrow>
                (if \<not> pStarted p < deadline then (r1, dropped)
                 else expireLoop deadline (drop_key r1 key) (Suc dropped))))"
  by pat_completeness auto

termination
  by (relation "measure (\<lambda>(_, r, _). length (raOrder r))") (auto simp: drop_key_def)

declare expireLoop.simps [simp del]

definition expire :: "time \<Rightarrow> reassembly \<Rightarrow> reassembly \<times> nat" where
  "expire now r = (if raIdle r = 0 then (r, 0) else expireLoop (now - raIdle r) r 0)"

definition stateFor :: "reassembly \<Rightarrow> clientId \<Rightarrow> Fragment \<Rightarrow> fragmentState" where
  "stateFor r c f =
     \<lparr> fsFragment = f, fsCurrent = map_of (raInFlight r) (c, fRequestId f),
       fsOpenForClient = countOf r c, fsOpen = int (length (raInFlight r)),
       fsPerClient = raPerClient r, fsMaxReassemblies = raMaxReassemblies r,
       fsMaxRequestBytes = raMaxRequestBytes r \<rparr>"

definition open_key :: "reassembly \<Rightarrow> reassemblyKey \<Rightarrow> Fragment \<Rightarrow> time \<Rightarrow> reassembly" where
  "open_key r key f now =
     r\<lparr>raInFlight := AList.update key \<lparr> pCount = fCount f, pNext = 0, pBytes = [], pStarted = now \<rparr> (raInFlight r),
       raOrder := raOrder r @ [key],
       raCounts := AList.update (fst key) (countOf r (fst key) + 1) (raCounts r)\<rparr>"

definition append_part :: "reassembly \<Rightarrow> reassemblyKey \<Rightarrow> Fragment \<Rightarrow> partial \<Rightarrow> reassembly \<times> partial" where
  "append_part r key f p =
     (let p' = p\<lparr>pBytes := pBytes p @ fPart f, pNext := pNext p + 1\<rparr>
      in (r\<lparr>raInFlight := AList.update key p' (raInFlight r)\<rparr>, p'))"

definition accept ::
  "reassembly \<Rightarrow> clientId \<Rightarrow> Fragment \<Rightarrow> time \<Rightarrow> time \<Rightarrow> reassembly \<times> bytes \<times> bool \<times> reason" where
  "accept r0 c f now1 now2 =
     (let r = fst (expire now1 r0);
          key = (c, fRequestId f);
          reason = firstRefusal reassemblyAborts (stateFor r c f)
      in if reason \<noteq> REASON_OK then (drop_key r key, [], False, reason)
         else
           (let r1 = (if map_of (raInFlight r) key = None then open_key r key f now2 else r);
                (r2, p) = append_part r1 key f (the (map_of (raInFlight r1) key))
            in if pNext p < pCount p then (r2, [], False, REASON_OK)
               else (drop_key r2 key, pBytes p, True, REASON_OK)))"

definition sweepReassembly :: "time \<Rightarrow> reassembly \<Rightarrow> reassembly \<times> nat" where
  "sweepReassembly now r = expire now r"

record held =
  hReassemblies :: int
  hClients :: int
  hBytes :: int

definition holding :: "reassembly \<Rightarrow> held" where
  "holding r = \<lparr> hReassemblies = int (length (raInFlight r)), hClients = int (length (raCounts r)),
                 hBytes = sum_list (map (\<lambda>(_, p). int (length (pBytes p))) (raInFlight r)) \<rparr>"

section \<open>Cutting a response\<close>

text \<open>
  \<open>body\<close> is the marshalled response. The fragments are those the loop of \<open>responseFrames\<close>
  builds for a body that does not fit one frame; \<open>marshalFragment\<close> is the protobuf encoder.
\<close>

definition fragmentCount :: "int \<Rightarrow> nat \<Rightarrow> int" where
  "fragmentCount partBytes n = (int n + partBytes - 1) div partBytes"

definition responseFragments :: "u64 \<Rightarrow> bytes \<Rightarrow> int \<Rightarrow> Fragment list" where
  "responseFragments requestId body partBytes =
     (let count = fragmentCount partBytes (length body)
      in map (\<lambda>index.
           let from = int index * partBytes;
               upto = min ((int index + 1) * partBytes) (int (length body))
           in \<lparr> fRequestId = requestId, fIndex = of_nat index, fCount = of_int count,
                fPart = take (nat (upto - from)) (drop (nat from) body) \<rparr>)
         [0 ..< nat count])"

datatype FrameType = MessageMessageServerResponse | MessageMessageServerFragment

fun marshalAll :: "('a \<Rightarrow> bytes option) \<Rightarrow> 'a list \<Rightarrow> bytes list option" where
  "marshalAll m [] = Some []"
| "marshalAll m (x # xs) =
     (case m x of None \<Rightarrow> None
      | Some b \<Rightarrow> (case marshalAll m xs of None \<Rightarrow> None | Some bs \<Rightarrow> Some (b # bs)))"

text \<open>\<open>None\<close> is the marshal error, which the caller is answered.\<close>

definition responseFrames ::
  "(Fragment \<Rightarrow> bytes option) \<Rightarrow> u64 \<Rightarrow> bytes option \<Rightarrow> int \<Rightarrow> (FrameType \<times> bytes) list option" where
  "responseFrames marshalFragment requestId marshalled partBytes0 =
     (let partBytes = partSize partBytes0
      in case marshalled of
           None \<Rightarrow> None
         | Some body \<Rightarrow>
            (if int (length body) \<le> partBytes then Some [(MessageMessageServerResponse, body)]
             else map_option (map (Pair MessageMessageServerFragment))
                    (marshalAll marshalFragment (responseFragments requestId body partBytes))))"

section \<open>Runs\<close>

datatype raEvent = Arrive clientId Fragment time time | Tick time

type_synonym raAnswer = "bytes \<times> bool \<times> reason"

fun raStep :: "raEvent \<Rightarrow> reassembly \<Rightarrow> reassembly" where
  "raStep (Arrive c f now1 now2) r = fst (accept r c f now1 now2)"
| "raStep (Tick now) r = fst (sweepReassembly now r)"

definition raRun :: "raEvent list \<Rightarrow> reassembly \<Rightarrow> reassembly" where
  "raRun = fold raStep"

lemma raRun_simps [simp]:
  "raRun [] r = r" "raRun (e # es) r = raRun es (raStep e r)" "raRun (es @ fs) r = raRun fs (raRun es r)"
  by (simp_all add: raRun_def)
end
