(* ===== verification/Reassembly_Invariant.thy ===== *)
theory Reassembly_Invariant
  imports Reassembly
begin

text \<open>
  What the reassembler's books satisfy after any sequence of arrivals and sweeps: the expiry order
  and the counts per client are those of the open buffers, the caps hold, and every buffer waits for
  a fragment that can come.
\<close>

section \<open>The invariant\<close>

definition openKeys :: "reassembly \<Rightarrow> reassemblyKey set" where
  "openKeys r = dom (map_of (raInFlight r))"

definition openFor :: "reassembly \<Rightarrow> clientId \<Rightarrow> nat" where
  "openFor r c = card {k \<in> openKeys r. fst k = c}"

definition ra_books :: "reassembly \<Rightarrow> bool" where
  "ra_books r \<longleftrightarrow> distinct (map fst (raInFlight r)) \<and> distinct (raOrder r) \<and>
     set (raOrder r) = openKeys r \<and> distinct (map fst (raCounts r)) \<and>
     (\<forall>c. map_of (raCounts r) c = (if openFor r c = 0 then None else Some (int (openFor r c))))"

definition ra_buffers :: "reassembly \<Rightarrow> bool" where
  "ra_buffers r \<longleftrightarrow> (\<forall>k p. map_of (raInFlight r) k = Some p \<longrightarrow>
     0 < pNext p \<and> pNext p < pCount p \<and> int (length (pBytes p)) \<le> raMaxRequestBytes r)"

definition ra_caps :: "reassembly \<Rightarrow> bool" where
  "ra_caps r \<longleftrightarrow> (\<forall>c. int (openFor r c) \<le> max 0 (raPerClient r)) \<and>
     (0 < raMaxReassemblies r \<longrightarrow> int (card (openKeys r)) \<le> raMaxReassemblies r)"

definition ra_inv :: "reassembly \<Rightarrow> bool" where
  "ra_inv r \<longleftrightarrow> ra_books r \<and> ra_buffers r \<and> ra_caps r"

definition same_config :: "reassembly \<Rightarrow> reassembly \<Rightarrow> bool" where
  "same_config r r' \<longleftrightarrow> raMaxRequestBytes r' = raMaxRequestBytes r \<and> raPerClient r' = raPerClient r \<and>
     raMaxReassemblies r' = raMaxReassemblies r \<and> raIdle r' = raIdle r"

lemma same_config_trans: "same_config r s \<Longrightarrow> same_config s t \<Longrightarrow> same_config r t"
  by (simp add: same_config_def)

lemma finite_openKeys [simp]: "finite (openKeys r)"
  by (simp add: openKeys_def finite_dom_map_of)

lemma openFor_finite [simp]: "finite {k \<in> openKeys r. fst k = c}"
  by simp

lemma books_length: "ra_books r \<Longrightarrow> length (raInFlight r) = card (openKeys r)"
  unfolding ra_books_def openKeys_def dom_map_of_conv_image_fst
  by (metis distinct_card length_map list.set_map)

lemma books_countOf: "ra_books r \<Longrightarrow> countOf r c = int (openFor r c)"
  by (simp add: ra_books_def countOf_def)

lemma openKeys_iff: "k \<in> openKeys r \<longleftrightarrow> (\<exists>p. map_of (raInFlight r) k = Some p)"
  by (auto simp: openKeys_def)

section \<open>Dropping\<close>

lemma drop_key_inFlight: "map_of (raInFlight (drop_key r key)) = (map_of (raInFlight r))(key := None)"
  by (auto simp: drop_key_def delete_conv' split: option.split)

lemma drop_key_keys: "openKeys (drop_key r key) = openKeys r - {key}"
  by (auto simp: openKeys_def drop_key_inFlight split: if_splits)

lemma drop_key_config: "same_config r (drop_key r key)"
  by (simp add: same_config_def drop_key_def split: option.split)

lemma openFor_drop:
  assumes "key \<in> openKeys r"
  shows "openFor (drop_key r key) c = (if c = fst key then openFor r c - 1 else openFor r c)"
    and "0 < openFor r (fst key)"
proof -
  have "{k \<in> openKeys (drop_key r key). fst k = c} = {k \<in> openKeys r. fst k = c} - {key}"
    by (auto simp: drop_key_keys)
  then show "openFor (drop_key r key) c = (if c = fst key then openFor r c - 1 else openFor r c)"
    using assms by (auto simp: openFor_def)
  show "0 < openFor r (fst key)" using assms by (cases key) (auto simp: openFor_def card_gt_0_iff)
qed

lemma drop_key_books:
  assumes "ra_books r"
  shows "ra_books (drop_key r key)"
proof (cases "map_of (raInFlight r) key")
  case None
  then show ?thesis using assms by (simp add: drop_key_def)
next
  case (Some p)
  then have k: "key \<in> openKeys r" by (auto simp: openKeys_def)
  let ?r = "drop_key r key"
  have r: "raInFlight ?r = AList.delete key (raInFlight r)" "raOrder ?r = remove1 key (raOrder r)"
    "raCounts ?r = (if countOf r (fst key) \<le> 1 then AList.delete (fst key) (raCounts r)
       else AList.update (fst key) (countOf r (fst key) - 1) (raCounts r))"
    using Some by (simp_all add: drop_key_def)
  have "map_of (raCounts ?r) c = (if openFor ?r c = 0 then None else Some (int (openFor ?r c)))" for c
    using assms openFor_drop(1) [OF k, of c] openFor_drop(2) [OF k] books_countOf [OF assms, of "fst key"]
    by (auto simp: r(3) ra_books_def delete_conv' update_conv')
  with assms show ?thesis
    by (simp add: ra_books_def r(1,2) drop_key_keys distinct_delete)
      (simp add: r(3) distinct_delete distinct_update ra_books_def)
qed

lemma drop_key_caps: "ra_caps r \<Longrightarrow> ra_caps (drop_key r key)"
proof -
  assume caps: "ra_caps r"
  have "openFor (drop_key r key) c \<le> openFor r c" for c
    unfolding openFor_def drop_key_keys by (intro card_mono) auto
  moreover have "card (openKeys (drop_key r key)) \<le> card (openKeys r)"
    unfolding drop_key_keys by (intro card_mono) auto
  ultimately show ?thesis
    using caps drop_key_config [of r key] unfolding ra_caps_def same_config_def
    by (smt (verit, best) of_nat_le_iff)
qed

lemma drop_key_inv: "ra_inv r \<Longrightarrow> ra_inv (drop_key r key)"
  using drop_key_config [of r key]
  by (auto simp: ra_inv_def drop_key_books drop_key_caps ra_buffers_def drop_key_inFlight same_config_def
      split: if_splits)

section \<open>Expiry\<close>

lemma examined_irrelevant [simp]:
  "ra_inv (r\<lparr>raExamined := n\<rparr>) = ra_inv r" "ra_books (r\<lparr>raExamined := n\<rparr>) = ra_books r"
  "openKeys (r\<lparr>raExamined := n\<rparr>) = openKeys r" "countOf (r\<lparr>raExamined := n\<rparr>) c = countOf r c"
  "same_config r (r\<lparr>raExamined := n\<rparr>)"
  by (simp_all add: ra_inv_def ra_books_def ra_buffers_def ra_caps_def openKeys_def openFor_def
      countOf_def same_config_def)

lemma order_open:
  assumes "ra_books r" and "raOrder r = key # rest"
  obtains p where "map_of (raInFlight r) key = Some p"
proof -
  from assms have "key \<in> openKeys r" unfolding ra_books_def by (metis list.set_intros(1))
  with that show ?thesis unfolding openKeys_iff by blast
qed

lemma expireLoop_step:
  assumes "ra_books r" and "raOrder r = key # rest" and "map_of (raInFlight r) key = Some p"
  shows "expireLoop deadline r n =
    (if \<not> pStarted p < deadline then (r\<lparr>raExamined := raExamined r + 1\<rparr>, n)
     else expireLoop deadline (drop_key (r\<lparr>raExamined := raExamined r + 1\<rparr>) key) (Suc n))"
  using assms by (subst expireLoop.simps) (simp add: Let_def)

text \<open>An expiry is a sequence of drops of buffers that started before its deadline.\<close>

lemma expireLoop_keeps:
  assumes "ra_inv r" and "expireLoop deadline r n = (r', m)"
  shows "ra_inv r' \<and> same_config r r' \<and> openKeys r' \<subseteq> openKeys r \<and>
    (\<forall>k p. map_of (raInFlight r) k = Some p \<longrightarrow> \<not> pStarted p < deadline \<longrightarrow> map_of (raInFlight r') k = Some p)"
  using assms
proof (induction "length (raOrder r)" arbitrary: r n rule: less_induct)
  case less
  show ?case
  proof (cases "raOrder r")
    case Nil
    with less.prems show ?thesis by (subst (asm) expireLoop.simps) (simp add: same_config_def)
  next
    case (Cons key rest)
    have books: "ra_books r" using less.prems(1) by (simp add: ra_inv_def)
    obtain p where p: "map_of (raInFlight r) key = Some p" using order_open [OF books Cons] .
    let ?r1 = "r\<lparr>raExamined := raExamined r + 1\<rparr>"
    note step = expireLoop_step [OF books Cons p, of deadline n]
    show ?thesis
    proof (cases "pStarted p < deadline")
      case False
      with step less.prems show ?thesis by (auto simp: same_config_def openKeys_def)
    next
      case True
      let ?r2 = "drop_key ?r1 key"
      have "length (raOrder ?r2) < length (raOrder r)" using p Cons by (simp add: drop_key_def)
      moreover have "ra_inv ?r2" using less.prems(1) by (simp add: drop_key_inv)
      moreover have "expireLoop deadline ?r2 (Suc n) = (r', m)" using step True less.prems(2) by simp
      ultimately have IH: "ra_inv r' \<and> same_config ?r2 r' \<and> openKeys r' \<subseteq> openKeys ?r2 \<and>
        (\<forall>k p. map_of (raInFlight ?r2) k = Some p \<longrightarrow> \<not> pStarted p < deadline \<longrightarrow>
           map_of (raInFlight r') k = Some p)"
        by (rule less.hyps)
      have "same_config r ?r2" using drop_key_config [of ?r1 key] by (simp add: same_config_def)
      moreover have "map_of (raInFlight r') k = Some q"
        if q: "map_of (raInFlight r) k = Some q" "\<not> pStarted q < deadline" for k q
      proof -
        from q True p have "map_of (raInFlight ?r2) k = Some q" by (auto simp: drop_key_inFlight)
        with IH q(2) show ?thesis by blast
      qed
      ultimately show ?thesis using IH same_config_trans by (simp add: drop_key_keys) blast
    qed
  qed
qed

lemma expire_keeps:
  assumes "ra_inv r"
  shows "ra_inv (fst (expire now r))" and "same_config r (fst (expire now r))"
    and "openKeys (fst (expire now r)) \<subseteq> openKeys r"
    and "map_of (raInFlight r) k = Some p \<Longrightarrow> raIdle r = 0 \<or> now - raIdle r \<le> pStarted p \<Longrightarrow>
      map_of (raInFlight (fst (expire now r))) k = Some p"
proof -
  have *: "raIdle r \<noteq> 0 \<Longrightarrow> expireLoop (now - raIdle r) r 0 = (fst (expire now r), snd (expire now r))"
    by (simp add: expire_def)
  show "ra_inv (fst (expire now r))" "same_config r (fst (expire now r))"
    "openKeys (fst (expire now r)) \<subseteq> openKeys r"
    using expireLoop_keeps [OF assms *] assms
    by (cases "raIdle r = 0"; simp add: expire_def same_config_def)+
  show "map_of (raInFlight (fst (expire now r))) k = Some p"
    if "map_of (raInFlight r) k = Some p" "raIdle r = 0 \<or> now - raIdle r \<le> pStarted p"
    using expireLoop_keeps [OF assms *] that
    by (cases "raIdle r = 0") (auto simp: expire_def simp del: split_paired_All)
qed

lemma expire_room:
  assumes "ra_inv r"
  shows "countOf (fst (expire now r)) c \<le> countOf r c"
    and "length (raInFlight (fst (expire now r))) \<le> length (raInFlight r)"
proof -
  note e = expire_keeps(1,2,3) [OF assms, of now]
  have b: "ra_books r" "ra_books (fst (expire now r))" using assms e(1) by (simp_all add: ra_inv_def)
  show "countOf (fst (expire now r)) c \<le> countOf r c"
    using b e(3) by (simp add: books_countOf openFor_def) (intro card_mono; auto)
  show "length (raInFlight (fst (expire now r))) \<le> length (raInFlight r)"
    using b e(3) by (simp add: books_length card_mono)
qed

section \<open>Accepting\<close>

lemma firstRefusal_OK: "firstRefusal rules st = REASON_OK \<longleftrightarrow> (\<forall>rule \<in> set rules. rule st = REASON_OK)"
  by (induction rules) auto

lemma withinLimits_OK [simp]: "withinLimits n m = REASON_OK \<longleftrightarrow> n \<le> m"
  by (simp add: withinLimits_def)

lemma admitted_iff:
  "firstRefusal reassemblyAborts (stateFor r c f) = REASON_OK \<longleftrightarrow>
     fIndex f < fCount f \<and>
     (case map_of (raInFlight r) (c, fRequestId f) of
        None \<Rightarrow> fIndex f = 0 \<and> countOf r c < raPerClient r \<and>
          (0 < raMaxReassemblies r \<longrightarrow> int (length (raInFlight r)) < raMaxReassemblies r) \<and>
          int (length (fPart f)) \<le> raMaxRequestBytes r
      | Some p \<Rightarrow> fIndex f = pNext p \<and> fCount f = pCount p \<and>
          int (length (pBytes p)) + int (length (fPart f)) \<le> raMaxRequestBytes r)"
  by (auto simp: firstRefusal_OK reassemblyAborts_def stateFor_def next_index_def buffered_def opens_def
      linorder_not_le linorder_not_less split: option.splits if_splits)

definition opened :: "reassembly \<Rightarrow> reassemblyKey \<Rightarrow> partial \<Rightarrow> reassembly" where
  "opened r key p =
     r\<lparr>raOrder := raOrder r @ [key],
       raCounts := AList.update (fst key) (countOf r (fst key) + 1) (raCounts r),
       raInFlight := AList.update key p (raInFlight r)\<rparr>"

definition continued :: "reassembly \<Rightarrow> reassemblyKey \<Rightarrow> partial \<Rightarrow> reassembly" where
  "continued r key p = r\<lparr>raInFlight := AList.update key p (raInFlight r)\<rparr>"

lemma inFlight_put:
  "map_of (raInFlight (opened r key p)) = (map_of (raInFlight r))(key \<mapsto> p)"
  "map_of (raInFlight (continued r key p)) = (map_of (raInFlight r))(key \<mapsto> p)"
  by (simp_all add: opened_def continued_def update_conv')

lemma openKeys_put:
  "openKeys (opened r key p) = insert key (openKeys r)"
  "openKeys (continued r key p) = insert key (openKeys r)"
  by (simp_all add: openKeys_def inFlight_put)

lemma config_put: "same_config r (opened r key p)" "same_config r (continued r key p)"
  by (simp_all add: same_config_def opened_def continued_def)

text \<open>The four outcomes of a fragment, over the reassembler its expiry leaves.\<close>

lemma accept_cases:
  assumes "accept r0 c f now1 now2 = (r', bytes, complete, reason)"
    and "r = fst (expire now1 r0)" and "key = (c, fRequestId f)"
  obtains (refused) "reason = firstRefusal reassemblyAborts (stateFor r c f)" "reason \<noteq> REASON_OK"
      "r' = drop_key r key" "bytes = []" "\<not> complete"
  | (open_new) p where "map_of (raInFlight r) key = None" "reason = REASON_OK"
      "fIndex f = 0" "0 < fCount f" "countOf r c < raPerClient r"
      "0 < raMaxReassemblies r \<longrightarrow> int (length (raInFlight r)) < raMaxReassemblies r"
      "int (length (fPart f)) \<le> raMaxRequestBytes r"
      "p = \<lparr> pCount = fCount f, pNext = 1, pBytes = fPart f, pStarted = now2 \<rparr>"
      "(r', bytes, complete) = (if 1 < fCount f then (opened r key p, [], False)
         else (drop_key (opened r key p) key, fPart f, True))"
  | (continue_old) p p' where "map_of (raInFlight r) key = Some p" "reason = REASON_OK"
      "fIndex f = pNext p" "fCount f = pCount p" "pNext p < pCount p"
      "int (length (pBytes p)) + int (length (fPart f)) \<le> raMaxRequestBytes r"
      "p' = p\<lparr>pBytes := pBytes p @ fPart f, pNext := pNext p + 1\<rparr>"
      "(r', bytes, complete) = (if pNext p + 1 < pCount p then (continued r key p', [], False)
         else (drop_key (continued r key p') key, pBytes p @ fPart f, True))"
proof (cases "firstRefusal reassemblyAborts (stateFor r c f) = REASON_OK")
  case False
  with assms refused show ?thesis by (simp add: accept_def Let_def)
next
  case True
  note ok = True [unfolded admitted_iff assms(3) [symmetric]]
  show ?thesis
  proof (cases "map_of (raInFlight r) key")
    case None
    let ?p = "\<lparr> pCount = fCount f, pNext = 1, pBytes = fPart f, pStarted = now2 \<rparr>"
    have e: "accept r0 c f now1 now2 = (if 1 < fCount f then (opened r key ?p, [], False, REASON_OK)
        else (drop_key (opened r key ?p) key, fPart f, True, REASON_OK))"
      using None True assms(2,3)
      by (simp add: accept_def Let_def open_key_def append_part_def update_conv' opened_def)
    show ?thesis
      by (rule open_new [of ?p])
        (use None ok e assms(1) in \<open>simp_all add: word_gt_0 split: if_splits\<close>)
  next
    case (Some p)
    let ?p = "p\<lparr>pBytes := pBytes p @ fPart f, pNext := pNext p + 1\<rparr>"
    have e: "accept r0 c f now1 now2 = (if pNext p + 1 < pCount p then (continued r key ?p, [], False, REASON_OK)
        else (drop_key (continued r key ?p) key, pBytes p @ fPart f, True, REASON_OK))"
      using Some True assms(2,3) by (simp add: accept_def Let_def append_part_def continued_def)
    show ?thesis
      by (rule continue_old [of p ?p])
        (use Some ok e assms(1) in \<open>simp_all split: if_splits\<close>)
  qed
qed

lemma opened_books:
  assumes books: "ra_books r" and new: "map_of (raInFlight r) key = None"
  shows "ra_books (opened r key p)"
proof -
  have k: "key \<notin> openKeys r" using new by (simp add: openKeys_iff)
  have sets: "{k \<in> openKeys (opened r key p). fst k = c} =
      (if c = fst key then insert key {k \<in> openKeys r. fst k = c} else {k \<in> openKeys r. fst k = c})" for c
    by (auto simp: openKeys_put)
  have for_c: "openFor (opened r key p) c = (if c = fst key then Suc (openFor r c) else openFor r c)" for c
    unfolding openFor_def sets using k by simp
  have "map_of (raCounts (opened r key p)) c =
      (if openFor (opened r key p) c = 0 then None else Some (int (openFor (opened r key p) c)))" for c
  proof -
    have "raCounts (opened r key p) = AList.update (fst key) (int (openFor r (fst key)) + 1) (raCounts r)"
      by (simp add: opened_def books_countOf [OF books])
    with books show ?thesis unfolding for_c by (simp add: update_conv' ra_books_def)
  qed
  with books k show ?thesis
    by (simp add: ra_books_def openKeys_put) (simp add: opened_def distinct_update)
qed

lemma continued_books:
  assumes "ra_books r" and "map_of (raInFlight r) key = Some p"
  shows "ra_books (continued r key p')"
proof -
  have k: "openKeys (continued r key p') = openKeys r" using assms(2) by (auto simp: openKeys_put openKeys_iff)
  then have "openFor (continued r key p') = openFor r" by (simp add: openFor_def fun_eq_iff)
  with assms(1) k show ?thesis
    by (simp add: ra_books_def) (simp add: continued_def distinct_update)
qed

lemma opened_caps:
  assumes "ra_books r" and "ra_caps r" and "map_of (raInFlight r) key = None"
    and "countOf r (fst key) < raPerClient r"
    and "0 < raMaxReassemblies r \<longrightarrow> int (length (raInFlight r)) < raMaxReassemblies r"
  shows "ra_caps (opened r key p)"
proof -
  have k: "key \<notin> openKeys r" using assms(3) by (simp add: openKeys_iff)
  have sets: "{k \<in> openKeys (opened r key p). fst k = c} =
      (if c = fst key then insert key {k \<in> openKeys r. fst k = c} else {k \<in> openKeys r. fst k = c})" for c
    by (auto simp: openKeys_put)
  have "int (openFor (opened r key p) c) \<le> max 0 (raPerClient r)" for c
    using assms(2,4) k books_countOf [OF assms(1), of "fst key"]
    unfolding openFor_def sets ra_caps_def by (auto simp: openFor_def)
  moreover have "int (card (openKeys (opened r key p))) = int (length (raInFlight r)) + 1"
    using k by (simp add: openKeys_put books_length [OF assms(1)])
  ultimately show ?thesis using assms(5) config_put(1) [of r key p]
    by (auto simp: ra_caps_def same_config_def)
qed

lemma continued_caps:
  "map_of (raInFlight r) key = Some p \<Longrightarrow> ra_caps r \<Longrightarrow> ra_caps (continued r key p')"
proof -
  assume a: "map_of (raInFlight r) key = Some p" "ra_caps r"
  then have "openKeys (continued r key p') = openKeys r" by (auto simp: openKeys_put openKeys_iff)
  with a config_put(2) [of r key p'] show ?thesis by (simp add: ra_caps_def openFor_def same_config_def)
qed

lemma put_buffers:
  assumes "ra_buffers r" and "same_config r r'" and "map_of (raInFlight r') = (map_of (raInFlight r))(key \<mapsto> p)"
  shows "0 < pNext p \<Longrightarrow> pNext p < pCount p \<Longrightarrow> int (length (pBytes p)) \<le> raMaxRequestBytes r \<Longrightarrow> ra_buffers r'"
    and "ra_buffers (drop_key r' key)"
  using assms drop_key_config [of r' key]
  by (auto simp: ra_buffers_def same_config_def drop_key_inFlight split: if_splits)

lemma word_less_one: "(x::u32) < y \<Longrightarrow> 0 < x + 1"
  using max_word_max [of y] by (auto simp: word_gt_0 eq_neg_iff_add_eq_0 [symmetric])

lemma accept_keeps:
  assumes inv: "ra_inv r0"
  shows "ra_inv (fst (accept r0 c f now1 now2))" and "same_config r0 (fst (accept r0 c f now1 now2))"
proof -
  obtain r' bytes complete reason where a: "accept r0 c f now1 now2 = (r', bytes, complete, reason)"
    by (metis prod_cases4)
  define r where "r = fst (expire now1 r0)"
  define key where "key = (c, fRequestId f)"
  have inv_r: "ra_inv r" and cfg: "same_config r0 r" using expire_keeps [OF inv] by (simp_all add: r_def)
  note i = inv_r [unfolded ra_inv_def]
  have "ra_inv r' \<and> same_config r r'"
    using a r_def key_def
  proof (cases rule: accept_cases)
    case refused
    then show ?thesis using inv_r drop_key_inv drop_key_config by simp
  next
    case (open_new p)
    have b: "ra_books (opened r key p)" using i open_new(1) by (simp add: opened_books)
    have cp: "ra_caps (opened r key p)"
      using i open_new(1,5,6) by (intro opened_caps) (simp_all add: key_def)
    note bufs = put_buffers [of r "opened r key p" key p, OF _ config_put(1) inFlight_put(1)]
    show ?thesis
    proof (cases "1 < fCount f")
      case True
      then have "ra_buffers (opened r key p)" using i open_new(7,8) by (intro bufs) simp_all
      with True open_new(9) b cp config_put(1) show ?thesis by (simp add: ra_inv_def)
    next
      case False
      with open_new(9) have "r' = drop_key (opened r key p) key" by simp
      moreover have "ra_buffers (drop_key (opened r key p) key)" using i by (intro bufs) simp
      ultimately show ?thesis
        using b cp drop_key_books drop_key_caps same_config_trans [OF config_put(1) drop_key_config]
        by (simp add: ra_inv_def)
    qed
  next
    case (continue_old p p')
    have b: "ra_books (continued r key p')" and cp: "ra_caps (continued r key p')"
      using i continue_old(1) by (simp_all add: continued_books continued_caps)
    note bufs = put_buffers [of r "continued r key p'" key p', OF _ config_put(2) inFlight_put(2)]
    show ?thesis
    proof (cases "pNext p + 1 < pCount p")
      case True
      then have "ra_buffers (continued r key p')"
        using i continue_old(5-7) word_less_one by (intro bufs) simp_all
      with True continue_old(8) b cp config_put(2) show ?thesis by (simp add: ra_inv_def)
    next
      case False
      with continue_old(8) have "r' = drop_key (continued r key p') key" by simp
      moreover have "ra_buffers (drop_key (continued r key p') key)" using i by (intro bufs) simp
      ultimately show ?thesis
        using b cp drop_key_books drop_key_caps same_config_trans [OF config_put(2) drop_key_config]
        by (simp add: ra_inv_def)
    qed
  qed
  with a cfg show "ra_inv (fst (accept r0 c f now1 now2))" "same_config r0 (fst (accept r0 c f now1 now2))"
    by (auto intro: same_config_trans)
qed

lemma raStep_keeps: "ra_inv r \<Longrightarrow> ra_inv (raStep e r) \<and> same_config r (raStep e r)"
  by (cases e) (simp_all add: accept_keeps sweepReassembly_def expire_keeps)

interpretation reassemblies: transition_system
  "\<lambda>r. \<exists>a b c d. r = newReassembly a b c d" "\<lambda>r r'. \<exists>e. r' = raStep e r" ra_inv
proof
  fix r
  assume "\<exists>a b c d. r = newReassembly a b c d"
  then show "ra_inv r"
    by (auto simp: newReassembly_def ra_inv_def ra_books_def ra_buffers_def ra_caps_def openKeys_def openFor_def)
qed (auto simp: raStep_keeps)

lemma raRun_steps: "(\<lambda>r r'. \<exists>e. r' = raStep e r)\<^sup>*\<^sup>* r (raRun es r)"
  by (induction es arbitrary: r) (auto intro: converse_rtranclp_into_rtranclp)

lemma raRun_inv: "ra_inv (raRun es (newReassembly a b c d))"
  using reassemblies.inv_reachable [OF _ raRun_steps] by blast

lemma raRun_config: "ra_inv r \<Longrightarrow> ra_inv (raRun es r) \<and> same_config r (raRun es r)"
proof (induction es arbitrary: r)
  case (Cons e es)
  then show ?case using raStep_keeps [of r e] same_config_trans by (simp, blast)
qed (simp add: same_config_def)
end
