(* ===== verification/Reassembly_Properties.thy ===== *)
theory Reassembly_Properties
  imports Reassembly_Invariant
begin

text \<open>
  What fragmentation promises: the memory a reassembler holds is bounded by its caps, an abort frees
  its buffer, the expiry that walks only the oldest buffers drops what a scan of all of them would,
  and the fragments a body is cut into assemble to that body again, whatever arrives between them.
\<close>

section \<open>Definitions\<close>

fun eventTimes :: "raEvent \<Rightarrow> time list" where
  "eventTimes (Arrive _ _ now1 now2) = [now1, now2]"
| "eventTimes (Tick now) = [now]"

definition allTimes :: "raEvent list \<Rightarrow> time list" where
  "allTimes es = concat (map eventTimes es)"

fun eventFor :: "reassemblyKey \<Rightarrow> raEvent \<Rightarrow> bool" where
  "eventFor key (Arrive c f _ _) \<longleftrightarrow> key = (c, fRequestId f)"
| "eventFor key (Tick _) \<longleftrightarrow> False"

text \<open>The fragments of one client, each with what happens before it and its two clock readings.\<close>

fun feed :: "clientId \<Rightarrow> reassembly \<Rightarrow> (raEvent list \<times> Fragment \<times> time \<times> time) list \<Rightarrow>
    reassembly \<times> raAnswer list" where
  "feed c r [] = (r, [])"
| "feed c r ((gap, f, t1, t2) # rest) =
     (let (r1, answer) = accept (raRun gap r) c f t1 t2;
          (r2, answers) = feed c r1 rest
      in (r2, answer # answers))"

text \<open>The reference expiry: every buffer looked at.\<close>

definition stale :: "time \<Rightarrow> reassembly \<Rightarrow> partial \<Rightarrow> bool" where
  "stale now r p \<longleftrightarrow> raIdle r \<noteq> 0 \<and> pStarted p < now - raIdle r"

definition startOf :: "reassembly \<Rightarrow> reassemblyKey \<Rightarrow> time" where
  "startOf r k = pStarted (the (map_of (raInFlight r) k))"

definition ra_sorted :: "reassembly \<Rightarrow> time \<Rightarrow> bool" where
  "ra_sorted r now \<longleftrightarrow> sorted (map (startOf r) (raOrder r)) \<and> (\<forall>k \<in> openKeys r. startOf r k \<le> now)"

definition undisturbed :: "reassemblyKey \<Rightarrow> duration \<Rightarrow> time \<Rightarrow> raEvent list \<times> Fragment \<times> time \<times> time \<Rightarrow> bool" where
  "undisturbed key idle start = (\<lambda>(gap, f, t1, t2).
     (\<forall>e \<in> set gap. \<not> eventFor key e \<and> (\<forall>t \<in> set (eventTimes e). idle = 0 \<or> t - idle \<le> start)) \<and>
     (idle = 0 \<or> t1 - idle \<le> start))"

definition fragmentsOf :: "(raEvent list \<times> Fragment \<times> time \<times> time) list \<Rightarrow> Fragment list" where
  "fragmentsOf steps = map (fst \<circ> snd) steps"

definition demoFragment :: "nat \<Rightarrow> nat \<Rightarrow> byte \<Rightarrow> Fragment" where
  "demoFragment i n b = \<lparr> fRequestId = 7, fIndex = of_nat i, fCount = of_nat n, fPart = [b, b] \<rparr>"

section \<open>Expiry against a scan\<close>

lemma drop_key_filter:
  assumes "ra_books r" and "key \<in> openKeys r"
  shows "raInFlight (drop_key r key) = filter (\<lambda>x. fst x \<noteq> key) (raInFlight r)"
    and "raOrder (drop_key r key) = filter (\<lambda>k. k \<noteq> key) (raOrder r)"
proof -
  from assms(2) obtain p where "map_of (raInFlight r) key = Some p" by (auto simp: openKeys_iff)
  then show "raInFlight (drop_key r key) = filter (\<lambda>x. fst x \<noteq> key) (raInFlight r)"
    "raOrder (drop_key r key) = filter (\<lambda>k. k \<noteq> key) (raOrder r)"
    using assms(1) by (auto simp: drop_key_def AList.delete_eq ra_books_def distinct_remove1_removeAll
        removeAll_filter_not_eq intro!: filter_cong)
qed

lemma startOf_drop: "k \<noteq> key \<Longrightarrow> startOf (drop_key r key) k = startOf r k"
  by (simp add: startOf_def drop_key_inFlight)

lemma sorted_order_drop:
  assumes "ra_books r" and "sorted (map (startOf r) (raOrder r))"
  shows "sorted (map (startOf (drop_key r key)) (raOrder (drop_key r key)))"
proof (cases "key \<in> openKeys r")
  case True
  have "map (startOf (drop_key r key)) (raOrder (drop_key r key)) =
      map (startOf r) (filter (\<lambda>k. k \<noteq> key) (raOrder r))"
    unfolding drop_key_filter [OF assms(1) True] by (intro map_cong refl startOf_drop) simp
  with assms(2) show ?thesis by (simp add: sorted_filter)
next
  case False
  with assms(2) show ?thesis by (simp add: drop_key_def openKeys_iff)
qed

lemma expireLoop_scan:
  assumes "ra_books r" and "sorted (map (startOf r) (raOrder r))" and "expireLoop deadline r n = (r', m)"
  shows "raInFlight r' = filter (\<lambda>x. \<not> pStarted (snd x) < deadline) (raInFlight r) \<and>
    m = n + length (filter (\<lambda>x. pStarted (snd x) < deadline) (raInFlight r)) \<and>
    (\<exists>e. raExamined r' = raExamined r + of_nat e \<and> e \<le> m - n + 1)"
  using assms
proof (induction "length (raOrder r)" arbitrary: r n rule: less_induct)
  case less
  have fl: "distinct (map fst (raInFlight r))" "set (raOrder r) = openKeys r"
    using less.prems(1) by (simp_all add: ra_books_def)
  have start: "pStarted p = startOf r k" if "(k, p) \<in> set (raInFlight r)" for k p
    using that fl(1) by (simp add: startOf_def)
  have ordered: "k \<in> set (raOrder r)" if "(k, p) \<in> set (raInFlight r)" for k p
    using that fl by (auto simp: openKeys_def dom_map_of_conv_image_fst intro: rev_image_eqI)
  show ?case
  proof (cases "raOrder r")
    case Nil
    then have "raInFlight r = []" using ordered by (metis empty_iff empty_set list.set_cases neq_Nil_conv prod.exhaust list.set_intros(1))
    with Nil less.prems(3) show ?thesis by (subst (asm) expireLoop.simps) (auto intro!: exI [of _ 0])
  next
    case (Cons key rest)
    obtain p where p: "map_of (raInFlight r) key = Some p" using order_open [OF less.prems(1) Cons] .
    let ?r1 = "r\<lparr>raExamined := raExamined r + 1\<rparr>"
    note step = expireLoop_step [OF less.prems(1) Cons p, of deadline n]
    show ?thesis
    proof (cases "pStarted p < deadline")
      case False
      have "\<not> pStarted q < deadline" if "(k, q) \<in> set (raInFlight r)" for k q
        using False start [OF that] ordered [OF that] less.prems(2) Cons p
        by (force simp: startOf_def)
      then have "filter (\<lambda>x. \<not> pStarted (snd x) < deadline) (raInFlight r) = raInFlight r"
        "filter (\<lambda>x. pStarted (snd x) < deadline) (raInFlight r) = []"
        by (auto intro!: filter_True filter_False)
      with step False less.prems(3) show ?thesis by (auto intro!: exI [of _ 1])
    next
      case True
      let ?r2 = "drop_key ?r1 key"
      have k: "key \<in> openKeys ?r1" using p by (auto simp: openKeys_iff)
      have b1: "ra_books ?r1" using less.prems(1) by simp
      note df = drop_key_filter [OF b1 k]
      have srt: "sorted (map (startOf ?r2) (raOrder ?r2))"
        using less.prems(2) by (intro sorted_order_drop [OF b1]) (simp add: startOf_def [abs_def])
      have len: "length (raOrder ?r2) < length (raOrder r)" using p Cons by (simp add: drop_key_def)
      have run: "expireLoop deadline ?r2 (Suc n) = (r', m)" using step True less.prems(3) by simp
      note IH = less.hyps [OF len drop_key_books [OF b1] srt run]
      have left: "filter (\<lambda>x. \<not> pStarted (snd x) < deadline) (raInFlight ?r2) =
          filter (\<lambda>x. \<not> pStarted (snd x) < deadline) (raInFlight r)"
        unfolding df(1) using True p start by (auto simp: startOf_def intro!: filter_cong)
      have "length (raInFlight r) = Suc (length (raInFlight ?r2))"
        using k books_length [OF less.prems(1)] books_length [OF drop_key_books [OF b1, of key]]
          card_Suc_Diff1 [of "openKeys r" key]
        by (simp add: drop_key_keys)
      then have "length (filter (\<lambda>x. pStarted (snd x) < deadline) (raInFlight r)) =
          Suc (length (filter (\<lambda>x. pStarted (snd x) < deadline) (raInFlight ?r2)))"
        using sum_length_filter_compl [of "\<lambda>x. pStarted (snd x) < deadline" "raInFlight r"]
          sum_length_filter_compl [of "\<lambda>x. pStarted (snd x) < deadline" "raInFlight ?r2"] left by simp
      moreover from IH obtain e where "raExamined r' = raExamined ?r2 + of_nat e" "e \<le> m - Suc n + 1" by blast
      moreover have "raExamined ?r2 = raExamined r + 1" using p by (simp add: drop_key_def)
      ultimately show ?thesis using IH left by (auto intro!: exI [of _ "Suc e"])
    qed
  qed
qed

text \<open>With a clock that does not go back the expiry order is the order of the starts.\<close>

lemma sorted_drop:
  "ra_books r \<Longrightarrow> ra_sorted r now \<Longrightarrow> ra_sorted (drop_key r key) now"
  using sorted_order_drop by (auto simp: ra_sorted_def drop_key_keys startOf_drop)

lemma sorted_examined [simp]: "ra_sorted (r\<lparr>raExamined := n\<rparr>) now = ra_sorted r now"
  by (simp add: ra_sorted_def startOf_def [abs_def])

lemma expireLoop_sorted:
  assumes "ra_books r" and "ra_sorted r now"
  shows "ra_sorted (fst (expireLoop deadline r n)) now"
  using assms
proof (induction "length (raOrder r)" arbitrary: r n rule: less_induct)
  case less
  show ?case
  proof (cases "raOrder r")
    case Nil
    with less.prems(2) show ?thesis by (subst expireLoop.simps) simp
  next
    case (Cons key rest)
    obtain p where p: "map_of (raInFlight r) key = Some p" using order_open [OF less.prems(1) Cons] .
    let ?r2 = "drop_key (r\<lparr>raExamined := raExamined r + 1\<rparr>) key"
    have "length (raOrder ?r2) < length (raOrder r)" using p Cons by (simp add: drop_key_def)
    moreover have "ra_books ?r2" "ra_sorted ?r2 now"
      using less.prems by (simp_all add: drop_key_books sorted_drop)
    ultimately have "ra_sorted (fst (expireLoop deadline ?r2 (Suc n))) now" by (rule less.hyps)
    with less.prems(2) show ?thesis unfolding expireLoop_step [OF less.prems(1) Cons p] by simp
  qed
qed

lemma expire_sorted: "ra_inv r \<Longrightarrow> ra_sorted r now \<Longrightarrow> ra_sorted (fst (expire t r)) now"
  by (simp add: expire_def expireLoop_sorted ra_inv_def)

lemma sorted_later: "ra_sorted r now \<Longrightarrow> now \<le> now' \<Longrightarrow> ra_sorted r now'"
  by (force simp: ra_sorted_def)

lemma opened_sorted:
  assumes "ra_books r" and "ra_sorted r now" and "map_of (raInFlight r) key = None" and "pStarted p = now'" "now \<le> now'"
  shows "ra_sorted (opened r key p) now'"
proof -
  have k: "key \<notin> set (raOrder r)" using assms(1,3) by (simp add: ra_books_def openKeys_iff)
  have start: "startOf (opened r key p) k = (if k = key then now' else startOf r k)" for k
    using assms(4) by (simp add: startOf_def inFlight_put)
  have "map (startOf (opened r key p)) (raOrder (opened r key p)) = map (startOf r) (raOrder r) @ [now']"
    using k by (auto simp: opened_def start [unfolded opened_def])
  then show ?thesis
    using assms(1,2,5) by (force simp: ra_sorted_def sorted_append openKeys_put start ra_books_def)
qed

lemma continued_sorted:
  assumes "ra_sorted r now" and "map_of (raInFlight r) key = Some p" and "pStarted p' = pStarted p"
  shows "ra_sorted (continued r key p') now"
proof -
  have "startOf (continued r key p') = startOf r"
    using assms(2,3) by (auto simp: startOf_def inFlight_put fun_eq_iff)
  moreover have "openKeys (continued r key p') = openKeys r"
    using assms(2) by (auto simp: openKeys_put openKeys_iff)
  ultimately show ?thesis using assms(1) by (simp add: ra_sorted_def) (simp add: continued_def)
qed

lemma accept_sorted:
  assumes inv: "ra_inv r0" and s: "ra_sorted r0 now" and "now \<le> now2"
  shows "ra_sorted (fst (accept r0 c f now1 now2)) now2"
proof -
  obtain r' bytes complete reason where a: "accept r0 c f now1 now2 = (r', bytes, complete, reason)"
    by (metis prod_cases4)
  define r where "r = fst (expire now1 r0)"
  define key where "key = (c, fRequestId f)"
  have b: "ra_books r" and srt: "ra_sorted r now" "ra_sorted r now2"
    using expire_keeps(1) [OF inv] expire_sorted [OF inv s] sorted_later [OF _ assms(3)]
    by (simp_all add: r_def ra_inv_def)
  have "ra_sorted r' now2"
    using a r_def key_def
  proof (cases rule: accept_cases)
    case refused
    with b srt show ?thesis by (simp add: sorted_drop)
  next
    case (open_new p)
    have "ra_sorted (opened r key p) now2" "ra_books (opened r key p)"
      using open_new(1,8) b srt assms(3) by (simp_all add: opened_sorted opened_books)
    with open_new(9) show ?thesis by (auto simp: sorted_drop split: if_splits)
  next
    case (continue_old p p')
    have "ra_sorted (continued r key p') now2" "ra_books (continued r key p')"
      using continue_old(1,7) b srt by (simp_all add: continued_sorted continued_books)
    with continue_old(8) show ?thesis by (auto simp: sorted_drop split: if_splits)
  qed
  with a show ?thesis by simp
qed

lemma raRun_sorted:
  assumes "ra_inv r" and "ra_sorted r t" and "sorted (t # allTimes es)" and "\<forall>x \<in> set (allTimes es). x \<le> now" and "t \<le> now"
  shows "ra_sorted (raRun es r) now"
  using assms
proof (induction es arbitrary: r t)
  case Nil
  then show ?case by (simp add: sorted_later)
next
  case (Cons e es)
  have inv: "ra_inv (raStep e r)" using Cons.prems(1) by (simp add: raStep_keeps)
  show ?case
  proof (cases e)
    case (Arrive c f now1 now2)
    then have "ra_sorted (raStep e r) now2"
      using accept_sorted [OF Cons.prems(1,2), of now2] Cons.prems(3) by (simp add: allTimes_def)
    then show ?thesis
      using Cons.IH [OF inv, of now2] Cons.prems(3,4) Arrive by (simp add: allTimes_def)
  next
    case (Tick t')
    then have "ra_sorted (raStep e r) t"
      using Cons.prems(1,2) by (simp add: sweepReassembly_def expire_sorted)
    then show ?thesis
      using Cons.IH [OF inv, of t] Cons.prems(3-5) Tick by (simp add: allTimes_def)
  qed
qed

section \<open>Fragments between other arrivals\<close>

lemma step_other:
  assumes inv: "ra_inv r" and p: "map_of (raInFlight r) key = Some p" and n: "\<not> eventFor key e"
    and t: "\<forall>t \<in> set (eventTimes e). raIdle r = 0 \<or> t - raIdle r \<le> pStarted p"
  shows "map_of (raInFlight (raStep e r)) key = Some p"
proof (cases e)
  case (Arrive c f now1 now2)
  obtain r' bytes complete reason where a: "accept r c f now1 now2 = (r', bytes, complete, reason)"
    by (metis prod_cases4)
  have x: "map_of (raInFlight (fst (expire now1 r))) key = Some p"
    using expire_keeps(4) [OF inv p, of now1] t Arrive by auto
  have k: "(c, fRequestId f) \<noteq> key" using n Arrive by auto
  have "map_of (raInFlight r') key = Some p"
    using a refl refl
  proof (cases rule: accept_cases)
    case refused
    with x k show ?thesis by (simp add: drop_key_inFlight)
  next
    case (open_new q)
    with x k show ?thesis by (auto simp: drop_key_inFlight inFlight_put split: if_splits)
  next
    case (continue_old q q')
    with x k show ?thesis by (auto simp: drop_key_inFlight inFlight_put split: if_splits)
  qed
  with a Arrive show ?thesis by simp
next
  case (Tick now)
  then show ?thesis using expire_keeps(4) [OF inv p, of now] t by (simp add: sweepReassembly_def)
qed

lemma run_other:
  assumes "ra_inv r" and "map_of (raInFlight r) key = Some p"
    and "\<forall>e \<in> set gap. \<not> eventFor key e \<and> (\<forall>t \<in> set (eventTimes e). raIdle r = 0 \<or> t - raIdle r \<le> pStarted p)"
  shows "map_of (raInFlight (raRun gap r)) key = Some p"
  using assms
proof (induction gap arbitrary: r)
  case (Cons e gap)
  have "map_of (raInFlight (raStep e r)) key = Some p" using Cons.prems by (intro step_other) simp_all
  moreover have "ra_inv (raStep e r)" "raIdle (raStep e r) = raIdle r"
    using raStep_keeps [OF Cons.prems(1), of e] by (simp_all add: same_config_def)
  ultimately show ?case using Cons.prems(3) by (simp, intro Cons.IH) auto
qed simp

lemma accept_next:
  assumes inv: "ra_inv r" and p: "map_of (raInFlight r) (c, fRequestId f) = Some p"
    and t: "raIdle r = 0 \<or> t1 - raIdle r \<le> pStarted p"
    and f: "fIndex f = pNext p" "fCount f = pCount p"
      "int (length (pBytes p)) + int (length (fPart f)) \<le> raMaxRequestBytes r"
    and "accept r c f t1 t2 = (r', answer)"
  shows "pNext p + 1 < pCount p \<Longrightarrow> answer = ([], False, REASON_OK) \<and>
      map_of (raInFlight r') (c, fRequestId f) = Some (p\<lparr>pBytes := pBytes p @ fPart f, pNext := pNext p + 1\<rparr>)"
    and "\<not> pNext p + 1 < pCount p \<Longrightarrow> answer = (pBytes p @ fPart f, True, REASON_OK) \<and>
      (c, fRequestId f) \<notin> openKeys r'"
proof -
  let ?r = "fst (expire t1 r)"
  have x: "map_of (raInFlight ?r) (c, fRequestId f) = Some p" using expire_keeps(4) [OF inv p t] .
  have "pNext p < pCount p"
    using expire_keeps(1) [OF inv, of t1] x by (cases "(c, fRequestId f)") (auto simp: ra_inv_def ra_buffers_def)
  then have ok: "firstRefusal reassemblyAborts (stateFor ?r c f) = REASON_OK"
    using x f expire_keeps(2) [OF inv, of t1] by (simp add: admitted_iff same_config_def)
  obtain bytes complete reason where answer: "answer = (bytes, complete, reason)" by (metis prod_cases3)
  with assms(7) have a: "accept r c f t1 t2 = (r', bytes, complete, reason)" by simp
  from a refl refl have "(pNext p + 1 < pCount p \<longrightarrow> answer = ([], False, REASON_OK) \<and>
        map_of (raInFlight r') (c, fRequestId f) = Some (p\<lparr>pBytes := pBytes p @ fPart f, pNext := pNext p + 1\<rparr>)) \<and>
      (\<not> pNext p + 1 < pCount p \<longrightarrow> answer = (pBytes p @ fPart f, True, REASON_OK) \<and> (c, fRequestId f) \<notin> openKeys r')"
  proof (cases rule: accept_cases)
    case refused
    with ok show ?thesis by simp
  next
    case (open_new q)
    with x show ?thesis by simp
  next
    case (continue_old q q')
    with x have "q = p" by simp
    with continue_old answer show ?thesis by (auto simp: inFlight_put drop_key_keys split: if_splits)
  qed
  then show "pNext p + 1 < pCount p \<Longrightarrow> answer = ([], False, REASON_OK) \<and>
      map_of (raInFlight r') (c, fRequestId f) = Some (p\<lparr>pBytes := pBytes p @ fPart f, pNext := pNext p + 1\<rparr>)"
    "\<not> pNext p + 1 < pCount p \<Longrightarrow> answer = (pBytes p @ fPart f, True, REASON_OK) \<and>
      (c, fRequestId f) \<notin> openKeys r'" by blast+
qed

lemma feed_rest:
  assumes "ra_inv r" and "map_of (raInFlight r) (c, rid) = Some p" and "steps \<noteq> []"
    and "map fIndex (fragmentsOf steps) = map of_nat [unat (pNext p) ..< unat (pCount p)]"
    and "\<forall>f \<in> set (fragmentsOf steps). fRequestId f = rid \<and> fCount f = pCount p"
    and "\<forall>x \<in> set steps. undisturbed (c, rid) (raIdle r) (pStarted p) x"
    and "int (length (pBytes p)) + int (length (concat (map fPart (fragmentsOf steps)))) \<le> raMaxRequestBytes r"
  shows "snd (feed c r steps) = replicate (length steps - 1) ([], False, REASON_OK) @
      [(pBytes p @ concat (map fPart (fragmentsOf steps)), True, REASON_OK)] \<and>
    (c, rid) \<notin> openKeys (fst (feed c r steps))"
  using assms
proof (induction steps arbitrary: r p)
  case (Cons x steps)
  obtain gap f t1 t2 where x: "x = (gap, f, t1, t2)" by (metis prod_cases4)
  let ?r = "raRun gap r"
  have cfg: "ra_inv ?r" "raIdle ?r = raIdle r" "raMaxRequestBytes ?r = raMaxRequestBytes r"
    using raRun_config [OF Cons.prems(1), of gap] by (simp_all add: same_config_def)
  have p: "map_of (raInFlight ?r) (c, fRequestId f) = Some p"
    using run_other [OF Cons.prems(1,2)] Cons.prems(5,6) by (simp add: x undisturbed_def fragmentsOf_def)
  obtain r1 answer where a: "accept ?r c f t1 t2 = (r1, answer)" by (cases "accept ?r c f t1 t2")
  have lt: "unat (pNext p) < unat (pCount p)" using Cons.prems(4)
    by (cases "unat (pNext p) < unat (pCount p)") (simp_all add: fragmentsOf_def)
  then have idx: "fIndex f = pNext p" and rest: "map fIndex (fragmentsOf steps) = map of_nat [Suc (unat (pNext p)) ..< unat (pCount p)]"
    using Cons.prems(4) by (simp_all add: x fragmentsOf_def upt_conv_Cons)
  have suc: "unat (pNext p + 1) = Suc (unat (pNext p))"
    using lt unsigned_less [where ?'a = nat and w = "pCount p"]
    by (simp add: unat_word_ariths)
  have nx: "pNext p + 1 < pCount p \<longleftrightarrow> steps \<noteq> []"
    using rest suc
    by (cases "Suc (unat (pNext p)) < unat (pCount p)") (auto simp: word_less_nat_alt fragmentsOf_def)
  note nxt = accept_next [OF cfg(1) p _ idx _ _ a]
  have pre: "raIdle ?r = 0 \<or> t1 - raIdle ?r \<le> pStarted p" "fCount f = pCount p" "fRequestId f = rid"
    "int (length (pBytes p)) + int (length (fPart f)) \<le> raMaxRequestBytes ?r"
    using Cons.prems(5-7) cfg by (simp_all add: x undisturbed_def fragmentsOf_def)
  show ?case
  proof (cases "steps = []")
    case True
    with nxt(2) [OF pre(1,2,4)] nx pre(3) a show ?thesis by (simp add: x fragmentsOf_def)
  next
    case False
    let ?p = "p\<lparr>pBytes := pBytes p @ fPart f, pNext := pNext p + 1\<rparr>"
    have one: "answer = ([], False, REASON_OK)" "map_of (raInFlight r1) (c, rid) = Some ?p"
      using nxt(1) [OF pre(1,2,4)] nx False pre(3) by simp_all
    have cfg1: "ra_inv r1" "raIdle r1 = raIdle r" "raMaxRequestBytes r1 = raMaxRequestBytes r"
      using accept_keeps [OF cfg(1), of c f t1 t2] a cfg by (simp_all add: same_config_def)
    have "snd (feed c r1 steps) = replicate (length steps - 1) ([], False, REASON_OK) @
        [(pBytes ?p @ concat (map fPart (fragmentsOf steps)), True, REASON_OK)] \<and>
      (c, rid) \<notin> openKeys (fst (feed c r1 steps))"
      using Cons.prems(5-7) rest suc cfg1 one(2) False
      by (intro Cons.IH) (simp_all add: fragmentsOf_def x)
    with one(1) a False show ?thesis
      by (cases steps) (auto simp: x fragmentsOf_def case_prod_beta Let_def)
  qed
qed simp

section \<open>Properties\<close>

lemma sum_list_le: "(\<And>x. x \<in> set xs \<Longrightarrow> f x \<le> b) \<Longrightarrow> sum_list (map f xs) \<le> int (length xs) * b"
  by (induction xs) (auto simp: algebra_simps add_mono)

text \<open>
  C38: what a reassembler holds is bounded. After any sequence of fragments and sweeps, whatever
  the clock does, the open reassemblies are within the global cap, those of every client within the
  client's, the clients counted are those that have one open, the expiry order lists exactly the
  open ones, and the bytes buffered are at most \<open>max_request_bytes\<close> for each.
\<close>

theorem reassembly_bounded:
  fixes maxBytes perClient maxOpen :: int
  assumes "r = raRun es (newReassembly maxBytes perClient maxOpen idle)"
  shows "(0 < maxOpen \<longrightarrow> hReassemblies (holding r) \<le> maxOpen) \<and>
    (\<forall>c. countOf r c = int (card {k \<in> openKeys r. fst k = c}) \<and> countOf r c \<le> max 0 perClient) \<and>
    hClients (holding r) = int (card (fst ` openKeys r)) \<and>
    distinct (raOrder r) \<and> set (raOrder r) = openKeys r \<and>
    hBytes (holding r) \<le> hReassemblies (holding r) * maxBytes"
proof -
  have inv: "ra_inv r" unfolding assms by (rule raRun_inv)
  then have b: "ra_books r" and bufs: "ra_buffers r" and caps: "ra_caps r" by (simp_all add: ra_inv_def)
  have "ra_inv (newReassembly maxBytes perClient maxOpen idle)" using raRun_inv [of "[]"] by simp
  from raRun_config [OF this, of es] have cfg: "raMaxRequestBytes r = maxBytes" "raPerClient r = perClient"
    "raMaxReassemblies r = maxOpen"
    by (simp_all add: assms same_config_def newReassembly_def)
  have "int (length (pBytes (snd x))) \<le> maxBytes" if "x \<in> set (raInFlight r)" for x
  proof -
    obtain k p where x: "x = (k, p)" by fastforce
    with that b have "map_of (raInFlight r) k = Some p" by (simp add: ra_books_def)
    with bufs cfg(1) x show ?thesis unfolding ra_buffers_def by (metis snd_conv)
  qed
  then have "hBytes (holding r) \<le> hReassemblies (holding r) * maxBytes"
    using sum_list_le [of "raInFlight r" "\<lambda>(_, p). int (length (pBytes p))" maxBytes]
    by (auto simp: holding_def)
  moreover have "fst ` openKeys r = fst ` set (raCounts r)"
  proof -
    have "c \<in> fst ` openKeys r \<longleftrightarrow> openFor r c \<noteq> 0" for c by (force simp: openFor_def)
    also have "openFor r c \<noteq> 0 \<longleftrightarrow> c \<in> dom (map_of (raCounts r))" for c
      using b unfolding ra_books_def by (metis domIff option.distinct(1))
    finally show ?thesis by (auto simp: dom_map_of_conv_image_fst)
  qed
  then have "hClients (holding r) = int (card (fst ` openKeys r))"
    using b distinct_card [of "map fst (raCounts r)"] by (simp add: holding_def ra_books_def)
  ultimately show ?thesis
    using b caps books_length [OF b] books_countOf [OF b] cfg(2,3)
    by (simp add: ra_caps_def openFor_def ra_books_def) (simp add: holding_def)
qed

theorem reassembly_bounded_witness:
  "hReassemblies (holding (raRun [Arrive [1] (demoFragment 0 3 5) 0 0] (newReassembly 10 4 2 100))) = 1 \<and>
   hReassemblies (holding (raRun [Arrive [1] (demoFragment 0 3 5) 0 0] (newReassembly 10 4 2 100))) \<le> 2"
proof -
  have "hReassemblies (holding (raRun [Arrive [1] (demoFragment 0 3 5) 0 0] (newReassembly 10 4 2 100))) = 1"
    by code_simp
  then show ?thesis
    using reassembly_bounded [of _ "[Arrive [1] (demoFragment 0 3 5) 0 0]" 10 4 2 100, OF refl] by simp
qed

lemma firstRefusal_snoc:
  "firstRefusal (rules @ [rule]) st =
     (if firstRefusal rules st = REASON_OK then rule st else firstRefusal rules st)"
  by (induction rules) auto

lemma firstRefusal_range:
  "(\<And>rule. rule \<in> set rules \<Longrightarrow> rule st \<in> A) \<Longrightarrow> REASON_OK \<in> A \<Longrightarrow> firstRefusal rules st \<in> A"
  by (induction rules) auto

text \<open>
  Every abort frees its buffer. A fragment that is refused leaves nothing open under its key,
  hands over no bytes, touches no buffer of another key that its expiry left, and is answered
  \<open>REASON_OVERSIZE\<close> exactly when the request would be too long and no other rule refuses it,
  \<open>REASON_REJECTED\<close> otherwise.
\<close>

theorem abort_frees:
  assumes "r0 = raRun es (newReassembly maxBytes perClient maxOpen idle)"
    and "accept r0 c f now1 now2 = (r', bytes, complete, reason)" and "reason \<noteq> REASON_OK"
  shows "(c, fRequestId f) \<notin> openKeys r' \<and> bytes = [] \<and> \<not> complete \<and>
    (\<forall>k. k \<noteq> (c, fRequestId f) \<longrightarrow> map_of (raInFlight r') k = map_of (raInFlight (fst (expire now1 r0))) k) \<and>
    reason \<in> {REASON_REJECTED, REASON_OVERSIZE} \<and>
    (reason = REASON_OVERSIZE \<longleftrightarrow>
       firstRefusal (butlast reassemblyAborts) (stateFor (fst (expire now1 r0)) c f) = REASON_OK)"
  using assms(2) refl refl
proof (cases rule: accept_cases)
  case refused
  let ?st = "stateFor (fst (expire now1 r0)) c f"
  let ?others = "firstRefusal (butlast reassemblyAborts) ?st"
  have split: "reassemblyAborts = butlast reassemblyAborts @ [last reassemblyAborts]"
    by (simp add: reassemblyAborts_def)
  have "last reassemblyAborts ?st \<in> {REASON_OK, REASON_OVERSIZE}"
    by (simp add: reassemblyAborts_def withinLimits_def)
  moreover have "?others \<in> {REASON_OK, REASON_REJECTED}"
    by (rule firstRefusal_range) (auto simp: reassemblyAborts_def split: if_splits)
  moreover have "reason = (if ?others = REASON_OK then last reassemblyAborts ?st else ?others)"
    unfolding refused(1) by (subst split) (rule firstRefusal_snoc)
  ultimately have "reason \<in> {REASON_REJECTED, REASON_OVERSIZE}" "reason = REASON_OVERSIZE \<longleftrightarrow> ?others = REASON_OK"
    using refused(2) by (auto split: if_splits)
  with refused show ?thesis by (auto simp: drop_key_keys drop_key_inFlight)
qed (use assms(3) in simp_all)

theorem abort_frees_witness:
  "\<exists>r' bytes complete. accept (raRun [Arrive [1] (demoFragment 0 3 5) 0 0] (newReassembly 3 4 2 100))
       [1] (demoFragment 1 3 6) 0 0 = (r', bytes, complete, REASON_OVERSIZE) \<and>
     ([1], 7) \<notin> openKeys r' \<and> bytes = []"
proof -
  let ?r = "raRun [Arrive [1] (demoFragment 0 3 5) 0 0] (newReassembly 3 4 2 100)"
  obtain r' bytes complete reason where a: "accept ?r [1] (demoFragment 1 3 6) 0 0 = (r', bytes, complete, reason)"
    by (metis prod_cases4)
  have "snd (snd (snd (accept ?r [1] (demoFragment 1 3 6) 0 0))) = REASON_OVERSIZE" by code_simp
  with a have r: "reason = REASON_OVERSIZE" by simp
  with abort_frees [OF refl a] a show ?thesis by (simp add: demoFragment_def) blast
qed

text \<open>
  C33: the expiry that stops at the first buffer inside its bound drops exactly what a scan of
  every buffer would, as long as the clock has not gone back: what is left is what is not stale,
  the count it answers is the number of stale buffers, and it has looked at one more at most.
\<close>

theorem expire_equals_scan:
  assumes "r = raRun es (newReassembly maxBytes perClient maxOpen idle)"
    and "sorted (allTimes es)" and "\<forall>t \<in> set (allTimes es). t \<le> now"
    and "sweepReassembly now r = (r', dropped)"
  shows "raInFlight r' = filter (\<lambda>x. \<not> stale now r (snd x)) (raInFlight r) \<and>
    dropped = length (filter (\<lambda>x. stale now r (snd x)) (raInFlight r)) \<and>
    (\<exists>e. raExamined r' = raExamined r + of_nat e \<and> e \<le> dropped + 1)"
proof (cases "raIdle r = 0")
  case True
  with assms(4) show ?thesis by (auto simp: sweepReassembly_def expire_def stale_def intro!: exI [of _ 0])
next
  case False
  let ?new = "newReassembly maxBytes perClient maxOpen idle"
  have inv: "ra_inv ?new" using raRun_inv [of "[]"] by simp
  define t where "t = Min (insert now (set (allTimes es)))"
  have "\<forall>x \<in> set (allTimes es). t \<le> x" "t \<le> now" by (simp_all add: t_def)
  moreover have "ra_sorted ?new t" by (simp add: ra_sorted_def newReassembly_def openKeys_def)
  ultimately have "ra_sorted r now"
    unfolding assms(1) using inv assms(2,3) by (intro raRun_sorted [of ?new t es now]) simp_all
  moreover have "ra_books r" using raRun_inv [of es] assms(1) by (simp add: ra_inv_def)
  moreover have "expireLoop (now - raIdle r) r 0 = (r', dropped)"
    using assms(4) False by (simp add: sweepReassembly_def expire_def)
  ultimately show ?thesis
    using expireLoop_scan [of r "now - raIdle r" 0 r' dropped] False
    unfolding ra_sorted_def stale_def by simp blast
qed

theorem expire_equals_scan_witness:
  "\<exists>r'. sweepReassembly 120 (raRun [Arrive [1] (demoFragment 0 3 5) 0 0, Arrive [2] (demoFragment 0 3 6) 50 50]
        (newReassembly 10 4 2 100)) = (r', 1) \<and> length (raInFlight r') = 1"
proof -
  let ?es = "[Arrive [1] (demoFragment 0 3 5) 0 0, Arrive [2] (demoFragment 0 3 6) 50 50]"
  let ?r = "raRun ?es (newReassembly 10 4 2 100)"
  obtain r' n where s: "sweepReassembly 120 ?r = (r', n)" by fastforce
  have "length (filter (\<lambda>x. stale 120 ?r (snd x)) (raInFlight ?r)) = 1"
    "length (filter (\<lambda>x. \<not> stale 120 ?r (snd x)) (raInFlight ?r)) = 1"
    by code_simp+
  with expire_equals_scan [OF refl _ _ s] show ?thesis using s by (auto simp: allTimes_def)
qed

subsection \<open>The cut\<close>

lemma concat_parts: "concat (map (\<lambda>i. take n (drop (i * n) xs)) [0 ..< k]) = take (k * n) xs"
proof (induction k)
  case (Suc k)
  have "take (Suc k * n) xs = take (k * n + n) xs" by (simp add: add.commute)
  with Suc show ?case by (simp add: take_add)
qed simp

lemma nat_min_diff: "nat (min (int (a + p)) (int n) - int a) = min p (n - a)"
  by (auto simp: min_def)

lemma responseFragments_facts:
  assumes "0 < pb" and "frags = responseFragments rid body pb" and "length body < 2 ^ 32"
  shows "map fIndex frags = map of_nat [0 ..< length frags]"
    and "\<forall>f \<in> set frags. fRequestId f = rid \<and> unat (fCount f) = length frags"
    and "concat (map fPart frags) = body" and "body \<noteq> [] \<Longrightarrow> frags \<noteq> []" and "length frags < 2 ^ 32"
proof -
  define k where "k = nat (fragmentCount pb (length body))"
  define P where "P = nat pb"
  have P: "pb = int P" "0 < P" using assms(1) by (simp_all add: P_def)
  have k: "k = (length body + P - 1) div P"
  proof -
    have "int (length body) + int P - 1 = int (length body + P - 1)" using P(2) by simp
    then show ?thesis by (simp only: k_def fragmentCount_def P(1) zdiv_int [symmetric] nat_int)
  qed
  have up: "length body \<le> k * P"
    using P(2) div_mult_mod_eq [of "length body + P - 1" P] mod_less_divisor [OF P(2), of "length body + P - 1"]
    unfolding k by linarith
  have below: "i * P < length body" if "i < k" for i
  proof -
    have "Suc i * P \<le> k * P" using that by (intro mult_right_mono) simp_all
    moreover have "k * P \<le> length body + P - 1" unfolding k by (rule div_times_less_eq_dividend)
    ultimately show ?thesis using P(2) by simp
  qed
  have len: "length frags = k" by (simp add: assms(2) responseFragments_def Let_def k_def)
  show small: "length frags < 2 ^ 32"
  proof (cases k)
    case (Suc i)
    then have "i * 1 \<le> i * P" "i * P < length body" using P(2) below [of i] by simp_all
    with Suc assms(3) show ?thesis unfolding len by linarith
  qed (simp add: len)
  show "map fIndex frags = map of_nat [0 ..< length frags]"
    by (simp add: len) (simp add: assms(2) responseFragments_def Let_def k_def)
  have "fragmentCount pb (length body) = int k"
    using P by (simp add: k_def fragmentCount_def pos_imp_zdiv_nonneg_iff)
  then have "unat (of_int (fragmentCount pb (length body)) :: u32) = k"
    using small len by (simp add: unat_of_nat)
  then show "\<forall>f \<in> set frags. fRequestId f = rid \<and> unat (fCount f) = length frags"
    unfolding len by (auto simp: assms(2) responseFragments_def Let_def)
  have part: "take (nat (min ((int i + 1) * pb) (int (length body)) - int i * pb)) (drop (nat (int i * pb)) body) =
      take P (drop (i * P) body)" if "i < k" for i
  proof -
    have e: "(int i + 1) * pb = int (i * P + P)" "int i * pb = int (i * P)"
      using P(1) by (simp_all add: algebra_simps)
    have "take (min P (length ys)) ys = take P ys" for ys :: bytes by (simp add: min_def)
    from this [of "drop (i * P) body"] show ?thesis unfolding e nat_min_diff length_drop nat_int .
  qed
  have "map fPart frags = map (\<lambda>i. take P (drop (i * P) body)) [0 ..< k]"
    unfolding assms(2) responseFragments_def Let_def map_map k_def [symmetric]
    by (intro map_cong refl) (simp add: part)
  then show "concat (map fPart frags) = body" using up by (simp add: concat_parts)
  then show "frags \<noteq> []" if "body \<noteq> []" using that by auto
qed

lemma partSize_range: "0 < partSize b" "partSize b \<le> MaxFragmentPartBytes"
  by (auto simp: partSize_def MaxFragmentPartBytes_def)

lemma accept_first:
  assumes inv: "ra_inv r" and new: "(c, fRequestId f) \<notin> openKeys r"
    and room: "countOf r c < raPerClient r"
      "0 < raMaxReassemblies r \<longrightarrow> int (length (raInFlight r)) < raMaxReassemblies r"
    and f: "fIndex f = 0" "0 < fCount f" "int (length (fPart f)) \<le> raMaxRequestBytes r"
    and a: "accept r c f t1 t2 = (r', answer)"
  shows "(1 < fCount f \<longrightarrow> answer = ([], False, REASON_OK) \<and> map_of (raInFlight r') (c, fRequestId f) =
        Some \<lparr> pCount = fCount f, pNext = 1, pBytes = fPart f, pStarted = t2 \<rparr>) \<and>
    (\<not> 1 < fCount f \<longrightarrow> answer = (fPart f, True, REASON_OK) \<and> (c, fRequestId f) \<notin> openKeys r')"
proof -
  let ?r = "fst (expire t1 r)"
  note cfg = expire_keeps(2) [OF inv, of t1, unfolded same_config_def]
  have x: "map_of (raInFlight ?r) (c, fRequestId f) = None"
    using new expire_keeps(3) [OF inv, of t1] by (metis domIff openKeys_def subsetD)
  have ok: "firstRefusal reassemblyAborts (stateFor ?r c f) = REASON_OK"
    using x f room cfg expire_room(1) [OF inv, of t1 c] expire_room(2) [OF inv, of t1]
    by (auto simp: admitted_iff)
  obtain bytes complete reason where answer: "answer = (bytes, complete, reason)" by (metis prod_cases3)
  with a have "accept r c f t1 t2 = (r', bytes, complete, reason)" by simp
  from this refl refl show ?thesis
  proof (cases rule: accept_cases)
    case refused
    with ok show ?thesis by simp
  next
    case (open_new p)
    with answer show ?thesis by (auto simp: inFlight_put drop_key_keys split: if_splits)
  next
    case (continue_old p p')
    with x show ?thesis by simp
  qed
qed

text \<open>
  C31: fragments reassemble. The fragments a body is cut into under any part size, sent by one
  client in order with anything else arriving and any sweeps running between them, are answered
  with nothing until the last, which answers exactly the body, and leave nothing open; provided
  there is room for the reassembly when the first arrives, the body is within
  \<open>max_request_bytes\<close>, and it is done before the first fragment's idle time has passed.
\<close>

theorem fragments_reassemble:
  assumes "r = raRun es (newReassembly maxBytes perClient maxOpen idle)"
    and "body \<noteq> []" and "int (length body) \<le> maxBytes" and "length body < 2 ^ 32"
    and "fragmentsOf (([], f, t1, start) # rest) = responseFragments rid body (partSize budget)"
    and "(c, rid) \<notin> openKeys r" and "countOf r c < perClient"
    and "0 < maxOpen \<longrightarrow> int (length (raInFlight r)) < maxOpen"
    and "\<forall>x \<in> set rest. undisturbed (c, rid) idle start x"
  shows "snd (feed c r (([], f, t1, start) # rest)) =
      replicate (length rest) ([], False, REASON_OK) @ [(body, True, REASON_OK)] \<and>
    (c, rid) \<notin> openKeys (fst (feed c r (([], f, t1, start) # rest)))"
proof -
  have inv: "ra_inv r" unfolding assms(1) by (rule raRun_inv)
  have "ra_inv (newReassembly maxBytes perClient maxOpen idle)" using raRun_inv [of "[]"] by simp
  from raRun_config [OF this, of es] have cfg: "raMaxRequestBytes r = maxBytes" "raPerClient r = perClient"
    "raMaxReassemblies r = maxOpen" "raIdle r = idle"
    by (simp_all add: assms(1) same_config_def newReassembly_def)
  note facts = responseFragments_facts [OF partSize_range(1) assms(5) assms(4)]
  have frags: "fragmentsOf (([], f, t1, start) # rest) = f # fragmentsOf rest" by (simp add: fragmentsOf_def)
  have len: "length (fragmentsOf rest) = length rest" by (simp add: fragmentsOf_def)
  have f: "fRequestId f = rid" "unat (fCount f) = Suc (length rest)" "fIndex f = 0"
    using facts(1,2) by (simp_all add: frags len upt_conv_Cons del: upt_Suc)
  have body: "fPart f @ concat (map fPart (fragmentsOf rest)) = body" using facts(3) by (simp add: frags)
  obtain r1 answer where a: "accept r c f t1 start = (r1, answer)" by (cases "accept r c f t1 start")
  have one: "1 < fCount f \<longleftrightarrow> rest \<noteq> []" using f(2) by (auto simp: word_less_nat_alt)
  have pos: "0 < fCount f" using f(2) by (simp add: word_less_nat_alt)
  have fits: "int (length (fPart f)) \<le> maxBytes" using assms(3) body by (metis length_append of_nat_add of_nat_0_le_iff add_increasing2 le_add1 order_trans of_nat_mono)
  note first = accept_first [OF inv _ _ _ f(3) pos _ a, unfolded f(1) cfg, OF assms(6-8) fits]
  show ?thesis
  proof (cases "rest = []")
    case True
    with first one a body show ?thesis by (simp add: fragmentsOf_def)
  next
    case False
    let ?p = "\<lparr> pCount = fCount f, pNext = 1, pBytes = fPart f, pStarted = start \<rparr>"
    have r1: "answer = ([], False, REASON_OK)" "map_of (raInFlight r1) (c, rid) = Some ?p"
      using first one False by simp_all
    have cfg1: "ra_inv r1" "raIdle r1 = idle" "raMaxRequestBytes r1 = maxBytes"
      using accept_keeps [OF inv, of c f t1 start] a cfg by (simp_all add: same_config_def)
    have idx: "map fIndex (fragmentsOf rest) = map of_nat [1 ..< Suc (length rest)]"
      using facts(1) by (simp add: frags len upt_conv_Cons del: upt_Suc)
    have cnt: "fRequestId g = rid \<and> fCount g = fCount f" if "g \<in> set (fragmentsOf rest)" for g
      using facts(2) f(2) that by (simp add: frags len word_unat_eq_iff)
    have "snd (feed c r1 rest) = replicate (length rest - 1) ([], False, REASON_OK) @
        [(pBytes ?p @ concat (map fPart (fragmentsOf rest)), True, REASON_OK)] \<and>
      (c, rid) \<notin> openKeys (fst (feed c r1 rest))"
      using cfg1 r1(2) False idx f(2) cnt assms(3,9) body
      by (intro feed_rest) (simp_all del: upt_Suc flip: of_nat_add length_append)
    with r1(1) a False body show ?thesis
      by (cases rest) (auto simp: case_prod_beta Let_def)
  qed
qed

theorem fragments_reassemble_witness:
  "\<exists>f0 f1. responseFragments 7 (replicate 3000 1) (partSize 0) = [f0, f1] \<and>
     snd (feed [1] (raRun [] (newReassembly 4000 1 1 100))
       [([], f0, 0, 0), ([Arrive [2] (demoFragment 0 3 5) 40 40, Tick 60], f1, 90, 90)]) =
     [([], False, REASON_OK), (replicate 3000 1, True, REASON_OK)]"
proof -
  let ?frags = "responseFragments 7 (replicate 3000 1) (partSize 0)"
  have "length ?frags = 2"
    by (simp add: responseFragments_def Let_def fragmentCount_def partSize_def MaxFragmentPartBytes_def)
  then obtain f0 f1 where f: "?frags = [f0, f1]" by (auto simp: length_Suc_conv numeral_2_eq_2)
  let ?rest = "[([Arrive [2] (demoFragment 0 3 5) 40 40, Tick 60], f1, 90, 90)] :: (raEvent list \<times> Fragment \<times> time \<times> time) list"
  have "openKeys (newReassembly 4000 1 1 100) = {}" "countOf (newReassembly 4000 1 1 100) [1] = 0"
    "raInFlight (newReassembly 4000 1 1 100) = []"
    by (simp_all add: newReassembly_def openKeys_def countOf_def)
  then show ?thesis
    using fragments_reassemble [of "raRun [] (newReassembly 4000 1 1 100)" "[]" 4000 1 1 100
        "replicate 3000 1" f0 0 0 ?rest 7 0 "[1]"] f
    by (simp add: fragmentsOf_def undisturbed_def demoFragment_def)
qed

end
