(* ===== verification/Connections.thy ===== *)
theory Connections
  imports Reassembly
begin

text \<open>
  Connections (\<open>src/peer/connection.go\<close>), the two front checks the peer performs
  (\<open>src/peer/checks.go\<close>) and the Hello handler (\<open>src/peer/hello.go\<close>). A connection is one
  Hello epoch of a client: every Hello mints a nonce and replaces the connection before it.

  The code holds connections by pointer, compares pointers, and writes through one (\<open>touch\<close>), so
  the model has an explicit store: a pointer is a number, \<open>csHeap\<close> what it points at, and
  \<open>csNext\<close> the next number \<open>Open\<close> allocates. \<open>random\<close> is what the random source has to give;
  \<open>io.ReadFull\<close> fails when that is short. Each reading of the clock is an argument.
\<close>

section \<open>The registry\<close>

definition ServerNonceBytes :: nat where "ServerNonceBytes = 32"

record Connection =
  cnClientId :: clientId
  cnNonce :: bytes
  cnGeneration :: u64
  cnSeen :: time

record Connections =
  csIdle :: duration
  csHeap :: "nat \<Rightarrow> Connection option"
  csNext :: nat
  csLive :: "(clientId \<times> nat) list"

datatype connection_error = ErrShortNonce

definition NewConnections :: "duration \<Rightarrow> Connections" where
  "NewConnections idle = \<lparr> csIdle = idle, csHeap = Map.empty, csNext = 0, csLive = [] \<rparr>"

definition deref :: "Connections \<Rightarrow> nat \<Rightarrow> Connection" where
  "deref s c = the (csHeap s c)"

definition expired :: "Connections \<Rightarrow> nat \<Rightarrow> time \<Rightarrow> bool" where
  "expired s c now \<longleftrightarrow> csIdle s \<noteq> 0 \<and> cnSeen (deref s c) < now - csIdle s"

definition sweep_live :: "Connections \<Rightarrow> time \<Rightarrow> Connections \<times> nat" where
  "sweep_live s now =
     (if csIdle s = 0 then (s, 0)
      else (s\<lparr>csLive := filter (\<lambda>(_, c). \<not> expired s c now) (csLive s)\<rparr>,
            length (filter (\<lambda>(_, c). expired s c now) (csLive s))))"

definition Open :: "Connections \<Rightarrow> clientId \<Rightarrow> bytes \<Rightarrow> time \<Rightarrow> time \<Rightarrow> Connections \<times> (connection_error + nat)" where
  "Open s clientId random now1 now2 =
     (if length random < ServerNonceBytes then (s, Inl ErrShortNonce)
      else
        (let nonce = take ServerNonceBytes random;
             generation = (case map_of (csLive s) clientId of
                             None \<Rightarrow> 1 | Some c \<Rightarrow> cnGeneration (deref s c) + 1);
             s1 = fst (sweep_live s now1);
             c = csNext s1
         in (s1\<lparr>csHeap := (csHeap s1)(c \<mapsto> \<lparr> cnClientId = clientId, cnNonce = nonce,
                                            cnGeneration = generation, cnSeen = now2 \<rparr>),
                csNext := Suc c,
                csLive := AList.update clientId c (csLive s1)\<rparr>,
             Inr c)))"

definition touch :: "Connections \<Rightarrow> nat \<Rightarrow> time \<Rightarrow> Connections" where
  "touch s c now = s\<lparr>csHeap := (csHeap s)(c \<mapsto> (deref s c)\<lparr>cnSeen := now\<rparr>)\<rparr>"

definition Lookup :: "Connections \<Rightarrow> clientId \<Rightarrow> time \<Rightarrow> Connections \<times> nat option" where
  "Lookup s clientId now =
     (case map_of (csLive s) clientId of
        None \<Rightarrow> (s, None)
      | Some c \<Rightarrow>
          (if expired s c now then (s\<lparr>csLive := AList.delete clientId (csLive s)\<rparr>, None)
           else (touch s c now, Some c)))"

definition Peek :: "Connections \<Rightarrow> clientId \<Rightarrow> time \<Rightarrow> nat option" where
  "Peek s clientId now =
     (case map_of (csLive s) clientId of
        None \<Rightarrow> None
      | Some c \<Rightarrow> (if expired s c now then None else Some c))"

definition IsLive :: "Connections \<Rightarrow> nat option \<Rightarrow> time \<Rightarrow> bool" where
  "IsLive s current now =
     (case current of
        None \<Rightarrow> False
      | Some c \<Rightarrow> map_of (csLive s) (cnClientId (deref s c)) = Some c \<and> \<not> expired s c now)"

definition Sweep :: "Connections \<Rightarrow> time \<Rightarrow> Connections \<times> nat" where
  "Sweep s now = sweep_live s now"

definition Count :: "Connections \<Rightarrow> nat" where
  "Count s = length (csLive s)"

definition ServerNonce :: "Connections \<Rightarrow> nat \<Rightarrow> bytes" where
  "ServerNonce s c = cnNonce (deref s c)"

definition Holds :: "Connections \<Rightarrow> nat \<Rightarrow> bytes \<Rightarrow> bool" where
  "Holds s c nonce \<longleftrightarrow> cnNonce (deref s c) = nonce"

text \<open>What a handler is told about the connection (\<open>api.Connection\<close>).\<close>

record ApiConnection =
  acServerNonce :: bytes
  acClientId :: clientId

definition toApiConnection :: "Connections \<Rightarrow> nat \<Rightarrow> ApiConnection" where
  "toApiConnection s c = \<lparr> acServerNonce = ServerNonce s c, acClientId = cnClientId (deref s c) \<rparr>"

section \<open>The front checks\<close>

record inbound =
  ibClientId :: clientId
  ibConnection :: "nat option"
  ibBytes :: int

text \<open>The inbound is read from the context, \<open>None\<close> where the context carries none.\<close>

definition FrameWithinLimits :: "int \<Rightarrow> inbound option \<Rightarrow> reason" where
  "FrameWithinLimits maxRequestBytes arrived =
     (case arrived of
        None \<Rightarrow> REASON_INTERNAL
      | Some a \<Rightarrow> withinLimits (ibBytes a) maxRequestBytes)"

definition ConnectionAuthenticated ::
  "Connections \<Rightarrow> inbound option \<Rightarrow> ApiConnection option \<Rightarrow> time \<Rightarrow> reason" where
  "ConnectionAuthenticated s arrived conn now =
     (case arrived of
        None \<Rightarrow> REASON_REJECTED
      | Some a \<Rightarrow>
         (case (ibConnection a, conn) of
            (Some c, Some api) \<Rightarrow>
              (if \<not> IsLive s (Some c) now then REASON_REJECTED
               else if \<not> Holds s c (acServerNonce api) then REASON_REJECTED
               else REASON_OK)
          | _ \<Rightarrow> REASON_REJECTED))"

section \<open>Hello\<close>

record 'caps HelloConfig =
  hcProtocolVersion :: u32
  hcServerId :: bytes
  hcCapabilities :: 'caps

record 'caps HelloResponse =
  hrProtocolVersion :: u32
  hrServerId :: bytes
  hrServerTimeMs :: u64
  hrServerNonce :: bytes
  hrCapabilities :: 'caps

text \<open>The Unix epoch in nanoseconds since the zero time.\<close>

definition unixEpoch :: time where "unixEpoch = 62135596800 * 1000000000"

definition UnixMilli :: "time \<Rightarrow> int" where
  "UnixMilli t = (t - unixEpoch) div 1000000"

definition hello ::
  "'caps HelloConfig \<Rightarrow> Connections \<Rightarrow> inbound \<Rightarrow> u32 list \<Rightarrow> bytes \<Rightarrow> time \<Rightarrow> time \<Rightarrow> time \<Rightarrow>
   Connections \<times> inbound \<times> reason \<times> 'caps HelloResponse option" where
  "hello config s arrived supportedVersions random now1 now2 now3 =
     (if hcProtocolVersion config \<notin> set supportedVersions
      then (s, arrived, REASON_UNSUPPORTED_VERSION, None)
      else
        (case Open s (ibClientId arrived) random now1 now2 of
           (s1, Inl e) \<Rightarrow> (s1, arrived, REASON_INTERNAL, None)
         | (s1, Inr c) \<Rightarrow>
             (s1, arrived\<lparr>ibConnection := Some c\<rparr>, REASON_OK,
              Some \<lparr> hrProtocolVersion = hcProtocolVersion config, hrServerId = hcServerId config,
                     hrServerTimeMs = of_int (UnixMilli now3), hrServerNonce = ServerNonce s1 c,
                     hrCapabilities = hcCapabilities config \<rparr>)))"

section \<open>Runs\<close>

datatype connOp =
    DoOpen clientId bytes time time
  | DoLookup clientId time
  | DoSweep time

fun connStep :: "connOp \<Rightarrow> Connections \<Rightarrow> Connections" where
  "connStep (DoOpen client random now1 now2) s = fst (Open s client random now1 now2)"
| "connStep (DoLookup client now) s = fst (Lookup s client now)"
| "connStep (DoSweep now) s = fst (Sweep s now)"

definition connRun :: "connOp list \<Rightarrow> Connections \<Rightarrow> Connections" where
  "connRun = fold connStep"

lemma connRun_simps [simp]:
  "connRun [] s = s" "connRun (x # xs) s = connRun xs (connStep x s)"
  "connRun (xs @ ys) s = connRun ys (connRun xs s)"
  by (simp_all add: connRun_def)

definition demoRandom :: "byte \<Rightarrow> bytes" where "demoRandom b = replicate 32 b"

section \<open>The invariant\<close>

text \<open>
  Live pointers are allocated, and the client a pointer is filed under is its own. What \<open>s'\<close> keeps of
  \<open>s\<close>: every connection but for when it was seen, and no pointer of \<open>s\<close> becomes live that was not.
\<close>

definition conn_inv :: "Connections \<Rightarrow> bool" where
  "conn_inv s \<longleftrightarrow> distinct (map fst (csLive s)) \<and>
     (\<forall>k c. map_of (csLive s) k = Some c \<longrightarrow> c < csNext s \<and> cnClientId (deref s c) = k \<and>
        length (cnNonce (deref s c)) = ServerNonceBytes)"

definition conn_later :: "Connections \<Rightarrow> Connections \<Rightarrow> bool" where
  "conn_later s s' \<longleftrightarrow> csNext s \<le> csNext s' \<and> csIdle s' = csIdle s \<and>
     (\<forall>c < csNext s. cnClientId (deref s' c) = cnClientId (deref s c) \<and> cnNonce (deref s' c) = cnNonce (deref s c) \<and>
        (\<forall>k. map_of (csLive s') k = Some c \<longrightarrow> map_of (csLive s) k = Some c))"

lemma map_of_filter_live:
  "distinct (map fst xs) \<Longrightarrow> map_of (filter (\<lambda>(_, c). P c) xs) k =
     (case map_of xs k of None \<Rightarrow> None | Some c \<Rightarrow> if P c then Some c else None)"
  by (induction xs) (auto split: option.splits dest: map_of_SomeD intro: rev_image_eqI)

lemma sweep_live_facts:
  assumes "distinct (map fst (csLive s))"
  shows "map_of (csLive (fst (sweep_live s now))) k = Some c \<longleftrightarrow>
      map_of (csLive s) k = Some c \<and> \<not> expired s c now"
    and "csHeap (fst (sweep_live s now)) = csHeap s" and "csNext (fst (sweep_live s now)) = csNext s"
    and "csIdle (fst (sweep_live s now)) = csIdle s"
    and "distinct (map fst (csLive (fst (sweep_live s now))))"
  using assms by (auto simp: sweep_live_def expired_def map_of_filter_live distinct_map_filter split: option.splits if_splits)

lemma conn_step:
  assumes inv: "conn_inv s"
  shows "conn_inv (connStep x s)" and "conn_later s (connStep x s)"
proof -
  have d: "distinct (map fst (csLive s))" using inv by (simp add: conn_inv_def)
  note sw = sweep_live_facts [OF d]
  have "conn_inv (connStep x s) \<and> conn_later s (connStep x s)"
  proof (cases x)
    case (DoOpen client random now1 now2)
    show ?thesis
    proof (cases "length random < ServerNonceBytes")
      case True
      with DoOpen inv show ?thesis by (auto simp: Open_def conn_later_def)
    next
      case False
      with DoOpen inv sw show ?thesis
        by (auto simp: Open_def Let_def conn_inv_def conn_later_def deref_def update_conv' distinct_update
            split: if_splits) (metis less_irrefl, metis less_SucI)
    qed
  next
    case (DoLookup client now)
    with inv show ?thesis
      by (auto simp: Lookup_def touch_def conn_inv_def conn_later_def deref_def AList.delete_eq distinct_map_filter
          split: option.splits if_splits)
  next
    case (DoSweep now)
    with inv sw show ?thesis
      by (auto simp: Sweep_def conn_inv_def conn_later_def deref_def)
  qed
  then show "conn_inv (connStep x s)" "conn_later s (connStep x s)" by blast+
qed

lemma conn_later_trans: "conn_later s t \<Longrightarrow> conn_later t u \<Longrightarrow> conn_later s u"
  unfolding conn_later_def by (auto intro: order_trans)

interpretation conns: transition_system "\<lambda>s. \<exists>idle. s = NewConnections idle" "\<lambda>s t. \<exists>x. t = connStep x s" conn_inv
  by unfold_locales (auto simp: conn_step, simp add: conn_inv_def NewConnections_def)

lemma connRun_steps: "(\<lambda>s t. \<exists>x. t = connStep x s)\<^sup>*\<^sup>* s (connRun xs s)"
  by (induction xs arbitrary: s) (auto intro: converse_rtranclp_into_rtranclp)

lemma connRun_inv: "conn_inv (connRun xs (NewConnections idle))"
  using conns.inv_reachable [OF _ connRun_steps] by blast

lemma connRun_later:
  assumes "conn_inv s"
  shows "conn_inv (connRun xs s) \<and> conn_later s (connRun xs s)"
  using assms
proof (induction xs arbitrary: s)
  case (Cons x xs)
  note step = conn_step [OF Cons.prems, of x]
  from Cons.IH [OF step(1)] conn_later_trans [OF step(2)] show ?case by simp
qed (simp add: conn_later_def)

section \<open>Properties\<close>

lemma replaced_is_dead:
  assumes "conn_inv s" and "c < csNext s" and "map_of (csLive s) (cnClientId (deref s c)) \<noteq> Some c"
  shows "\<not> IsLive (connRun xs s) (Some c) t"
proof -
  have l: "conn_later s (connRun xs s)" using connRun_later [OF assms(1)] by blast
  then have "cnClientId (deref (connRun xs s) c) = cnClientId (deref s c)"
    using assms(2) by (simp add: conn_later_def)
  moreover have "map_of (csLive (connRun xs s)) (cnClientId (deref s c)) \<noteq> Some c"
    using l assms(2,3) unfolding conn_later_def by blast
  ultimately show ?thesis by (simp add: IsLive_def)
qed

text \<open>
  C36: a Hello ends the connection before it for good. Once a client has said Hello again, a
  request that arrived on any earlier connection of that client is refused by check 2 whatever
  nonce it shows and whatever happens afterwards, and the connection it got is live and holds the
  32 bytes it was handed.
\<close>

theorem hello_ends_previous:
  assumes "s = connRun xs (NewConnections idle)"
    and "Open s client random now1 now2 = (s1, Inr c)"
    and "old < csNext s" and "cnClientId (deref s old) = client" and "ibConnection arrived = Some old"
  shows "ConnectionAuthenticated (connRun later s1) (Some arrived) conn t = REASON_REJECTED \<and>
    (0 \<le> idle \<longrightarrow> IsLive s1 (Some c) now2) \<and> Holds s1 c (take 32 random) \<and> length (ServerNonce s1 c) = 32"
proof -
  have inv: "conn_inv s" unfolding assms(1) by (rule connRun_inv)
  have o: "\<not> length random < ServerNonceBytes" using assms(2) by (auto simp: Open_def split: if_splits)
  have s1: "s1 = connStep (DoOpen client random now1 now2) s" using assms(2) by simp
  have inv1: "conn_inv s1" and later1: "conn_later s s1" unfolding s1 by (rule conn_step [OF inv])+
  have idle: "csIdle s1 = idle"
    using later1 connRun_later [of "NewConnections idle" xs] conns.inv_start
    by (auto simp: assms(1) conn_later_def) (simp add: NewConnections_def conn_inv_def)
  have sw: "csNext (fst (sweep_live s now1)) = csNext s"
    using sweep_live_facts(3) inv by (simp add: conn_inv_def)
  have c: "c = csNext s" "map_of (csLive s1) client = Some c"
    "cnClientId (deref s1 c) = client" "cnNonce (deref s1 c) = take ServerNonceBytes random"
    "cnSeen (deref s1 c) = now2"
    using assms(2) o sw by (auto simp: Open_def Let_def deref_def update_conv')
  have "cnClientId (deref s1 old) = client" using later1 assms(3,4) by (simp add: conn_later_def)
  with c(1,2) assms(3) have "\<not> IsLive (connRun later s1) (Some old) t"
    using later1 by (intro replaced_is_dead [OF inv1]) (auto simp: conn_later_def)
  with assms(5) have "ConnectionAuthenticated (connRun later s1) (Some arrived) conn t = REASON_REJECTED"
    by (simp add: ConnectionAuthenticated_def split: option.split)
  moreover have "0 \<le> idle \<longrightarrow> IsLive s1 (Some c) now2"
    using c idle by (simp add: IsLive_def expired_def)
  moreover have "Holds s1 c (take 32 random)" "length (ServerNonce s1 c) = 32"
    using c(4) o by (simp_all add: Holds_def ServerNonce_def ServerNonceBytes_def)
  ultimately show ?thesis by blast
qed

theorem hello_ends_previous_witness:
  "\<exists>s1 c. Open (connRun [DoOpen [1] (demoRandom 5) 0 0] (NewConnections 100)) [1] (demoRandom 6) 10 10 = (s1, Inr c) \<and>
     ConnectionAuthenticated (connRun [DoLookup [1] 20] s1)
       (Some \<lparr> ibClientId = [1], ibConnection = Some 0, ibBytes = 0 \<rparr>)
       (Some \<lparr> acServerNonce = demoRandom 5, acClientId = [1] \<rparr>) 20 = REASON_REJECTED \<and>
     IsLive s1 (Some c) 10"
proof -
  let ?s = "connRun [DoOpen [1] (demoRandom 5) 0 0] (NewConnections 100)"
  obtain s1 c where o: "Open ?s [1] (demoRandom 6) 10 10 = (s1, Inr c)"
    by (simp add: Open_def demoRandom_def ServerNonceBytes_def Let_def)
  have old: "0 < csNext ?s" "cnClientId (deref ?s 0) = [1]"
    by (simp_all add: Open_def demoRandom_def ServerNonceBytes_def Let_def NewConnections_def
        sweep_live_def deref_def)
  show ?thesis
    using hello_ends_previous [OF refl o old, where later = "[DoLookup [1] 20]" and t = 20
        and arrived = "\<lparr> ibClientId = [1], ibConnection = Some 0, ibBytes = 0 \<rparr>"
        and conn = "Some \<lparr> acServerNonce = demoRandom 5, acClientId = [1] \<rparr>"] o
    by simp
qed

lemma expired_le: "csIdle s \<noteq> 0 \<Longrightarrow> \<not> expired s c now \<Longrightarrow> now - csIdle s \<le> cnSeen (deref s c)"
  by (simp add: expired_def)

text \<open>
  The idle bound. Under a bound that is not zero, whatever ran before: a lookup answers a
  connection only when it carried a frame within the bound, and then marks it seen; check 2 passes
  only such a connection; and after a Hello the registry holds the new connection and otherwise only
  connections seen within the bound.
\<close>

theorem idle_bound:
  assumes "s = connRun xs (NewConnections idle)" and "idle \<noteq> 0"
  shows "(\<forall>s' c. Lookup s client now = (s', Some c) \<longrightarrow>
      now - idle \<le> cnSeen (deref s c) \<and> cnSeen (deref s' c) = now \<and> cnClientId (deref s c) = client) \<and>
    (\<forall>arrived conn c. ibConnection arrived = Some c \<longrightarrow>
      ConnectionAuthenticated s (Some arrived) conn now = REASON_OK \<longrightarrow> now - idle \<le> cnSeen (deref s c)) \<and>
    (\<forall>random now2 s' c k c'. Open s client random now now2 = (s', Inr c) \<longrightarrow>
      map_of (csLive s') k = Some c' \<longrightarrow> k = client \<and> c' = c \<or> now - idle \<le> cnSeen (deref s' c'))"
proof -
  have inv: "conn_inv s" unfolding assms(1) by (rule connRun_inv)
  have idle: "csIdle s = idle"
    using connRun_later [of "NewConnections idle" xs] conns.inv_start
    by (auto simp: assms(1) conn_later_def) (simp add: NewConnections_def)
  note sw = sweep_live_facts [of s now]
  have "now - idle \<le> cnSeen (deref s' c')" if "Open s client random now now2 = (s', Inr c)"
    "map_of (csLive s') k = Some c'" "\<not> (k = client \<and> c' = c)" for random now2 s' c k c'
  proof -
    from that sw inv have "map_of (csLive s) k = Some c'" "\<not> expired s c' now" "deref s' c' = deref s c'"
      by (auto simp: Open_def Let_def conn_inv_def deref_def update_conv' split: if_splits) (metis less_irrefl)
    with expired_le [of s c' now] idle assms(2) show ?thesis by simp
  qed
  moreover have "now - idle \<le> cnSeen (deref s c) \<and> cnSeen (deref s' c) = now \<and> cnClientId (deref s c) = client"
    if "Lookup s client now = (s', Some c)" for s' c
    using that expired_le [of s c now] idle assms(2) inv
    by (auto simp: Lookup_def touch_def deref_def conn_inv_def split: option.splits if_splits)
  moreover have "now - idle \<le> cnSeen (deref s c)"
    if "ibConnection arrived = Some c" "ConnectionAuthenticated s (Some arrived) conn now = REASON_OK"
    for arrived conn c
    using that expired_le [of s c now] idle assms(2)
    by (auto simp: ConnectionAuthenticated_def IsLive_def split: option.splits if_splits)
  ultimately show ?thesis by blast
qed

theorem idle_bound_witness:
  "snd (Lookup (connRun [DoOpen [1] (demoRandom 5) 0 0] (NewConnections 100)) [1] 50) = Some 0 \<and>
   50 - 100 \<le> cnSeen (deref (connRun [DoOpen [1] (demoRandom 5) 0 0] (NewConnections 100)) 0)"
proof -
  let ?s = "connRun [DoOpen [1] (demoRandom 5) 0 0] (NewConnections 100)"
  have "snd (Lookup ?s [1] 50) = Some 0"
    by (simp add: Lookup_def Open_def demoRandom_def ServerNonceBytes_def Let_def NewConnections_def
        sweep_live_def deref_def expired_def)
  then show ?thesis using idle_bound [OF refl, of 100 "[DoOpen [1] (demoRandom 5) 0 0]" "[1]" 50]
    by (metis prod.collapse zero_neq_numeral)
qed

text \<open>
  The count of Hellos is not kept over a lookup that finds the connection expired: the next Hello
  of that client starts again from the first epoch.
\<close>

lemma generation_restarts:
  "let s = connRun [DoOpen [1] (demoRandom 5) 0 0, DoLookup [1] 200, DoOpen [1] (demoRandom 6) 210 210]
     (NewConnections 100)
   in csNext s = 2 \<and> cnGeneration (deref s 1) = 1"
  by (simp add: Lookup_def Open_def demoRandom_def ServerNonceBytes_def Let_def NewConnections_def
      sweep_live_def deref_def expired_def)

end
