(* ===== verification/Subscriptions.thy ===== *)
theory Subscriptions
  imports Prelude
begin

text \<open>
  The group subscriptions of a server and the delivery of their pushes
  (\<open>src/api/subscribe.go\<close>): \<open>subscribe\<close>, \<open>unsubscribe\<close> and \<open>published\<close>, which hold the
  registry's mutex throughout, and the delivery goroutine, which lets go of it while a push is made.

  A subscription is held by pointer and the goroutine compares pointers after a push, so each
  carries the serial number of its allocation; two registrations under one key differ in it. \<open>ready\<close>
  is a set, kept as a list without repetition, and the order the code visits it in is not fixed:
  \<open>push_step\<close> picks any. \<open>byConnection\<close>'s sets of groups are lists too.

  The step relation has the registry, the push in the air, whether the goroutine is draining, the
  one-slot signal channel, the publishers that have left the mutex and not yet signalled, and two
  histories nothing reads: what was published, and what each subscription started from.
\<close>

section \<open>The registry\<close>

type_synonym subscriptionKey = "bytes \<times> bytes"

record subscription =
  suClientId :: bytes
  suServerNonce :: bytes
  suGroupId :: bytes
  suReadEpoch :: u64
  suOwed :: u64
  suNotified :: u64
  suSerial :: nat

record Subscriptions =
  ssMaxPerConnection :: int
  ssByKey :: "(subscriptionKey \<times> subscription) list"
  ssByConnection :: "(bytes \<times> bytes list) list"
  ssReady :: "subscriptionKey list"
  ssPushed :: u64
  ssDropped :: u64
  ssNextSerial :: nat

definition DefaultMaxSubscriptionsPerConnection :: int where
  "DefaultMaxSubscriptionsPerConnection = 32"

definition NewSubscriptions :: Subscriptions where
  "NewSubscriptions =
     \<lparr> ssMaxPerConnection = DefaultMaxSubscriptionsPerConnection, ssByKey = [], ssByConnection = [],
       ssReady = [], ssPushed = 0, ssDropped = 0, ssNextSerial = 0 \<rparr>"

definition connectionKeyOf :: "bytes \<Rightarrow> bytes \<Rightarrow> bytes" where
  "connectionKeyOf clientId serverNonce = clientId @ [0] @ serverNonce"

definition groupsOf :: "Subscriptions \<Rightarrow> bytes \<Rightarrow> bytes list" where
  "groupsOf s connection = (case map_of (ssByConnection s) connection of None \<Rightarrow> [] | Some gs \<Rightarrow> gs)"

text \<open>Every subscription of one connection ended.\<close>

definition dropConnection :: "Subscriptions \<Rightarrow> bytes \<Rightarrow> Subscriptions" where
  "dropConnection s connection =
     s\<lparr>ssByKey := fold (\<lambda>grp. AList.delete (connection, grp)) (groupsOf s connection) (ssByKey s),
       ssByConnection := AList.delete connection (ssByConnection s)\<rparr>"

datatype subscription_error = ErrSubscriptionsFull

definition subscribe ::
  "Subscriptions \<Rightarrow> bytes \<Rightarrow> bytes \<Rightarrow> bytes \<Rightarrow> u64 \<Rightarrow> u64 \<Rightarrow> bool \<Rightarrow>
   Subscriptions \<times> subscription_error option" where
  "subscribe s0 clientId serverNonce groupId readEpoch snapshot replace =
     (let connection = connectionKeyOf clientId serverNonce;
          s = (if replace then dropConnection s0 connection else s0);
          key = (connection, groupId);
          groups = groupsOf s connection
      in if map_of (ssByKey s) key = None \<and> ssMaxPerConnection s \<le> int (length groups)
         then (s, Some ErrSubscriptionsFull)
         else
           (s\<lparr>ssByConnection := AList.update connection (List.insert groupId groups) (ssByConnection s),
              ssByKey := AList.update key
                \<lparr> suClientId = clientId, suServerNonce = serverNonce, suGroupId = groupId,
                  suReadEpoch = readEpoch, suOwed = snapshot, suNotified = snapshot,
                  suSerial = ssNextSerial s \<rparr> (ssByKey s),
              ssNextSerial := Suc (ssNextSerial s)\<rparr>, None))"

text \<open>One group ended: its subscription and its place in its connection's set.\<close>

definition dropGroup :: "bytes \<Rightarrow> bytes \<Rightarrow> Subscriptions \<Rightarrow> Subscriptions" where
  "dropGroup connection grp s =
     s\<lparr>ssByKey := AList.delete (connection, grp) (ssByKey s),
       ssByConnection := (case map_of (ssByConnection s) connection of
                            None \<Rightarrow> ssByConnection s
                          | Some gs \<Rightarrow> AList.update connection (removeAll grp gs) (ssByConnection s))\<rparr>"

definition dropEmpty :: "bytes \<Rightarrow> Subscriptions \<Rightarrow> Subscriptions" where
  "dropEmpty connection s =
     (if groupsOf s connection = [] then s\<lparr>ssByConnection := AList.delete connection (ssByConnection s)\<rparr>
      else s)"

definition unsubscribe :: "Subscriptions \<Rightarrow> bytes \<Rightarrow> bytes \<Rightarrow> bytes list \<Rightarrow> bool \<Rightarrow> Subscriptions" where
  "unsubscribe s clientId serverNonce groupIds all =
     (let connection = connectionKeyOf clientId serverNonce
      in if all then dropConnection s connection
         else dropEmpty connection (fold (dropGroup connection) groupIds s))"

record publishedRecord =
  pbRecordId :: u64
  pbEpoch :: u64

definition owe :: "subscription \<Rightarrow> publishedRecord list \<Rightarrow> subscription" where
  "owe sub records =
     fold (\<lambda>r sub. if pbEpoch r \<le> suReadEpoch sub \<and> suOwed sub < pbRecordId r
                   then sub\<lparr>suOwed := pbRecordId r\<rparr> else sub) records sub"

definition isReady :: "bytes \<Rightarrow> subscriptionKey \<times> subscription \<Rightarrow> bool" where
  "isReady groupId e \<longleftrightarrow> snd (fst e) = groupId \<and> suNotified (snd e) < suOwed (snd e)"

definition published :: "Subscriptions \<Rightarrow> bytes \<Rightarrow> publishedRecord list \<Rightarrow> Subscriptions \<times> bool" where
  "published s groupId records =
     (if records = [] then (s, False)
      else
        (let byKey = map (\<lambda>(key, sub). (key, if snd key = groupId then owe sub records else sub)) (ssByKey s);
             woken = map fst (filter (isReady groupId) byKey)
         in (s\<lparr>ssByKey := byKey, ssReady := fold List.insert woken (ssReady s)\<rparr>, woken \<noteq> [])))"

section \<open>Delivery\<close>

record flight =
  fkKey :: subscriptionKey
  fkSerial :: nat
  fkOwed :: u64
  fkClientId :: bytes
  fkServerNonce :: bytes
  fkGroupId :: bytes

definition takeFlight :: "subscriptionKey \<Rightarrow> subscription \<Rightarrow> flight" where
  "takeFlight key sub = \<lparr> fkKey = key, fkSerial = suSerial sub, fkOwed = suOwed sub,
     fkClientId = suClientId sub, fkServerNonce = suServerNonce sub, fkGroupId = suGroupId sub \<rparr>"

definition unready :: "subscriptionKey \<Rightarrow> Subscriptions \<Rightarrow> Subscriptions" where
  "unready key s = s\<lparr>ssReady := removeAll key (ssReady s)\<rparr>"

text \<open>The second half of a delivery, under the mutex again, once the push was made or refused.\<close>

definition finishPush :: "Subscriptions \<Rightarrow> flight \<Rightarrow> bool \<Rightarrow> Subscriptions" where
  "finishPush s f delivered =
     (case map_of (ssByKey s) (fkKey f) of
        None \<Rightarrow> s
      | Some sub \<Rightarrow>
         (if suSerial sub \<noteq> fkSerial f then s
          else if delivered then
            (let sub' = (if suNotified sub < fkOwed f then sub\<lparr>suNotified := fkOwed f\<rparr> else sub)
             in s\<lparr>ssByKey := AList.update (fkKey f) sub' (ssByKey s),
                  ssPushed := ssPushed s + 1,
                  ssReady := (if suNotified sub' < suOwed sub' then List.insert (fkKey f) (ssReady s)
                              else ssReady s)\<rparr>)
          else
            (let s1 = dropGroup (fst (fkKey f)) (snd (fkKey f)) s
             in (dropEmpty (fst (fkKey f)) s1)\<lparr>ssDropped := ssDropped s + 1\<rparr>)))"

record SubscriptionStats =
  stSubscriptions :: u64
  stConnections :: u64
  stPushed :: u64
  stDropped :: u64

definition Stats :: "Subscriptions \<Rightarrow> SubscriptionStats" where
  "Stats s = \<lparr> stSubscriptions = of_nat (length (ssByKey s)), stConnections = of_nat (length (ssByConnection s)),
     stPushed = ssPushed s, stDropped = ssDropped s \<rparr>"

text \<open>What a subscription started from: its key, its ceiling, its snapshot, and the history then.\<close>

record origin =
  orKey :: subscriptionKey
  orReadEpoch :: u64
  orSnapshot :: u64
  orSince :: nat

record PushSystem =
  psSubs :: Subscriptions
  psFlight :: "flight option"
  psDraining :: bool
  psSignal :: bool
  psLeaving :: nat
  psHistory :: "(bytes \<times> publishedRecord) list"
  psOrigins :: "nat \<Rightarrow> origin option"
  psSent :: "flight list"

definition startPush :: PushSystem where
  "startPush = \<lparr> psSubs = NewSubscriptions, psFlight = None, psDraining = False, psSignal = False,
     psLeaving = 0, psHistory = [], psOrigins = Map.empty, psSent = [] \<rparr>"

inductive push_step :: "PushSystem \<Rightarrow> PushSystem \<Rightarrow> bool" where
  sub: "subscribe (psSubs p) client nonce grp epoch snapshot replace = (s, None) \<Longrightarrow>
    push_step p (p\<lparr>psSubs := s, psOrigins := (psOrigins p)(ssNextSerial (psSubs p) \<mapsto>
      \<lparr> orKey = (connectionKeyOf client nonce, grp), orReadEpoch = epoch, orSnapshot = snapshot,
        orSince = length (psHistory p) \<rparr>)\<rparr>)"
| full: "subscribe (psSubs p) client nonce grp epoch snapshot replace = (s, Some e) \<Longrightarrow>
    push_step p (p\<lparr>psSubs := s\<rparr>)"
| unsub: "push_step p (p\<lparr>psSubs := unsubscribe (psSubs p) client nonce grps all\<rparr>)"
| publish: "published (psSubs p) grp records = (s, woke) \<Longrightarrow>
    push_step p (p\<lparr>psSubs := s, psLeaving := psLeaving p + (if woke then 1 else 0),
      psHistory := psHistory p @ map (Pair grp) records\<rparr>)"
| signal: "psLeaving p = Suc n \<Longrightarrow> push_step p (p\<lparr>psLeaving := n, psSignal := True\<rparr>)"
| wake: "\<not> psDraining p \<Longrightarrow> psSignal p \<Longrightarrow> push_step p (p\<lparr>psSignal := False, psDraining := True\<rparr>)"
| stale: "psDraining p \<Longrightarrow> psFlight p = None \<Longrightarrow> key \<in> set (ssReady (psSubs p)) \<Longrightarrow>
    map_of (ssByKey (psSubs p)) key = None \<Longrightarrow> push_step p (p\<lparr>psSubs := unready key (psSubs p)\<rparr>)"
| pick: "psDraining p \<Longrightarrow> psFlight p = None \<Longrightarrow> key \<in> set (ssReady (psSubs p)) \<Longrightarrow>
    map_of (ssByKey (psSubs p)) key = Some sub \<Longrightarrow>
    push_step p (p\<lparr>psSubs := unready key (psSubs p), psFlight := Some (takeFlight key sub),
      psSent := psSent p @ [takeFlight key sub]\<rparr>)"
| finish: "psFlight p = Some f \<Longrightarrow>
    push_step p (p\<lparr>psSubs := finishPush (psSubs p) f delivered, psFlight := None\<rparr>)"
| rest: "psDraining p \<Longrightarrow> psFlight p = None \<Longrightarrow> ssReady (psSubs p) = [] \<Longrightarrow>
    push_step p (p\<lparr>psDraining := False\<rparr>)"

text \<open>What a subscription is owed: the highest of its snapshot and the records published to its
  group since, at its epoch or below.\<close>

definition owedSpec :: "u64 \<Rightarrow> u64 \<Rightarrow> bytes \<Rightarrow> (bytes \<times> publishedRecord) list \<Rightarrow> u64" where
  "owedSpec snapshot epoch grp history =
     fold (\<lambda>(g, r) n. if g = grp \<and> pbEpoch r \<le> epoch then max n (pbRecordId r) else n) history snapshot"

definition originOf :: "PushSystem \<Rightarrow> subscription \<Rightarrow> origin" where
  "originOf p sub = the (psOrigins p (suSerial sub))"

definition quiet :: "PushSystem \<Rightarrow> bool" where
  "quiet p \<longleftrightarrow> \<not> psDraining p \<and> \<not> psSignal p \<and> psLeaving p = 0"
end
