(* ===== verification/Push_Invariant.thy ===== *)
theory Push_Invariant
  imports Subscriptions
begin

text \<open>
  What the subscription registry and its delivery satisfy in every reachable state: the index by
  connection is the registry's, the cap holds, what a subscription is owed is what was published to
  it, one that is owed a push is marked or has it in the air, and a mark is never left without a
  wake.
\<close>

section \<open>The registry's books\<close>

definition subKeys :: "Subscriptions \<Rightarrow> subscriptionKey set" where
  "subKeys s = dom (map_of (ssByKey s))"

definition keysOf :: "Subscriptions \<Rightarrow> bytes \<Rightarrow> bytes set" where
  "keysOf s c = {g. (c, g) \<in> subKeys s}"

definition groups_ok :: "bool \<Rightarrow> int \<Rightarrow> bytes list option \<Rightarrow> bytes set \<Rightarrow> bool" where
  "groups_ok may_be_empty cap l G =
     (case l of
        None \<Rightarrow> G = {}
      | Some gs \<Rightarrow> (may_be_empty \<or> gs \<noteq> []) \<and> distinct gs \<and> set gs = G \<and> int (length gs) \<le> cap)"

definition books_but :: "Subscriptions \<Rightarrow> bytes option \<Rightarrow> bool" where
  "books_but s b \<longleftrightarrow> distinct (map fst (ssByKey s)) \<and> distinct (map fst (ssByConnection s)) \<and>
     (\<forall>c. groups_ok (b = Some c) (ssMaxPerConnection s) (map_of (ssByConnection s) c) (keysOf s c))"

abbreviation subs_books :: "Subscriptions \<Rightarrow> bool" where
  "subs_books s \<equiv> books_but s None"

lemma groups_ok_weaken: "groups_ok False m l G \<Longrightarrow> groups_ok e m l G"
  by (simp add: groups_ok_def split: option.splits)

lemma groups_ok_removeAll: "groups_ok e m l G \<Longrightarrow> groups_ok True m (map_option (removeAll g) l) (G - {g})"
  by (auto simp: groups_ok_def distinct_removeAll removeAll_filter_not_eq
      split: option.splits intro: order_trans [OF of_nat_mono [OF length_filter_le]])

lemma groups_ok_insert:
  assumes "groups_ok False m l G" and "gs = (case l of None \<Rightarrow> [] | Some gs \<Rightarrow> gs)"
    and "g \<in> G \<or> int (length gs) < m"
  shows "groups_ok False m (Some (List.insert g gs)) (insert g G)"
  using assms by (auto simp: groups_ok_def List.insert_def insert_absorb split: option.splits)

lemma groups_ok_groups: "groups_ok e m (map_of (ssByConnection s) c) G \<Longrightarrow> set (groupsOf s c) = G"
  by (simp add: groups_ok_def groupsOf_def split: option.splits)

lemma books_groups: "books_but s b \<Longrightarrow> set (groupsOf s c) = keysOf s c"
  by (rule groups_ok_groups [of "b = Some c" "ssMaxPerConnection s"]) (simp add: books_but_def)

lemma map_of_fold_delete:
  "map_of (fold (\<lambda>g. AList.delete (c, g)) gs m) k =
     (if fst k = c \<and> snd k \<in> set gs then None else map_of m k)"
  by (induction gs arbitrary: m) (auto simp: delete_conv')

lemma distinct_fold_delete:
  "distinct (map fst m) \<Longrightarrow> distinct (map fst (fold (\<lambda>g. AList.delete (c, g)) gs m))"
  by (induction gs arbitrary: m) (auto simp: distinct_delete)

lemma dropConnection_lookup:
  assumes "books_but s b"
  shows "map_of (ssByKey (dropConnection s c)) k = (if fst k = c then None else map_of (ssByKey s) k)"
  using books_groups [OF assms, of c]
  by (cases k) (auto simp: dropConnection_def map_of_fold_delete keysOf_def subKeys_def domIff)

lemma dropConnection_books:
  assumes "subs_books s"
  shows "subs_books (dropConnection s c)"
proof -
  have k: "keysOf (dropConnection s c) c' = (if c' = c then {} else keysOf s c')" for c'
    using dropConnection_lookup [OF assms] by (auto simp: keysOf_def subKeys_def domIff split: if_splits)
  have l: "map_of (ssByConnection (dropConnection s c)) c' =
      (if c' = c then None else map_of (ssByConnection s) c')" for c'
    by (simp add: dropConnection_def delete_conv')
  have "groups_ok False (ssMaxPerConnection s) None {}" by (simp add: groups_ok_def)
  with assms show ?thesis
    by (simp add: books_but_def k l) (simp add: dropConnection_def distinct_delete distinct_fold_delete)
qed

lemma dropGroup_lookup:
  "map_of (ssByKey (dropGroup c g s)) k = (if k = (c, g) then None else map_of (ssByKey s) k)"
  by (auto simp: dropGroup_def delete_conv')

lemma dropGroup_books:
  assumes "books_but s b" and "b = None \<or> b = Some c"
  shows "books_but (dropGroup c g s) (Some c)"
proof -
  have k: "keysOf (dropGroup c g s) c' = (if c' = c then keysOf s c - {g} else keysOf s c')" for c'
    by (auto simp: keysOf_def subKeys_def domIff dropGroup_lookup split: if_splits)
  have l: "map_of (ssByConnection (dropGroup c g s)) c' =
      (if c' = c then map_option (removeAll g) (map_of (ssByConnection s) c) else map_of (ssByConnection s) c')" for c'
    by (auto simp: dropGroup_def update_conv' split: option.split)
  have "groups_ok (Some c = Some c') (ssMaxPerConnection s) (map_of (ssByConnection (dropGroup c g s)) c')
      (keysOf (dropGroup c g s) c')" for c'
    using assms by (auto simp: books_but_def k l intro: groups_ok_removeAll dest!: spec [of _ c'])
  with assms(1) show ?thesis
    by (simp add: books_but_def)
       (auto simp: dropGroup_def distinct_delete distinct_update split: option.split)
qed

lemma dropEmpty_books:
  assumes "books_but s (Some c)"
  shows "subs_books (dropEmpty c s)"
proof -
  have ok: "groups_ok (c = c') (ssMaxPerConnection s) (map_of (ssByConnection s) c') (keysOf s c')" for c'
    using assms by (auto simp: books_but_def)
  have k: "keysOf (dropEmpty c s) = keysOf s" by (simp add: dropEmpty_def keysOf_def subKeys_def fun_eq_iff)
  have "groups_ok False (ssMaxPerConnection s) (map_of (ssByConnection (dropEmpty c s)) c') (keysOf s c')" for c'
  proof (cases "c' = c")
    case True
    with ok [of c] show ?thesis
      by (auto simp: groups_ok_def dropEmpty_def groupsOf_def delete_conv' split: option.splits)
  next
    case False
    with ok [of c'] show ?thesis by (simp add: dropEmpty_def delete_conv' eq_commute [of c])
  qed
  moreover have "ssMaxPerConnection (dropEmpty c s) = ssMaxPerConnection s" "ssByKey (dropEmpty c s) = ssByKey s"
    "distinct (map fst (ssByConnection (dropEmpty c s)))"
    using assms by (simp_all add: dropEmpty_def books_but_def distinct_delete)
  ultimately show ?thesis using assms k by (simp add: books_but_def)
qed

lemma books_weaken: "subs_books s \<Longrightarrow> books_but s b"
  by (auto simp: books_but_def intro: groups_ok_weaken)

lemma fold_dropGroup_books: "books_but s (Some c) \<Longrightarrow> books_but (fold (dropGroup c) gs s) (Some c)"
  by (induction gs arbitrary: s) (simp_all add: dropGroup_books)

lemma unsubscribe_books: "subs_books s \<Longrightarrow> subs_books (unsubscribe s client nonce gs all)"
  by (simp add: unsubscribe_def Let_def dropConnection_books dropEmpty_books fold_dropGroup_books books_weaken)

lemma owe_fields [simp]:
  "suReadEpoch (owe sub rs) = suReadEpoch sub" "suNotified (owe sub rs) = suNotified sub"
  "suGroupId (owe sub rs) = suGroupId sub" "suSerial (owe sub rs) = suSerial sub"
  by (induction rs arbitrary: sub) (auto simp: owe_def)

lemma map_of_mapped:
  "map_of (map (\<lambda>(k, v). (k, f k v)) m) k = map_option (f k) (map_of m k)"
  by (induction m) auto

lemma set_fold_insert [simp]: "set (fold List.insert xs ys) = set xs \<union> set ys"
  by (induction xs arbitrary: ys) auto

lemma published_facts:
  assumes "published s grp rs = (s', woke)"
  shows "map_of (ssByKey s') k = map_option (\<lambda>sub. if snd k = grp then owe sub rs else sub) (map_of (ssByKey s) k)"
    and "map fst (ssByKey s') = map fst (ssByKey s)" and "ssByConnection s' = ssByConnection s"
    and "ssMaxPerConnection s' = ssMaxPerConnection s" and "ssNextSerial s' = ssNextSerial s"
    and "set (ssReady s) \<subseteq> set (ssReady s')" and "\<not> woke \<Longrightarrow> ssReady s' = ssReady s"
    and "map_of (ssByKey s') k = Some sub \<Longrightarrow> snd k = grp \<Longrightarrow> rs \<noteq> [] \<Longrightarrow> suNotified sub < suOwed sub \<Longrightarrow>
      k \<in> set (ssReady s')"
proof -
  show "map_of (ssByKey s') k = map_option (\<lambda>sub. if snd k = grp then owe sub rs else sub) (map_of (ssByKey s) k)"
    using assms
    by (auto simp: published_def Let_def map_of_mapped [where f = "\<lambda>k sub. if snd k = grp then owe sub rs else sub"]
        owe_def option.map_ident_strong split: if_splits)
  show "map fst (ssByKey s') = map fst (ssByKey s)" "ssByConnection s' = ssByConnection s"
    "ssMaxPerConnection s' = ssMaxPerConnection s" "ssNextSerial s' = ssNextSerial s"
    "set (ssReady s) \<subseteq> set (ssReady s')" "\<not> woke \<Longrightarrow> ssReady s' = ssReady s"
    using assms by (auto simp: published_def Let_def comp_def case_prod_beta split: if_splits)
  assume k: "map_of (ssByKey s') k = Some sub" "snd k = grp" "rs \<noteq> []" "suNotified sub < suOwed sub"
  then have "isReady grp (k, sub)" by (simp add: isReady_def)
  moreover have "(k, sub) \<in> set (ssByKey s')" using k(1) by (rule map_of_SomeD)
  ultimately have "k \<in> set (map fst (filter (isReady grp) (ssByKey s')))" by force
  moreover have "ssReady s' = fold List.insert (map fst (filter (isReady grp) (ssByKey s'))) (ssReady s)"
    using assms k(3) by (auto simp: published_def Let_def)
  ultimately show "k \<in> set (ssReady s')" by (simp only: set_fold_insert) blast
qed

lemma published_books:
  assumes "subs_books s" and "published s grp rs = (s', woke)"
  shows "subs_books s'"
proof -
  note p = published_facts [OF assms(2)]
  have "keysOf s' = keysOf s" by (auto simp: keysOf_def subKeys_def domIff p(1) fun_eq_iff)
  with assms(1) show ?thesis by (simp add: books_but_def p)
qed

lemma subscribe_Some:
  assumes "subscribe s client nonce grp epoch snapshot replace = (s', Some e)" and "c = connectionKeyOf client nonce"
  shows "s' = (if replace then dropConnection s c else s)"
  using assms by (auto simp: subscribe_def Let_def split: if_splits)

lemma subscribe_None:
  assumes "subscribe s client nonce grp epoch snapshot replace = (s', None)"
    and "c = connectionKeyOf client nonce" and "t = (if replace then dropConnection s c else s)"
  shows "s' = t\<lparr>ssByConnection := AList.update c (List.insert grp (groupsOf t c)) (ssByConnection t),
      ssByKey := AList.update (c, grp)
        \<lparr> suClientId = client, suServerNonce = nonce, suGroupId = grp, suReadEpoch = epoch,
          suOwed = snapshot, suNotified = snapshot, suSerial = ssNextSerial s \<rparr> (ssByKey t),
      ssNextSerial := Suc (ssNextSerial s)\<rparr>"
    and "(c, grp) \<in> subKeys t \<or> int (length (groupsOf t c)) < ssMaxPerConnection t"
  using assms
  by (auto simp: subscribe_def Let_def dropConnection_def subKeys_def split: if_splits)

lemma subscribe_books:
  assumes "subs_books s" and "subscribe s client nonce grp epoch snapshot replace = (s', e)"
  shows "subs_books s'"
proof -
  let ?c = "connectionKeyOf client nonce"
  define t where "t = (if replace then dropConnection s ?c else s)"
  have t: "subs_books t" using assms(1) by (simp add: t_def dropConnection_books)
  show ?thesis
  proof (cases e)
    case (Some x)
    with assms(2) subscribe_Some [OF _ refl] t show ?thesis by (auto simp: t_def)
  next
    case None
    note s' = subscribe_None [OF assms(2) [unfolded None] refl t_def]
    have k: "keysOf s' c = (if c = ?c then insert grp (keysOf t c) else keysOf t c)" for c
      by (auto simp: s'(1) keysOf_def subKeys_def update_conv')
    have ok: "groups_ok False (ssMaxPerConnection t) (map_of (ssByConnection t) c) (keysOf t c)" for c
      using t by (simp add: books_but_def)
    have "groups_ok False (ssMaxPerConnection t) (map_of (ssByConnection s') c) (keysOf s' c)" for c
    proof (cases "c = ?c")
      case True
      have "grp \<in> keysOf t ?c \<or> int (length (groupsOf t ?c)) < ssMaxPerConnection t"
        using s'(2) by (simp add: keysOf_def)
      from groups_ok_insert [OF ok [of ?c] groupsOf_def this] True k [of c] show ?thesis
        by (simp add: s'(1) update_conv')
    next
      case False
      with ok [of c] k [of c] show ?thesis by (simp add: s'(1) update_conv')
    qed
    with t show ?thesis by (simp add: books_but_def) (simp add: s'(1) distinct_update)
  qed
qed

lemma dropGroup_fields [simp]:
  "ssReady (dropGroup c g s) = ssReady s" "ssNextSerial (dropGroup c g s) = ssNextSerial s"
  "ssMaxPerConnection (dropGroup c g s) = ssMaxPerConnection s"
  by (simp_all add: dropGroup_def)

lemma dropEmpty_fields [simp]:
  "ssReady (dropEmpty c s) = ssReady s" "ssNextSerial (dropEmpty c s) = ssNextSerial s"
  "ssMaxPerConnection (dropEmpty c s) = ssMaxPerConnection s" "ssByKey (dropEmpty c s) = ssByKey s"
  by (simp_all add: dropEmpty_def)

lemma dropConnection_fields [simp]:
  "ssReady (dropConnection s c) = ssReady s" "ssNextSerial (dropConnection s c) = ssNextSerial s"
  "ssMaxPerConnection (dropConnection s c) = ssMaxPerConnection s"
  by (simp_all add: dropConnection_def)

lemma fold_dropGroup_fields [simp]:
  "ssReady (fold (dropGroup c) gs s) = ssReady s" "ssNextSerial (fold (dropGroup c) gs s) = ssNextSerial s"
  "ssMaxPerConnection (fold (dropGroup c) gs s) = ssMaxPerConnection s"
  by (induction gs arbitrary: s) simp_all

lemma fold_dropGroup_lookup:
  "map_of (ssByKey (fold (dropGroup c) gs s)) k = (if fst k = c \<and> snd k \<in> set gs then None else map_of (ssByKey s) k)"
  by (induction gs arbitrary: s) (auto simp: dropGroup_lookup)

lemma unsubscribe_facts:
  assumes "subs_books s"
  shows "map_of (ssByKey (unsubscribe s client nonce gs all)) \<subseteq>\<^sub>m map_of (ssByKey s)"
    and "ssReady (unsubscribe s client nonce gs all) = ssReady s"
    and "ssNextSerial (unsubscribe s client nonce gs all) = ssNextSerial s"
    and "ssMaxPerConnection (unsubscribe s client nonce gs all) = ssMaxPerConnection s"
  by (auto simp: unsubscribe_def Let_def map_le_def dropConnection_lookup [OF assms] fold_dropGroup_lookup
      split: if_splits)

text \<open>The second half of a delivery, as what it does to each registration.\<close>

lemma finishPush_True:
  "map_of (ssByKey (finishPush s f True)) k =
     (case map_of (ssByKey s) k of
        Some sub \<Rightarrow> Some (if k = fkKey f \<and> suSerial sub = fkSerial f \<and> suNotified sub < fkOwed f
                         then sub\<lparr>suNotified := fkOwed f\<rparr> else sub)
      | None \<Rightarrow> None)"
  by (auto simp: finishPush_def Let_def update_conv' split: option.split)

lemma finishPush_False:
  "map_of (ssByKey (finishPush s f False)) \<subseteq>\<^sub>m map_of (ssByKey s)"
  by (auto simp: finishPush_def Let_def map_le_def dropGroup_lookup split: option.splits if_splits)

lemma finishPush_fields:
  "ssNextSerial (finishPush s f d) = ssNextSerial s" "ssMaxPerConnection (finishPush s f d) = ssMaxPerConnection s"
  "set (ssReady s) \<subseteq> set (ssReady (finishPush s f d))"
  by (auto simp: finishPush_def Let_def split: option.split)

lemma finishPush_ready:
  assumes "map_of (ssByKey (finishPush s f d)) k = Some sub" and "suNotified sub < suOwed sub"
    and "k = fkKey f" and "suSerial sub = fkSerial f"
  shows "k \<in> set (ssReady (finishPush s f d))"
  using assms by (auto simp: finishPush_def Let_def dropGroup_lookup update_conv' split: option.splits if_splits)

lemma books_cong:
  assumes "subs_books s" and "map fst (ssByKey s') = map fst (ssByKey s)" and "ssByConnection s' = ssByConnection s"
    and "ssMaxPerConnection s' = ssMaxPerConnection s"
  shows "subs_books s'"
proof -
  have "subKeys s' = subKeys s" by (simp add: subKeys_def dom_map_of_conv_image_fst assms(2) flip: set_map)
  with assms show ?thesis by (simp add: books_but_def keysOf_def)
qed

lemma finishPush_books:
  assumes "subs_books s"
  shows "subs_books (finishPush s f d)"
proof (cases "map_of (ssByKey s) (fkKey f)")
  case None
  with assms show ?thesis by (simp add: finishPush_def)
next
  case (Some sub)
  have u: "map fst (AList.update (fkKey f) x (ssByKey s)) = map fst (ssByKey s)" for x
    using map_of_SomeD [OF Some] by (simp add: update_keys weak_map_of_SomeI image_iff) force
  have "subs_books (dropEmpty (fst (fkKey f)) (dropGroup (fst (fkKey f)) (snd (fkKey f)) s))"
    by (rule dropEmpty_books [OF dropGroup_books [OF assms]]) simp
  from books_cong [OF this] books_cong [OF assms] assms Some u show ?thesis
    by (cases d) (simp_all add: finishPush_def Let_def)
qed

section \<open>What a subscription is owed\<close>

lemma owedSpec_append:
  "owedSpec snapshot e g (h @ h') = owedSpec (owedSpec snapshot e g h) e g h'"
  by (simp add: owedSpec_def)

lemma owedSpec_ge: "snapshot \<le> owedSpec snapshot e g h"
proof (induction h arbitrary: snapshot)
  case (Cons r h)
  show ?case
    using Cons [of snapshot] Cons [of "max snapshot (pbRecordId (snd r))"]
    by (auto simp: owedSpec_def case_prod_beta)
qed (simp add: owedSpec_def)

lemma owedSpec_other: "g' \<noteq> g \<Longrightarrow> owedSpec n e g (map (Pair g') rs) = n"
  by (induction rs) (auto simp: owedSpec_def)

lemma owe_owedSpec: "suOwed (owe sub rs) = owedSpec (suOwed sub) (suReadEpoch sub) g (map (Pair g) rs)"
proof (induction rs arbitrary: sub)
  case (Cons r rs)
  show ?case
    using Cons [of "if pbEpoch r \<le> suReadEpoch sub \<and> suOwed sub < pbRecordId r
                   then sub\<lparr>suOwed := pbRecordId r\<rparr> else sub"]
    by (auto simp: owe_def owedSpec_def max_def not_less split: if_splits)
qed (simp add: owe_def owedSpec_def)

lemma owedSpec_from:
  "owedSpec n e g h = n \<or> (\<exists>r. (g, r) \<in> set h \<and> pbEpoch r \<le> e \<and> pbRecordId r = owedSpec n e g h)"
proof (induction h arbitrary: n)
  case (Cons x h)
  show ?case
    using Cons [of n] Cons [of "max n (pbRecordId (snd x))"]
    by (cases x) (auto simp: owedSpec_def max_def split: if_splits)
qed (simp add: owedSpec_def)

section \<open>The invariant of the delivery\<close>

definition sub_ok ::
  "(nat \<Rightarrow> origin option) \<Rightarrow> (bytes \<times> publishedRecord) list \<Rightarrow> flight list \<Rightarrow> subscriptionKey \<Rightarrow> subscription \<Rightarrow> bool"
where
  "sub_ok origins history sent k sub \<longleftrightarrow>
     (\<exists>o1. origins (suSerial sub) = Some o1 \<and> orKey o1 = k \<and> orReadEpoch o1 = suReadEpoch sub \<and>
       suGroupId sub = snd k \<and>
       suOwed sub = owedSpec (orSnapshot o1) (orReadEpoch o1) (snd k) (drop (orSince o1) history) \<and>
       suNotified sub \<le> suOwed sub \<and>
       (suNotified sub = orSnapshot o1 \<or> (\<exists>f \<in> set sent. fkSerial f = suSerial sub \<and> fkOwed f = suNotified sub)))"

definition sent_ok :: "(nat \<Rightarrow> origin option) \<Rightarrow> (bytes \<times> publishedRecord) list \<Rightarrow> flight \<Rightarrow> bool" where
  "sent_ok origins history f \<longleftrightarrow>
     (\<exists>o1. origins (fkSerial f) = Some o1 \<and> orKey o1 = fkKey f \<and> fkGroupId f = snd (fkKey f) \<and>
       (fkOwed f = orSnapshot o1 \<or>
        (\<exists>r. (fkGroupId f, r) \<in> set (drop (orSince o1) history) \<and> pbEpoch r \<le> orReadEpoch o1 \<and>
             pbRecordId r = fkOwed f)))"

definition flight_ok :: "(subscriptionKey \<times> subscription) list \<Rightarrow> flight list \<Rightarrow> bool \<Rightarrow> flight \<Rightarrow> bool" where
  "flight_ok byKey sent draining f \<longleftrightarrow> draining \<and> f \<in> set sent \<and>
     (\<forall>sub. map_of byKey (fkKey f) = Some sub \<and> suSerial sub = fkSerial f \<longrightarrow> fkOwed f \<le> suOwed sub)"

definition waiting :: "subscriptionKey list \<Rightarrow> flight option \<Rightarrow> subscriptionKey \<Rightarrow> subscription \<Rightarrow> bool" where
  "waiting ready fl k sub \<longleftrightarrow>
     k \<in> set ready \<or> (\<exists>f. fl = Some f \<and> fkKey f = k \<and> fkSerial f = suSerial sub)"

definition push_inv :: "PushSystem \<Rightarrow> bool" where
  "push_inv p \<longleftrightarrow>
     subs_books (psSubs p) \<and> ssMaxPerConnection (psSubs p) = DefaultMaxSubscriptionsPerConnection \<and>
     (\<forall>k sub. map_of (ssByKey (psSubs p)) k = Some sub \<longrightarrow>
        sub_ok (psOrigins p) (psHistory p) (psSent p) k sub \<and>
        (suNotified sub < suOwed sub \<longrightarrow> waiting (ssReady (psSubs p)) (psFlight p) k sub)) \<and>
     (\<forall>n o1. psOrigins p n = Some o1 \<longrightarrow> n < ssNextSerial (psSubs p) \<and> orSince o1 \<le> length (psHistory p)) \<and>
     (\<forall>f \<in> set (psSent p). sent_ok (psOrigins p) (psHistory p) f) \<and>
     (\<forall>f. psFlight p = Some f \<longrightarrow> flight_ok (ssByKey (psSubs p)) (psSent p) (psDraining p) f) \<and>
     (ssReady (psSubs p) \<noteq> [] \<longrightarrow> psSignal p \<or> psDraining p \<or> 0 < psLeaving p)"

lemma push_invI:
  assumes "subs_books (psSubs p)" and "ssMaxPerConnection (psSubs p) = DefaultMaxSubscriptionsPerConnection"
    and "\<And>k sub. map_of (ssByKey (psSubs p)) k = Some sub \<Longrightarrow> sub_ok (psOrigins p) (psHistory p) (psSent p) k sub"
    and "\<And>k sub. map_of (ssByKey (psSubs p)) k = Some sub \<Longrightarrow> suNotified sub < suOwed sub \<Longrightarrow>
      waiting (ssReady (psSubs p)) (psFlight p) k sub"
    and "\<And>n o1. psOrigins p n = Some o1 \<Longrightarrow> n < ssNextSerial (psSubs p) \<and> orSince o1 \<le> length (psHistory p)"
    and "\<And>f. f \<in> set (psSent p) \<Longrightarrow> sent_ok (psOrigins p) (psHistory p) f"
    and "\<And>f. psFlight p = Some f \<Longrightarrow> flight_ok (ssByKey (psSubs p)) (psSent p) (psDraining p) f"
    and "ssReady (psSubs p) \<noteq> [] \<Longrightarrow> psSignal p \<or> psDraining p \<or> 0 < psLeaving p"
  shows "push_inv p"
  using assms by (simp add: push_inv_def)

lemma push_invD:
  assumes "push_inv p"
  shows "subs_books (psSubs p)" and "ssMaxPerConnection (psSubs p) = DefaultMaxSubscriptionsPerConnection"
    and "\<And>k sub. map_of (ssByKey (psSubs p)) k = Some sub \<Longrightarrow> sub_ok (psOrigins p) (psHistory p) (psSent p) k sub"
    and "\<And>k sub. map_of (ssByKey (psSubs p)) k = Some sub \<Longrightarrow> suNotified sub < suOwed sub \<Longrightarrow>
      waiting (ssReady (psSubs p)) (psFlight p) k sub"
    and "\<And>n o1. psOrigins p n = Some o1 \<Longrightarrow> n < ssNextSerial (psSubs p)"
    and "\<And>n o1. psOrigins p n = Some o1 \<Longrightarrow> orSince o1 \<le> length (psHistory p)"
    and "\<And>f. f \<in> set (psSent p) \<Longrightarrow> sent_ok (psOrigins p) (psHistory p) f"
    and "\<And>f. psFlight p = Some f \<Longrightarrow> flight_ok (ssByKey (psSubs p)) (psSent p) (psDraining p) f"
    and "ssReady (psSubs p) \<noteq> [] \<Longrightarrow> psSignal p \<or> psDraining p \<or> 0 < psLeaving p"
  using assms unfolding push_inv_def by (blast+, simp)

lemma startPush_inv: "push_inv startPush"
  by (simp add: push_inv_def startPush_def NewSubscriptions_def books_but_def groups_ok_def keysOf_def subKeys_def)

text \<open>Registrations that end take nothing else with them.\<close>

lemma push_inv_shrink:
  assumes i: "push_inv p" and "subs_books s" and "map_of (ssByKey s) \<subseteq>\<^sub>m map_of (ssByKey (psSubs p))"
    and "ssReady s = ssReady (psSubs p)" "ssNextSerial s = ssNextSerial (psSubs p)"
    "ssMaxPerConnection s = ssMaxPerConnection (psSubs p)"
  shows "push_inv (p\<lparr>psSubs := s\<rparr>)"
proof -
  have sub: "map_of (ssByKey (psSubs p)) k = Some x" if "map_of (ssByKey s) k = Some x" for k x
    by (rule map_leD [OF assms(3) that])
  show ?thesis
  proof (rule push_invI)
    fix f assume "psFlight (p\<lparr>psSubs := s\<rparr>) = Some f"
    then have "flight_ok (ssByKey (psSubs p)) (psSent p) (psDraining p) f" using push_invD(8) [OF i] by simp
    then show "flight_ok (ssByKey (psSubs (p\<lparr>psSubs := s\<rparr>))) (psSent (p\<lparr>psSubs := s\<rparr>))
        (psDraining (p\<lparr>psSubs := s\<rparr>)) f"
      using sub by (simp add: flight_ok_def)
  qed (use assms push_invD [OF i] sub in auto)
qed

lemma sub_ok_drop_since:
  assumes "sub_ok os h sent k sub" and "os (suSerial sub) = os' (suSerial sub)" and "set sent \<subseteq> set sent'"
  shows "sub_ok os' h sent' k sub"
  using assms unfolding sub_ok_def by (metis subsetD)

lemma sent_ok_origins:
  assumes "sent_ok os h f" and "\<And>o1. os (fkSerial f) = Some o1 \<Longrightarrow> os' (fkSerial f) = Some o1"
  shows "sent_ok os' h f"
  using assms unfolding sent_ok_def by blast

lemma step_sub_inv:
  assumes i: "push_inv p" and e: "subscribe (psSubs p) client nonce grp epoch snapshot replace = (s, None)"
  shows "push_inv (p\<lparr>psSubs := s, psOrigins := (psOrigins p)(ssNextSerial (psSubs p) \<mapsto>
      \<lparr> orKey = (connectionKeyOf client nonce, grp), orReadEpoch = epoch, orSnapshot = snapshot,
        orSince = length (psHistory p) \<rparr>)\<rparr>)" (is "push_inv ?p'")
proof -
  note D = push_invD [OF i]
  let ?c = "connectionKeyOf client nonce"
  define t where "t = (if replace then dropConnection (psSubs p) ?c else psSubs p)"
  note s = subscribe_None(1) [OF e refl t_def]
  have t: "map_of (ssByKey t) k = Some x \<Longrightarrow> map_of (ssByKey (psSubs p)) k = Some x" for k x
    by (simp add: t_def dropConnection_lookup [OF D(1)] split: if_splits)
  have old: "suSerial x \<noteq> ssNextSerial (psSubs p)" if "map_of (ssByKey (psSubs p)) k = Some x" for k x
    using D(3) [OF that] D(5) by (fastforce simp: sub_ok_def)
  have keep: "n \<noteq> ssNextSerial (psSubs p)" if "psOrigins p n = Some o1" for n o1
    using D(5) [OF that] by simp
  have lk: "map_of (ssByKey s) k = (if k = (?c, grp) then Some
      \<lparr> suClientId = client, suServerNonce = nonce, suGroupId = grp, suReadEpoch = epoch,
        suOwed = snapshot, suNotified = snapshot, suSerial = ssNextSerial (psSubs p) \<rparr> else map_of (ssByKey t) k)" for k
    by (auto simp: s update_conv')
  have r: "ssReady s = ssReady (psSubs p)" "ssNextSerial s = Suc (ssNextSerial (psSubs p))"
    "ssMaxPerConnection s = ssMaxPerConnection (psSubs p)" by (simp_all add: s t_def)
  show ?thesis
  proof (rule push_invI)
    show "subs_books (psSubs ?p')" using subscribe_books [OF D(1) e] by simp
    fix k sub assume k: "map_of (ssByKey (psSubs ?p')) k = Some sub"
    show "sub_ok (psOrigins ?p') (psHistory ?p') (psSent ?p') k sub"
    proof (cases "k = (?c, grp)")
      case True
      with k show ?thesis by (auto simp: lk sub_ok_def owedSpec_def)
    next
      case False
      with k have k': "map_of (ssByKey (psSubs p)) k = Some sub" using t by (simp add: lk)
      show ?thesis using sub_ok_drop_since [OF D(3) [OF k']] old [OF k'] by simp
    qed
    show "waiting (ssReady (psSubs ?p')) (psFlight ?p') k sub" if "suNotified sub < suOwed sub"
      using k that t D(4) by (auto simp: lk r split: if_splits)
  next
    fix f assume f: "psFlight ?p' = Some f"
    then have F: "flight_ok (ssByKey (psSubs p)) (psSent p) (psDraining p) f" using D(8) by simp
    then have "sent_ok (psOrigins p) (psHistory p) f" using D(7) by (simp add: flight_ok_def)
    then have "fkSerial f \<noteq> ssNextSerial (psSubs p)" using keep by (auto simp: sent_ok_def)
    with F t show "flight_ok (ssByKey (psSubs ?p')) (psSent ?p') (psDraining ?p') f"
      by (auto simp: flight_ok_def lk)
  next
    fix f assume "f \<in> set (psSent ?p')"
    then show "sent_ok (psOrigins ?p') (psHistory ?p') f"
      using sent_ok_origins [OF D(7)] keep by simp
  qed (use D(2,5,6,9) in \<open>auto simp: r less_Suc_eq split: if_splits\<close>)
qed

lemma sub_ok_publish:
  assumes "sub_ok os h sent k x" and since: "\<And>o1. os (suSerial x) = Some o1 \<Longrightarrow> orSince o1 \<le> length h"
    and sub: "sub = (if snd k = grp then owe x rs else x)"
  shows "sub_ok os (h @ map (Pair grp) rs) sent k sub"
proof -
  from assms(1) obtain o1 where o: "os (suSerial x) = Some o1" "orKey o1 = k" "orReadEpoch o1 = suReadEpoch x"
    "suGroupId x = snd k" "suNotified x \<le> suOwed x"
    "suNotified x = orSnapshot o1 \<or> (\<exists>f \<in> set sent. fkSerial f = suSerial x \<and> fkOwed f = suNotified x)"
    and w: "suOwed x = owedSpec (orSnapshot o1) (orReadEpoch o1) (snd k) (drop (orSince o1) h)"
    unfolding sub_ok_def by blast
  have "suOwed sub = owedSpec (suOwed x) (suReadEpoch x) (snd k) (map (Pair grp) rs)"
    using sub owedSpec_other [of grp "snd k"] by (cases "snd k = grp") (simp_all add: owe_owedSpec [of x rs grp])
  moreover from this have "suNotified sub \<le> suOwed sub"
    using sub o(5) owedSpec_ge [of "suOwed x"] by (auto intro: order_trans)
  moreover have "suSerial sub = suSerial x" "suReadEpoch sub = suReadEpoch x" "suGroupId sub = suGroupId x"
    "suNotified sub = suNotified x" using sub by simp_all
  ultimately show ?thesis
    using o w since [OF o(1)] unfolding sub_ok_def by (auto simp: owedSpec_append)
qed

lemma step_publish_inv:
  assumes i: "push_inv p" and e: "published (psSubs p) grp records = (s, woke)"
  shows "push_inv (p\<lparr>psSubs := s, psLeaving := psLeaving p + (if woke then 1 else 0),
      psHistory := psHistory p @ map (Pair grp) records\<rparr>)" (is "push_inv ?p'")
proof -
  note D = push_invD [OF i] and P = published_facts [OF e]
  let ?h = "psHistory p @ map (Pair grp) records"
  have dr: "drop (orSince o1) ?h = drop (orSince o1) (psHistory p) @ map (Pair grp) records"
    if "psOrigins p n = Some o1" for n o1
    using D(6) [OF that] by simp
  have sub: "\<exists>x. map_of (ssByKey (psSubs p)) k = Some x \<and> sub = (if snd k = grp then owe x records else x)"
    if "map_of (ssByKey s) k = Some sub" for k sub
    using that by (auto simp: P(1))
  have ge: "suOwed x \<le> suOwed (owe x records)" for x
    by (metis owe_owedSpec owedSpec_ge)
  show ?thesis
  proof (rule push_invI)
    show "subs_books (psSubs ?p')" using published_books [OF D(1) e] by simp
    fix k sub assume "map_of (ssByKey (psSubs ?p')) k = Some sub"
    then have k: "map_of (ssByKey s) k = Some sub" by simp
    then obtain x where x: "map_of (ssByKey (psSubs p)) k = Some x"
      "sub = (if snd k = grp then owe x records else x)" using sub by blast
    from D(3) [OF x(1)] show "sub_ok (psOrigins ?p') (psHistory ?p') (psSent ?p') k sub"
      using sub_ok_publish [OF _ _ x(2)] D(6) by simp
    assume w: "suNotified sub < suOwed sub"
    show "waiting (ssReady (psSubs ?p')) (psFlight ?p') k sub"
    proof (cases "snd k = grp \<and> records \<noteq> []")
      case True
      then show ?thesis using P(8) [OF k] w by (simp add: waiting_def)
    next
      case False
      then have "sub = x" using x(2) by (auto simp: owe_def)
      then show ?thesis using D(4) [OF x(1)] w P(6) by (auto simp: waiting_def)
    qed
  next
    fix f assume "f \<in> set (psSent ?p')"
    then show "sent_ok (psOrigins ?p') (psHistory ?p') f"
      using D(7) [of f] unfolding sent_ok_def by (simp del: drop_append) (metis Un_iff dr set_append)
  next
    fix f assume "psFlight ?p' = Some f"
    then show "flight_ok (ssByKey (psSubs ?p')) (psSent ?p') (psDraining ?p') f"
      using D(8) [of f] ge by (auto simp: flight_ok_def P(1) intro: order_trans)
  next
    show "psSignal ?p' \<or> psDraining ?p' \<or> 0 < psLeaving ?p'" if "ssReady (psSubs ?p') \<noteq> []"
      using that D(9) P(7) by (cases woke) auto
  qed (auto simp: P(4,5) D(2) intro: D(5) trans_le_add1 D(6))
qed

lemma step_pick_inv:
  assumes i: "push_inv p" and "psDraining p" and fl: "psFlight p = None"
    and k: "map_of (ssByKey (psSubs p)) key = Some sub"
  shows "push_inv (p\<lparr>psSubs := unready key (psSubs p), psFlight := Some (takeFlight key sub),
      psSent := psSent p @ [takeFlight key sub]\<rparr>)" (is "push_inv ?p'")
proof -
  note D = push_invD [OF i]
  let ?f = "takeFlight key sub"
  from D(3) [OF k] obtain o1 where o: "psOrigins p (suSerial sub) = Some o1" "orKey o1 = key"
    "suGroupId sub = snd key" "suOwed sub = owedSpec (orSnapshot o1) (orReadEpoch o1) (snd key) (drop (orSince o1) (psHistory p))"
    unfolding sub_ok_def by blast
  have f: "sent_ok (psOrigins p) (psHistory p) ?f"
    using o owedSpec_from [of "orSnapshot o1" "orReadEpoch o1" "snd key" "drop (orSince o1) (psHistory p)"]
    by (simp add: sent_ok_def takeFlight_def)
  show ?thesis
  proof (rule push_invI)
    show "subs_books (psSubs ?p')" by (rule books_cong [OF D(1)]) (simp_all add: unready_def)
    fix k' x assume "map_of (ssByKey (psSubs ?p')) k' = Some x"
    then have k': "map_of (ssByKey (psSubs p)) k' = Some x" by (simp add: unready_def)
    show "sub_ok (psOrigins ?p') (psHistory ?p') (psSent ?p') k' x"
      using sub_ok_drop_since [OF D(3) [OF k'], of "psOrigins p" "psSent ?p'"] by auto
    assume "suNotified x < suOwed x"
    from D(4) [OF k' this] k k' fl show "waiting (ssReady (psSubs ?p')) (psFlight ?p') k' x"
      by (auto simp: waiting_def unready_def takeFlight_def)
  next
    fix g assume "g \<in> set (psSent ?p')"
    then show "sent_ok (psOrigins ?p') (psHistory ?p') g" using f D(7) by auto
  next
    fix g assume "psFlight ?p' = Some g"
    then show "flight_ok (ssByKey (psSubs ?p')) (psSent ?p') (psDraining ?p') g"
      using k assms(2) by (auto simp: flight_ok_def unready_def takeFlight_def)
  next
    fix n o1 assume "psOrigins ?p' n = Some o1"
    then show "n < ssNextSerial (psSubs ?p') \<and> orSince o1 \<le> length (psHistory ?p')"
      using D(5,6) by (simp add: unready_def)
  qed (simp_all add: unready_def D(2) assms(2))
qed

lemma step_finish_inv:
  assumes i: "push_inv p" and fl: "psFlight p = Some f"
  shows "push_inv (p\<lparr>psSubs := finishPush (psSubs p) f delivered, psFlight := None\<rparr>)" (is "push_inv ?p'")
proof -
  note D = push_invD [OF i]
  let ?s = "finishPush (psSubs p) f delivered"
  have F: "flight_ok (ssByKey (psSubs p)) (psSent p) (psDraining p) f" by (rule D(8) [OF fl])
  have sub: "\<exists>x. map_of (ssByKey (psSubs p)) k = Some x \<and> sub_ok (psOrigins p) (psHistory p) (psSent p) k sub \<and>
      suSerial sub = suSerial x \<and> suOwed sub = suOwed x \<and> suNotified x \<le> suNotified sub"
    if "map_of (ssByKey ?s) k = Some sub" for k sub
  proof (cases delivered)
    case False
    then have s: "map_of (ssByKey (psSubs p)) k = Some sub"
      using map_leD [OF finishPush_False [of "psSubs p" f], of k sub] that by simp
    show ?thesis using D(3) [OF s] s by simp
  next
    case True
    with that obtain x where x: "map_of (ssByKey (psSubs p)) k = Some x"
      "sub = (if k = fkKey f \<and> suSerial x = fkSerial f \<and> suNotified x < fkOwed f
              then x\<lparr>suNotified := fkOwed f\<rparr> else x)"
      by (auto simp: finishPush_True split: option.splits)
    from D(3) [OF x(1)] have "sub_ok (psOrigins p) (psHistory p) (psSent p) k sub"
      using x F unfolding sub_ok_def flight_ok_def by (auto split: if_splits)
    with x show ?thesis by auto
  qed
  show ?thesis
  proof (rule push_invI)
    show "subs_books (psSubs ?p')" using finishPush_books [OF D(1)] by simp
    fix k y assume "map_of (ssByKey (psSubs ?p')) k = Some y"
    then have y: "map_of (ssByKey ?s) k = Some y" by simp
    from sub [OF y] show "sub_ok (psOrigins ?p') (psHistory ?p') (psSent ?p') k y" by auto
    assume w: "suNotified y < suOwed y"
    from sub [OF y] obtain x where x: "map_of (ssByKey (psSubs p)) k = Some x" "suSerial y = suSerial x"
      "suOwed y = suOwed x" "suNotified x \<le> suNotified y" by blast
    with w have "waiting (ssReady (psSubs p)) (psFlight p) k x" by (intro D(4)) auto
    then show "waiting (ssReady (psSubs ?p')) (psFlight ?p') k y"
      using finishPush_ready [OF y w] finishPush_fields(3) [of "psSubs p" f delivered] fl x(2)
      by (auto simp: waiting_def)
  next
    fix n o1 assume "psOrigins ?p' n = Some o1"
    then show "n < ssNextSerial (psSubs ?p') \<and> orSince o1 \<le> length (psHistory ?p')"
      using D(5,6) by (simp add: finishPush_fields)
  qed (use F in \<open>simp_all add: finishPush_fields flight_ok_def D(2,7)\<close>)
qed

lemma step_stale_inv:
  assumes i: "push_inv p" and k: "map_of (ssByKey (psSubs p)) key = None"
  shows "push_inv (p\<lparr>psSubs := unready key (psSubs p)\<rparr>)" (is "push_inv ?p'")
proof -
  note D = push_invD [OF i]
  show ?thesis
  proof (rule push_invI)
    show "subs_books (psSubs ?p')" by (rule books_cong [OF D(1)]) (simp_all add: unready_def)
    fix k' x assume "map_of (ssByKey (psSubs ?p')) k' = Some x" "suNotified x < suOwed x"
    then show "waiting (ssReady (psSubs ?p')) (psFlight ?p') k' x"
      using D(4) [of k' x] k by (auto simp: waiting_def unready_def)
  next
    show "psSignal ?p' \<or> psDraining ?p' \<or> 0 < psLeaving ?p'" if "ssReady (psSubs ?p') \<noteq> []"
      using that D(9) by (cases "ssReady (psSubs p)") (auto simp: unready_def)
  next
    fix n o1 assume "psOrigins ?p' n = Some o1"
    then show "n < ssNextSerial (psSubs ?p') \<and> orSince o1 \<le> length (psHistory ?p')"
      using D(5,6) by (simp add: unready_def)
  qed (simp_all add: unready_def D(2,3,7,8))
qed

lemma push_step_inv: "push_step p p' \<Longrightarrow> push_inv p \<Longrightarrow> push_inv p'"
proof (induction rule: push_step.induct)
  case (full p client nonce grp epoch snapshot replace s e)
  note D = push_invD [OF full(2)]
  note s = subscribe_Some [OF full(1) refl]
  show ?case
    by (rule push_inv_shrink [OF full(2) subscribe_books [OF D(1) full(1)]])
       (auto simp: s map_le_def dom_def dropConnection_lookup [OF D(1)] split: if_splits)
next
  case (unsub p client nonce grps all)
  note D = push_invD [OF unsub]
  show ?case by (rule push_inv_shrink [OF unsub unsubscribe_books [OF D(1)]]) (rule unsubscribe_facts [OF D(1)])+
next
  case (rest p)
  then show ?case by (auto simp: push_inv_def flight_ok_def simp del: split_paired_All)
next
  case (signal p n)
  then show ?case by (simp add: push_inv_def del: split_paired_All)
next
  case (wake p)
  then show ?case by (auto simp: push_inv_def flight_ok_def simp del: split_paired_All)
qed (simp_all add: step_sub_inv step_publish_inv step_pick_inv step_finish_inv step_stale_inv)

interpretation pushes: transition_system "\<lambda>p. p = startPush" push_step push_inv
  by unfold_locales (auto intro: startPush_inv push_step_inv)

lemma push_reachable: "push_step\<^sup>*\<^sup>* startPush p \<Longrightarrow> push_inv p"
  by (rule pushes.inv_reachable) simp
end
