(* ===== verification/Push_Properties.thy ===== *)
theory Push_Properties
  imports Push_Invariant
begin

text \<open>
  What a subscriber can rely on: how many subscriptions a connection holds, that delivery always can
  and does catch up with what was published, and that no push names a record above the ceiling the
  subscription was authorized at.
\<close>

section \<open>Draining\<close>




text \<open>The state with nothing left to do, and the example the witnesses use.\<close>

definition demoSub :: "Subscriptions \<times> subscription_error option" where
  "demoSub = subscribe NewSubscriptions [1] [2] [3] 4 5 False"

definition demoRegistered :: PushSystem where
  "demoRegistered = startPush\<lparr>psSubs := fst demoSub, psOrigins := [0 \<mapsto>
     \<lparr> orKey = ([1, 0, 2], [3]), orReadEpoch = 4, orSnapshot = 5, orSince = 0 \<rparr>]\<rparr>"

definition demoPublished :: PushSystem where
  "demoPublished = demoRegistered\<lparr>
     psSubs := fst (published (fst demoSub) [3] [\<lparr> pbRecordId = 6, pbEpoch = 4 \<rparr>, \<lparr> pbRecordId = 7, pbEpoch = 5 \<rparr>]),
     psLeaving := 1,
     psHistory := [([3], \<lparr> pbRecordId = 6, pbEpoch = 4 \<rparr>), ([3], \<lparr> pbRecordId = 7, pbEpoch = 5 \<rparr>)]\<rparr>"

definition demoFlight :: flight where
  "demoFlight = \<lparr> fkKey = ([1, 0, 2], [3]), fkSerial = 0, fkOwed = 6, fkClientId = [1], fkServerNonce = [2],
     fkGroupId = [3] \<rparr>"

definition demoFlying :: PushSystem where
  "demoFlying = demoPublished\<lparr>psSubs := unready ([1, 0, 2], [3]) (psSubs demoPublished),
     psLeaving := 0, psDraining := True, psFlight := Some demoFlight, psSent := [demoFlight]\<rparr>"

definition demoRested :: PushSystem where
  "demoRested = demoFlying\<lparr>psSubs := finishPush (psSubs demoFlying) demoFlight True, psFlight := None,
     psDraining := False\<rparr>"

definition demoMissed :: PushSystem where
  "demoMissed = startPush\<lparr>psSubs := fst demoSub, psHistory := [([3], \<lparr> pbRecordId = 6, pbEpoch = 4 \<rparr>)],
     psOrigins := [0 \<mapsto> \<lparr> orKey = ([1, 0, 2], [3]), orReadEpoch = 4, orSnapshot = 5, orSince = 1 \<rparr>]\<rparr>"

lemmas demo_push_defs = demoSub_def demoRegistered_def demoPublished_def demoFlight_def demoFlying_def
  demoRested_def demoMissed_def startPush_def NewSubscriptions_def subscribe_def Let_def connectionKeyOf_def
  groupsOf_def DefaultMaxSubscriptionsPerConnection_def published_def owe_def isReady_def unready_def
  takeFlight_def finishPush_def








lemma quiet_nothing_waits:
  assumes "push_inv p" and "quiet p" and "map_of (ssByKey (psSubs p)) k = Some sub"
  shows "suNotified sub = suOwed sub"
proof -
  note D = push_invD [OF assms(1)]
  have "psFlight p = None"
    using D(8) assms(2) by (cases "psFlight p") (auto simp: flight_ok_def quiet_def)
  moreover have "ssReady (psSubs p) = []" using D(9) assms(2) by (auto simp: quiet_def)
  ultimately have "\<not> suNotified sub < suOwed sub" using D(4) [OF assms(3)] by (auto simp: waiting_def)
  with D(3) [OF assms(3)] show ?thesis by (auto simp: sub_ok_def)
qed

lemma books_connections:
  assumes "subs_books s"
  shows "dom (map_of (ssByConnection s)) = fst ` subKeys s"
proof -
  have ok: "groups_ok False (ssMaxPerConnection s) (map_of (ssByConnection s) c) (keysOf s c)" for c
    using assms by (simp add: books_but_def)
  have "c \<in> dom (map_of (ssByConnection s)) \<longleftrightarrow> keysOf s c \<noteq> {}" for c
    using ok [of c] by (auto simp: groups_ok_def split: option.splits)
  then show ?thesis by (force simp: keysOf_def image_iff)
qed

lemma books_cap:
  assumes "subs_books s" and "0 \<le> ssMaxPerConnection s"
  shows "int (card {k \<in> subKeys s. fst k = c}) \<le> ssMaxPerConnection s"
proof -
  have "{k \<in> subKeys s. fst k = c} = Pair c ` keysOf s c" by (auto simp: keysOf_def)
  moreover have "groups_ok False (ssMaxPerConnection s) (map_of (ssByConnection s) c) (keysOf s c)"
    using assms(1) by (simp add: books_but_def)
  ultimately show ?thesis
    using assms(2)
    by (auto simp: groups_ok_def card_image inj_on_def split: option.splits) (metis distinct_card)
qed

lemma demo_registered: "push_step\<^sup>*\<^sup>* startPush demoRegistered"
proof -
  have "subscribe (psSubs startPush) [1] [2] [3] 4 5 False = (fst demoSub, None)"
    by (simp add: demo_push_defs)
  from push_step.sub [OF this] have "push_step startPush demoRegistered" by (simp add: demo_push_defs)
  then show ?thesis ..
qed

lemma demo_published: "push_step demoRegistered demoPublished"
  using push_step.publish [of demoRegistered "[3]"
      "[\<lparr> pbRecordId = 6, pbEpoch = 4 \<rparr>, \<lparr> pbRecordId = 7, pbEpoch = 5 \<rparr>]"]
  by (simp add: demo_push_defs)

lemma demo_flying: "push_step\<^sup>*\<^sup>* demoPublished demoFlying"
proof -
  let ?a = "demoPublished\<lparr>psLeaving := 0, psSignal := True\<rparr>"
  let ?b = "?a\<lparr>psSignal := False, psDraining := True\<rparr>"
  have "push_step demoPublished ?a" by (rule push_step.signal) (simp add: demo_push_defs)
  moreover have "push_step ?a ?b" by (rule push_step.wake) (simp_all add: demo_push_defs)
  moreover have "push_step ?b demoFlying"
    using push_step.pick [of ?b "([1, 0, 2], [3])"] by (simp add: demo_push_defs)
  ultimately show ?thesis by (meson converse_rtranclp_into_rtranclp rtranclp.rtrancl_refl)
qed

lemma demo_rested: "push_step\<^sup>*\<^sup>* demoFlying demoRested"
proof -
  let ?a = "demoFlying\<lparr>psSubs := finishPush (psSubs demoFlying) demoFlight True, psFlight := None\<rparr>"
  have "push_step demoFlying ?a" by (rule push_step.finish) (simp add: demoFlying_def)
  moreover have "push_step ?a demoRested"
    using push_step.rest [of ?a] by (simp add: demo_push_defs)
  ultimately show ?thesis by (meson converse_rtranclp_into_rtranclp rtranclp.rtrancl_refl)
qed

lemma demo_reachable: "push_step\<^sup>*\<^sup>* startPush demoFlying" "push_step\<^sup>*\<^sup>* startPush demoRested"
  using demo_registered demo_published demo_flying demo_rested by (meson rtranclp.rtrancl_into_rtrancl rtranclp_trans)+

section \<open>Properties\<close>

text \<open>
  Subscriptions are bounded and their index is exact. After any sequence of subscribing,
  unsubscribing, publishing and delivering, no connection holds more than 32 subscriptions, and the
  number of connections the statistics report is the number of connections that hold one: a
  connection whose last subscription ended leaves nothing behind.
\<close>
theorem subscriptions_capped:
  assumes "push_step\<^sup>*\<^sup>* startPush p"
  shows "card {k \<in> dom (map_of (ssByKey (psSubs p))). fst k = c} \<le> 32 \<and>
     stConnections (Stats (psSubs p)) = of_nat (card (fst ` dom (map_of (ssByKey (psSubs p))))) \<and>
     stSubscriptions (Stats (psSubs p)) = of_nat (card (dom (map_of (ssByKey (psSubs p)))))"
proof -
  note D = push_invD [OF push_reachable [OF assms]]
  have "length (ssByConnection (psSubs p)) = card (dom (map_of (ssByConnection (psSubs p))))"
    "length (ssByKey (psSubs p)) = card (dom (map_of (ssByKey (psSubs p))))"
    using D(1) by (auto simp: books_but_def dom_map_of_conv_image_fst distinct_card simp flip: set_map)
  with books_cap [OF D(1), of c] books_connections [OF D(1)] D(2) show ?thesis
    by (simp add: Stats_def subKeys_def DefaultMaxSubscriptionsPerConnection_def)
qed

theorem subscriptions_capped_witness:
  "card {k \<in> dom (map_of (ssByKey (psSubs demoRested))). fst k = [1, 0, 2]} \<le> 32 \<and>
   dom (map_of (ssByKey (psSubs demoRested))) = {([1, 0, 2], [3])} \<and>
   stConnections (Stats (psSubs demoRested)) = of_nat (card (fst ` dom (map_of (ssByKey (psSubs demoRested)))))"
proof -
  have "dom (map_of (ssByKey (psSubs demoRested))) = {([1, 0, 2], [3])}" by (auto simp: demo_push_defs)
  with subscriptions_capped [OF demo_reachable(2), of "[1, 0, 2]"] show ?thesis by blast
qed

text \<open>
  C32: A subscriber is told of everything it may read. Whenever the delivery has come to rest, every
  standing subscription has been notified of exactly the highest of its snapshot and the records
  published to its group since it was registered whose epoch is at or below its ceiling, however
  publishing, delivery and other subscriptions interleaved; and what it was notified of is its
  snapshot or the value of a push that was sent to it.
\<close>
theorem push_catches_up:
  assumes "push_step\<^sup>*\<^sup>* startPush p" and "quiet p" and "map_of (ssByKey (psSubs p)) k = Some sub"
  shows "\<exists>o1. psOrigins p (suSerial sub) = Some o1 \<and> orKey o1 = k \<and>
     suNotified sub = owedSpec (orSnapshot o1) (orReadEpoch o1) (snd k) (drop (orSince o1) (psHistory p)) \<and>
     (suNotified sub = orSnapshot o1 \<or>
      (\<exists>f \<in> set (psSent p). fkSerial f = suSerial sub \<and> fkOwed f = suNotified sub))"
proof -
  note i = push_reachable [OF assms(1)]
  show ?thesis
    using push_invD(3) [OF i assms(3)] quiet_nothing_waits [OF i assms(2,3)] unfolding sub_ok_def by auto
qed

theorem push_catches_up_witness:
  "quiet demoRested \<and> (\<exists>sub. map_of (ssByKey (psSubs demoRested)) ([1, 0, 2], [3]) = Some sub \<and>
     suNotified sub = 6 \<and> (\<exists>f \<in> set (psSent demoRested). fkSerial f = suSerial sub \<and> fkOwed f = 6))"
proof -
  obtain sub where s: "map_of (ssByKey (psSubs demoRested)) ([1, 0, 2], [3]) = Some sub"
    "suSerial sub = 0" by (simp add: demo_push_defs)
  have q: "quiet demoRested" by (simp add: quiet_def demo_push_defs)
  from push_catches_up [OF demo_reachable(2) q s(1)] s q show ?thesis
    by (simp add: demo_push_defs owedSpec_def)
qed



text \<open>
  No push goes above a subscription's ceiling. Every push ever sent was for the group of a
  registration that was made, and the record it names is the snapshot that registration started from
  or a record published to that group after it, whose epoch is at or below the epoch the
  subscription was authorized at.
\<close>
theorem push_under_ceiling:
  assumes "push_step\<^sup>*\<^sup>* startPush p" and "f \<in> set (psSent p)"
  shows "\<exists>o1. psOrigins p (fkSerial f) = Some o1 \<and> orKey o1 = fkKey f \<and> fkGroupId f = snd (fkKey f) \<and>
     (fkOwed f = orSnapshot o1 \<or>
      (\<exists>r. (fkGroupId f, r) \<in> set (drop (orSince o1) (psHistory p)) \<and> pbEpoch r \<le> orReadEpoch o1 \<and>
           pbRecordId r = fkOwed f))"
  using push_invD(7) [OF push_reachable [OF assms(1)] assms(2)] unfolding sent_ok_def .

theorem push_under_ceiling_witness:
  "demoFlight \<in> set (psSent demoFlying) \<and>
   (\<exists>o1. psOrigins demoFlying 0 = Some o1 \<and> fkOwed demoFlight \<noteq> orSnapshot o1 \<and>
     (\<exists>r. ([3], r) \<in> set (drop (orSince o1) (psHistory demoFlying)) \<and> pbEpoch r \<le> orReadEpoch o1 \<and>
       pbRecordId r = fkOwed demoFlight))"
  using push_under_ceiling [OF demo_reachable(1), of demoFlight]
  by (simp add: demoFlying_def demoPublished_def demoRegistered_def demoFlight_def)

text \<open>
  A record published between the reading of a subscription's snapshot and its registration is
  neither in the snapshot nor ever pushed: at rest, with the record readable at the subscription's
  ceiling and above its snapshot, the subscriber has been told of neither.
\<close>
lemma snapshot_race:
  "push_step\<^sup>*\<^sup>* startPush demoMissed \<and> quiet demoMissed \<and>
   (\<exists>sub r. map_of (ssByKey (psSubs demoMissed)) ([1, 0, 2], [3]) = Some sub \<and>
      ([3], r) \<in> set (psHistory demoMissed) \<and> pbEpoch r \<le> suReadEpoch sub \<and>
      suNotified sub < pbRecordId r \<and> psSent demoMissed = [])"
proof -
  let ?a = "startPush\<lparr>psHistory := [([3], \<lparr> pbRecordId = 6, pbEpoch = 4 \<rparr>)]\<rparr>"
  have "push_step startPush ?a"
    using push_step.publish [of startPush "[3]" "[\<lparr> pbRecordId = 6, pbEpoch = 4 \<rparr>]" NewSubscriptions False]
    by (simp add: demo_push_defs)
  moreover have "push_step ?a demoMissed"
    using push_step.sub [of ?a "[1]" "[2]" "[3]" 4 5 False] by (simp add: demo_push_defs)
  ultimately have "push_step\<^sup>*\<^sup>* startPush demoMissed" by (meson converse_rtranclp_into_rtranclp rtranclp.rtrancl_refl)
  then show ?thesis by (simp add: quiet_def) (simp add: demo_push_defs)
qed

end
