(* ===== verification/Record_Layer.thy ===== *)
theory Record_Layer
  imports Records
begin

text \<open>
  What the request handlers take from outside this repository: the record layer
  (\<open>github.com/urnetwork/message/message\<close>) and the generated wire types of the protocol. Its types
  are records of the fields the handlers read or write; its functions are the fields of
  \<open>RecordLayer\<close>, an argument of every definition that calls one. Nothing is assumed of them here;
  a theorem that needs what the library documents states it as a hypothesis.

  A nil slice is told from an empty one where a column of the store is copied from it.
\<close>

section \<open>The record layer's types\<close>

datatype mError = ErrServerAttachmentKindNotServed | ErrRetentionClassUnknown | OtherError nat

datatype mKind =
    KindNone
  | KindEpoch
  | KindWrap
  | KindRecovery
  | KindComplete
  | KindEpochDigest
  | KindOther u16

record mEpoch =
  meEpoch :: u64
  meWriteKey :: bytes
  meReadKey :: bytes
  meAlgId :: u16
  meMediaTtlSeconds :: u32
  meDurableTtlSeconds :: u32
  meGroupContextHash :: "bytes option"
  meExpectedWrapCount :: u32

record mEpochDigest =
  mdEpoch :: u64
  mdAlgId :: u16
  mdMediaTtlSeconds :: u32
  mdDurableTtlSeconds :: u32
  mdGroupContextHash :: "bytes option"
  mdExpectedWrapCount :: u32
  mdEpochKeysDigest :: bytes

record mRecovery =
  mrRecoveryHandle :: bytes
  mrRecoveryVerifyPub :: bytes
  mrAlgId :: u16

record mComplete =
  mcEpoch :: u64
  mcWrapCount :: u32

text \<open>\<open>message.ServerAttachment\<close>: a tag and one pointer per kind. Of a wrap only its target is read.\<close>

record mAttachment =
  maKind :: mKind
  maEpoch :: "mEpoch option"
  maWrap :: "bytes option"
  maRecovery :: "mRecovery option"
  maComplete :: "mComplete option"
  maEpochDigest :: "mEpochDigest option"

text \<open>\<open>message.Record\<close>. Group id, sender handle and body hash are arrays of fixed width.\<close>

record mRecord =
  mhGroupId :: bytes
  mhSenderHandle :: bytes
  mhEpoch :: u64
  mhStreamIndex :: u64
  mhIsCommit :: bool
  mhRetentionClass :: u8
  mhEphBucket :: u8
  mhEphWindow :: u64
  mhSizeBucket :: u8
  mhExpireAt :: u64
  mhBodyHash :: bytes
  mhBlobId :: "bytes option"
  mhServerAttachment :: bytes
  mCtHead :: bytes
  mCtBody :: "bytes option"
  mWriteAuth :: bytes

section \<open>The wire types\<close>

text \<open>
  \<open>protocol.Record\<close>: \<open>record_bytes\<close>, which is authoritative, and the projection of it that the server
  indexes. \<open>prUnknown\<close> stands for fields a newer client set.
\<close>

record pRecord =
  prRecordBytes :: bytes
  prRecordId :: u64
  prSenderHandle :: bytes
  prEpoch :: u64
  prStreamIndex :: u64
  prIsCommit :: bool
  prRetentionClass :: u32
  prSizeBucket :: u32
  prExpireAtMs :: u64
  prBodyHash :: bytes
  prBlobId :: "bytes option"
  prWrapTargetHandle :: "bytes option"
  prRecoveryHandle :: "bytes option"
  prUnknown :: bytes

record pSubmitRequest =
  psGroupId :: bytes
  psRecords :: "pRecord option list"
  psEpochKeys :: "EpochKeyDelivery option list"

record pSubmitResult =
  pxReason :: reason
  pxRecordId :: u64
  pxCurrentEpoch :: u64
  pxWinningCommit :: "pRecord option"
  pxApplied :: "RetentionApplied option"

record pCreateGroupRequest =
  pcGroupId :: bytes
  pcInitialCommit :: "pRecord option"
  pcBootstrapWriteKey :: bytes
  pcEpochKeys :: "EpochKeyDelivery option"

record pCreateGroupResponse =
  pcCurrentEpoch :: u64
  pcRecordId :: u64
  pcApplied :: "RetentionApplied option"

record pFetchRequest =
  pfGroupId :: bytes
  pfSinceRecordId :: u64
  pfLimit :: u32
  pfHeadsOnly :: bool
  pfClassMask :: u32
  pfReadEpoch :: u64
  pfReqAuth :: bytes

record pFetchResponse =
  pfRecords :: "pRecord list"
  pfNextRecordId :: u64
  pfHighWaterRecordId :: u64
  pfComplete :: bool

record pSubscribeRequest =
  pbSubscriptions :: "(bytes \<times> u64) list"
  pbReadEpoch :: u64
  pbReplace :: bool
  pbReqAuth :: bytes

record pSubscriptionAck =
  paGroupId :: bytes
  paSnapshotRecordId :: u64
  paReason :: reason

record pUnsubscribeRequest =
  puGroupIds :: "bytes list"
  puAll :: bool

section \<open>The library's functions\<close>

text \<open>The arms of a request whose \<open>op\<close> byte is read from the compiled descriptor.\<close>

datatype arm_of_body = SubmitArm | CreateGroupArm | FetchArm | SubscribeArm | UnsubscribeArm
  | RendezvousRegisterArm | RendezvousOpenArm | RendezvousDepositArm | RendezvousCollectArm | RendezvousRetireArm

record RecordLayer =
  ParseRecord :: "bytes \<Rightarrow> mError + mRecord"
  EncodeRecord :: "mRecord \<Rightarrow> mError + bytes"
  ParseServerAttachment :: "bytes \<Rightarrow> mError + mAttachment"
  ParseEpochDigestAttachment :: "bytes \<Rightarrow> mError + mEpochDigest"
  CheckEpochKeysDigest :: "bytes \<Rightarrow> mEpochDigest \<Rightarrow> bytes \<Rightarrow> bytes \<Rightarrow> mError option"
  VerifyWriteAuth :: "bytes \<Rightarrow> bytes \<Rightarrow> mRecord \<Rightarrow> bool"
  VerifyRequestAuth :: "bytes \<Rightarrow> bytes \<Rightarrow> u8 \<Rightarrow> bytes \<Rightarrow> bytes \<Rightarrow> bool"
  RetentionClassWire :: "u8 \<Rightarrow> u8 \<Rightarrow> mError + u8"
  RetentionClassOf :: "u8 \<Rightarrow> mError + u8 \<times> u8"
  RetentionEph :: u8
  ZeroWriteAuth :: bytes
  EphBucketSeconds :: "u8 \<Rightarrow> int"
  SizeBucketBlob :: u8
  SizeBucketCtBodyBytes :: "u8 \<Rightarrow> int"
  SizeBucket64KBytes :: int
  ContentSHA256 :: hash
  protoEqual :: "pRecord \<Rightarrow> pRecord \<Rightarrow> bool"
  marshalFetch :: "pFetchRequest \<Rightarrow> bytes option"
  marshalSubscribe :: "pSubscribeRequest \<Rightarrow> bytes option"
  armNumber :: "arm_of_body \<Rightarrow> int option"

end
