(* ===== verification/Api_Handler.thy ===== *)
theory Api_Handler
  imports Record_Layer Memory_Store Connections Subscriptions
begin

text \<open>
  The request handler's collaborators and what every operation shares (\<open>src/api/api.go\<close>): the
  configuration and its defaults, the known-group filters of check 5, the op byte, the front checks
  and the padding of refusals.

  The store is the interface \<open>store.Store\<close>, a record of its operations over a state type;
  \<open>memoryOps\<close> is \<open>MemoryStore\<close> behind it. The two filters share their state, the ids they hold. What
  a handler reads and changes is a \<open>World\<close>; clocks are arguments. A nil dereference is \<open>None\<close>.
  Whether a subscription registry and a link box store are configured is a flag each; the stores
  themselves are the operations' arguments.
\<close>

section \<open>The store behind the handler\<close>

record 's Store =
  stGroupState :: "ctx \<Rightarrow> 's \<Rightarrow> bytes \<Rightarrow> store_error + GroupState"
  stEpochKeys :: "ctx \<Rightarrow> 's \<Rightarrow> bytes \<Rightarrow> u64 \<Rightarrow> store_error + EpochKeys"
  stFetch :: "ctx \<Rightarrow> 's \<Rightarrow> FetchRequest \<Rightarrow> store_error + FetchResult"
  stCreateGroup :: "ctx \<Rightarrow> 's \<Rightarrow> CreateGroupRequest \<Rightarrow> ('s \<times> (store_error + CreateGroupResult)) option"
  stSubmit :: "ctx \<Rightarrow> 's \<Rightarrow> SubmitRequest \<Rightarrow> ('s \<times> (store_error + SubmitResult list)) option"

definition memoryOps :: "hash \<Rightarrow> time \<Rightarrow> MemoryStore Store" where
  "memoryOps H now =
     \<lparr> stGroupState = MemoryStore_GroupState, stEpochKeys = MemoryStore_EpochKeys, stFetch = Fetch,
       stCreateGroup = \<lambda>ctx. CreateGroup H ctx now, stSubmit = \<lambda>ctx. Submit H ctx now \<rparr>"

section \<open>The known-group filter\<close>

datatype KnownGroups = memoryKnownGroups | storeKnownGroups

type_synonym knownIds = "bytes list"

definition memory_Contains :: "knownIds \<Rightarrow> bytes \<Rightarrow> bool" where
  "memory_Contains ids groupId \<longleftrightarrow> groupId \<in> set ids"

definition known_Insert :: "knownIds \<Rightarrow> bytes \<Rightarrow> knownIds" where
  "known_Insert ids groupId = List.insert groupId ids"

definition store_Contains ::
  "'s Store \<Rightarrow> ctx \<Rightarrow> 's \<Rightarrow> knownIds \<Rightarrow> bytes \<Rightarrow> knownIds \<times> (store_error + bool)" where
  "store_Contains ops ctx s ids groupId =
     (if groupId \<in> set ids then (ids, Inr True)
      else case stGroupState ops ctx s groupId of
          Inl e \<Rightarrow> (ids, if e = ErrGroupUnavailable then Inr False else Inl e)
        | Inr _ \<Rightarrow> (known_Insert ids groupId, Inr True))"

definition Contains ::
  "KnownGroups \<Rightarrow> 's Store \<Rightarrow> ctx \<Rightarrow> 's \<Rightarrow> knownIds \<Rightarrow> bytes \<Rightarrow> knownIds \<times> (store_error + bool)" where
  "Contains kind ops ctx s ids groupId =
     (case kind of
        memoryKnownGroups \<Rightarrow> (ids, Inr (memory_Contains ids groupId))
      | storeKnownGroups \<Rightarrow> store_Contains ops ctx s ids groupId)"

section \<open>The handler\<close>

datatype api_error =
    ErrNoStore
  | ErrNoKnownGroups
  | ErrNoFrontChecks
  | ErrNoConnection
  | ErrNoOpForBody
  | ErrNegativeRejectFloor
  | StoreError store_error
  | LibraryError mError

record FrontChecks =
  fcFrameWithinLimits :: "ApiConnection \<Rightarrow> reason"
  fcConnectionAuthenticated :: "ApiConnection \<Rightarrow> reason"
  fcWithinRateLimits :: "ApiConnection \<Rightarrow> u8 \<Rightarrow> reason"

definition ChecksNotImplemented :: FrontChecks where
  "ChecksNotImplemented =
     \<lparr> fcFrameWithinLimits = \<lambda>_. REASON_OK, fcConnectionAuthenticated = \<lambda>_. REASON_OK,
       fcWithinRateLimits = \<lambda>_ _. REASON_OK \<rparr>"

definition DefaultMaxCtHeadBytes :: "RecordLayer \<Rightarrow> int" where
  "DefaultMaxCtHeadBytes L = SizeBucket64KBytes L"

definition DefaultMaxRecordsPerSubmit :: int where "DefaultMaxRecordsPerSubmit = 256"
definition DefaultMaxRecordsPerFetch :: int where "DefaultMaxRecordsPerFetch = 512"
definition DefaultLinkBoxTtl :: duration where "DefaultLinkBoxTtl = 600 * 1000000000"
definition DefaultLinkBoxLiveCap :: u64 where "DefaultLinkBoxLiveCap = 10000"

record 's Config =
  cgStore :: "'s Store option"
  cgKnownGroups :: "KnownGroups option"
  cgFront :: "FrontChecks option"
  cgMaxCtHeadBytes :: int
  cgMaxRecordsPerSubmit :: int
  cgMaxRecordsPerFetch :: int
  cgRejectFloor :: duration
  cgSubscriptions :: bool
  cgLinkBoxes :: bool
  cgLinkBoxTtl :: duration
  cgLinkBoxLiveCap :: u64

record 's Handler =
  hStore :: "'s Store"
  hKnownGroups :: KnownGroups
  hFront :: FrontChecks
  hMaxCtHeadBytes :: int
  hMaxRecordsPerSubmit :: int
  hMaxRecordsPerFetch :: int
  hRejectFloor :: duration
  hSubscriptions :: bool
  hLinkBoxes :: bool
  hLinkBoxTtl :: duration
  hLinkBoxLiveCap :: u64

definition newHandler :: "RecordLayer \<Rightarrow> 's Config \<Rightarrow> api_error + 's Handler" where
  "newHandler L config =
     (case cgStore config of
        None \<Rightarrow> Inl ErrNoStore
      | Some ops \<Rightarrow>
         (case cgKnownGroups config of
            None \<Rightarrow> Inl ErrNoKnownGroups
          | Some known \<Rightarrow>
             (case cgFront config of
                None \<Rightarrow> Inl ErrNoFrontChecks
              | Some front \<Rightarrow>
                 (if cgRejectFloor config < 0 then Inl ErrNegativeRejectFloor
                  else Inr
                    \<lparr> hStore = ops, hKnownGroups = known, hFront = front,
                      hMaxCtHeadBytes = (if cgMaxCtHeadBytes config = 0 then DefaultMaxCtHeadBytes L
                                         else cgMaxCtHeadBytes config),
                      hMaxRecordsPerSubmit =
                        (if cgMaxRecordsPerSubmit config = 0 then DefaultMaxRecordsPerSubmit
                         else cgMaxRecordsPerSubmit config),
                      hMaxRecordsPerFetch =
                        (if cgMaxRecordsPerFetch config = 0 then DefaultMaxRecordsPerFetch
                         else cgMaxRecordsPerFetch config),
                      hRejectFloor = cgRejectFloor config,
                      hSubscriptions = cgSubscriptions config, hLinkBoxes = cgLinkBoxes config,
                      hLinkBoxTtl = (if cgLinkBoxTtl config = 0 then DefaultLinkBoxTtl else cgLinkBoxTtl config),
                      hLinkBoxLiveCap = (if cgLinkBoxLiveCap config = 0 then DefaultLinkBoxLiveCap
                                         else cgLinkBoxLiveCap config) \<rparr>))))"

text \<open>What the handler reads and changes: the store, the filter's ids and the subscriptions.\<close>

record 's World =
  wStore :: 's
  wKnown :: knownIds
  wSubs :: Subscriptions

text \<open>
  The clock readings of one request: when it started, the one each record's window is compared with,
  and the one the padding is measured at.
\<close>

record Clock =
  ckStarted :: time
  ckShape :: "nat \<Rightarrow> time"
  ckPad :: time

text \<open>
  What an operation answers: the envelope's reason, a body if there is one, an error no client can
  cause, and, when the answer is padded, how long it must still wait.
\<close>

record 'r Answer =
  anReason :: reason
  anBody :: "'r option"
  anErr :: "api_error option"
  anPad :: "duration option"

definition pad :: "'s Handler \<Rightarrow> Clock \<Rightarrow> duration option" where
  "pad h ck = (if hRejectFloor h \<le> 0 then None else Some (hRejectFloor h - (ckPad ck - ckStarted ck)))"

definition bare :: "reason \<Rightarrow> 'r Answer" where
  "bare r = \<lparr> anReason = r, anBody = None, anErr = None, anPad = None \<rparr>"

definition failed :: "api_error \<Rightarrow> 'r Answer" where
  "failed e = \<lparr> anReason = REASON_INTERNAL, anBody = None, anErr = Some e, anPad = None \<rparr>"

definition padded :: "'s Handler \<Rightarrow> Clock \<Rightarrow> reason \<Rightarrow> 'r Answer" where
  "padded h ck r = \<lparr> anReason = r, anBody = None, anErr = None, anPad = pad h ck \<rparr>"

definition opOf :: "RecordLayer \<Rightarrow> arm_of_body \<Rightarrow> api_error + u8" where
  "opOf L a =
     (case armNumber L a of
        None \<Rightarrow> Inl ErrNoOpForBody
      | Some n \<Rightarrow> if n < 0 \<or> 255 < n then Inl ErrNoOpForBody else Inr (word_of_int n))"

definition frontChecks :: "'s Handler \<Rightarrow> ApiConnection \<Rightarrow> u8 \<Rightarrow> reason" where
  "frontChecks h conn op =
     (if fcFrameWithinLimits (hFront h) conn \<noteq> REASON_OK then fcFrameWithinLimits (hFront h) conn
      else if fcConnectionAuthenticated (hFront h) conn \<noteq> REASON_OK
           then fcConnectionAuthenticated (hFront h) conn
      else fcWithinRateLimits (hFront h) conn op)"

text \<open>
  What stands in front of every operation: a connection, a request, its op byte and the front
  checks. The rest runs only behind them.
\<close>

definition behindFront ::
  "RecordLayer \<Rightarrow> 's Handler \<Rightarrow> Clock \<Rightarrow> arm_of_body \<Rightarrow> ApiConnection option \<Rightarrow> 'q option \<Rightarrow> 'w \<Rightarrow>
   (ApiConnection \<Rightarrow> 'q \<Rightarrow> u8 \<Rightarrow> ('w \<times> 'r Answer) option) \<Rightarrow> ('w \<times> 'r Answer) option" where
  "behindFront L h ck a conn request w k =
     (case conn of
        None \<Rightarrow> Some (w, failed ErrNoConnection)
      | Some c \<Rightarrow>
         (case request of
            None \<Rightarrow> Some (w, bare REASON_REJECTED)
          | Some q \<Rightarrow>
             (case opOf L a of
                Inl e \<Rightarrow> Some (w, failed e)
              | Inr op \<Rightarrow>
                 (if frontChecks h c op \<noteq> REASON_OK then Some (w, padded h ck (frontChecks h c op))
                  else k c q op))))"

end
