(* ===== verification/Api_Submit.thy ===== *)
theory Api_Submit
  imports Api_Handler
begin

text \<open>
  The write path of the request handler: the attachment doors and the alignment of delivered epoch
  keys (\<open>src/api/epochkeys.go\<close>), and \<open>Submit\<close> and \<open>CreateGroup\<close> through the checks in front of the
  store's transaction (\<open>src/api/submit.go\<close>).

  A \<open>recordPass\<close> is made by check 3, which fills in the parse every later check reads. The stages are
  a list, run in its order, each answering the pass, the world and a refusal.
\<close>

section \<open>Attachments and delivered keys\<close>

definition parseServerAttachment :: "RecordLayer \<Rightarrow> bytes \<Rightarrow> mError + mAttachment" where
  "parseServerAttachment L bs =
     (case ParseServerAttachment L bs of
        Inr attachment \<Rightarrow> Inr attachment
      | Inl err \<Rightarrow>
         (if err \<noteq> ErrServerAttachmentKindNotServed then Inl err
          else case ParseEpochDigestAttachment L bs of
              Inl _ \<Rightarrow> Inl err
            | Inr digest \<Rightarrow> Inr \<lparr> maKind = KindEpochDigest, maEpoch = None, maWrap = None, maRecovery = None,
                maComplete = None, maEpochDigest = Some digest \<rparr>))"

definition isEpochKind :: "mKind \<Rightarrow> bool" where
  "isEpochKind k = (case k of KindEpoch \<Rightarrow> True | KindEpochDigest \<Rightarrow> True | _ \<Rightarrow> False)"

definition opensEpochOf :: "mAttachment option \<Rightarrow> u64 \<times> bool" where
  "opensEpochOf attachment =
     (case attachment of
        None \<Rightarrow> (0, False)
      | Some a \<Rightarrow>
         (case maKind a of
            KindEpoch \<Rightarrow> (case maEpoch a of None \<Rightarrow> (0, False) | Some e \<Rightarrow> (meEpoch e, True))
          | KindEpochDigest \<Rightarrow> (case maEpochDigest a of None \<Rightarrow> (0, False) | Some e \<Rightarrow> (mdEpoch e, True))
          | _ \<Rightarrow> (0, False)))"

record recordPass =
  rpProjection :: pRecord
  rpParsed :: mRecord
  rpAttachment :: mAttachment
  rpWriteKey :: bytes

datatype alignment_error =
    ErrEpochKeysLength
  | ErrEpochKeysOnNonCommit
  | ErrEpochKeysMissing
  | ErrEpochKeysUnwanted
  | ErrEpochKeyWidth
  | ErrEpochKeysEmptyEntry
  | ErrGroupIdShape
  | ErrDigest mError

definition wholeSubmission :: int where "wholeSubmission = -1"

fun alignLoop ::
  "EpochKeyDelivery option list \<Rightarrow> nat \<Rightarrow> EpochKeyDelivery option \<times> int \<Rightarrow> recordPass list \<Rightarrow>
   alignment_error \<times> int + EpochKeyDelivery option \<times> int" where
  "alignLoop deliveries index wanted [] = Inr wanted"
| "alignLoop deliveries index wanted (r # rs) =
     (let delivery = (if index < length deliveries then deliveries ! index else None);
          isCommit = mhIsCommit (rpParsed r);
          digestKind = (maKind (rpAttachment r) = KindEpochDigest)
      in if delivery \<noteq> None \<and> \<not> isCommit then Inl (ErrEpochKeysOnNonCommit, int index)
         else if \<not> isCommit then alignLoop deliveries (Suc index) wanted rs
         else if digestKind \<and> delivery = None then Inl (ErrEpochKeysMissing, int index)
         else if \<not> digestKind \<and> delivery \<noteq> None then Inl (ErrEpochKeysUnwanted, int index)
         else case delivery of
             None \<Rightarrow> alignLoop deliveries (Suc index) wanted rs
           | Some d \<Rightarrow>
              (if length (kdWriteKey d) = 0 \<and> length (kdReadKey d) = 0
               then Inl (ErrEpochKeysEmptyEntry, int index)
               else if length (kdWriteKey d) \<noteq> EpochKeyBytes \<or> length (kdReadKey d) \<noteq> EpochKeyBytes
               then Inl (ErrEpochKeyWidth, int index)
               else alignLoop deliveries (Suc index) (Some d, int index) rs))"

definition epochKeyAlignment ::
  "recordPass list \<Rightarrow> EpochKeyDelivery option list \<Rightarrow>
   alignment_error \<times> int + EpochKeyDelivery option \<times> int" where
  "epochKeyAlignment records deliveries =
     (if length deliveries \<noteq> 0 \<and> length deliveries \<noteq> length records
      then Inl (ErrEpochKeysLength, wholeSubmission)
      else alignLoop deliveries 0 (None, wholeSubmission) records)"

definition checkEpochKeysDigest ::
  "RecordLayer \<Rightarrow> bytes \<Rightarrow> mAttachment \<Rightarrow> EpochKeyDelivery option \<Rightarrow> alignment_error option" where
  "checkEpochKeysDigest L groupId attachment delivery =
     (if length groupId \<noteq> GroupIdBytes then Some ErrGroupIdShape
      else case maEpochDigest attachment of
          None \<Rightarrow> Some ErrEpochKeysMissing
        | Some digest \<Rightarrow>
           (case delivery of
              None \<Rightarrow> Some ErrEpochKeysMissing
            | Some d \<Rightarrow> map_option ErrDigest (CheckEpochKeysDigest L groupId digest (kdWriteKey d) (kdReadKey d))))"

definition deliveryOf :: "EpochKeyDelivery option \<Rightarrow> EpochKeyDelivery option" where
  "deliveryOf delivery =
     (case delivery of
        None \<Rightarrow> None
      | Some d \<Rightarrow> Some \<lparr> kdWriteKey = kdWriteKey d, kdReadKey = kdReadKey d \<rparr>)"

section \<open>Check 3\<close>

definition ephWindow :: "RecordLayer \<Rightarrow> time \<Rightarrow> mRecord \<Rightarrow> reason" where
  "ephWindow L now header =
     (let seconds = EphBucketSeconds L (mhEphBucket header)
      in if mhRetentionClass header \<noteq> RetentionEph L \<or> seconds \<le> 0
         then (if mhEphWindow header \<noteq> 0 then REASON_REJECTED else REASON_OK)
         else
           (let millis = UnixMilli now
            in if millis < 0 then REASON_INTERNAL
               else
                 (let arrival = (word_of_int millis :: u64) div (word_of_int seconds * 1000);
                      distance = (if arrival < mhEphWindow header then mhEphWindow header - arrival
                                  else arrival - mhEphWindow header)
                  in if 1 < distance then REASON_REJECTED else REASON_OK)))"

definition projectionOf :: "RecordLayer \<Rightarrow> mRecord \<Rightarrow> mAttachment \<Rightarrow> pRecord option" where
  "projectionOf L header attachment =
     (case RetentionClassWire L (mhRetentionClass header) (mhEphBucket header) of
        Inl _ \<Rightarrow> None
      | Inr retentionWire \<Rightarrow> Some
         \<lparr> prRecordBytes = [], prRecordId = 0, prSenderHandle = mhSenderHandle header,
           prEpoch = mhEpoch header, prStreamIndex = mhStreamIndex header,
           prIsCommit = mhIsCommit header, prRetentionClass = ucast retentionWire,
           prSizeBucket = ucast (mhSizeBucket header), prExpireAtMs = mhExpireAt header,
           prBodyHash = mhBodyHash header, prBlobId = mhBlobId header,
           prWrapTargetHandle = maWrap attachment,
           prRecoveryHandle = map_option mrRecoveryHandle (maRecovery attachment),
           prUnknown = [] \<rparr>)"

definition staticShape ::
  "RecordLayer \<Rightarrow> 's Handler \<Rightarrow> time \<Rightarrow> bytes \<Rightarrow> pRecord option \<Rightarrow> reason + recordPass" where
  "staticShape L h now groupId projection =
     (case projection of
        None \<Rightarrow> Inl REASON_REJECTED
      | Some sent \<Rightarrow>
         (case ParseRecord L (prRecordBytes sent) of
            Inl _ \<Rightarrow> Inl REASON_REJECTED
          | Inr parsed \<Rightarrow>
             (if mhGroupId parsed \<noteq> groupId then Inl REASON_REJECTED
              else if length (mCtHead parsed) = 0 then Inl REASON_REJECTED
              else if hMaxCtHeadBytes h < int (length (mCtHead parsed)) then Inl REASON_OVERSIZE
              else if mhSizeBucket parsed \<noteq> SizeBucketBlob L \<and>
                (SizeBucketCtBodyBytes L (mhSizeBucket parsed) < 0 \<or>
                 int (slen (mCtBody parsed)) \<noteq> SizeBucketCtBodyBytes L (mhSizeBucket parsed))
              then Inl REASON_REJECTED
              else if ephWindow L now parsed \<noteq> REASON_OK then Inl (ephWindow L now parsed)
              else case parseServerAttachment L (mhServerAttachment parsed) of
                  Inl _ \<Rightarrow> Inl REASON_REJECTED
                | Inr attachment \<Rightarrow>
                   (if isEpochKind (maKind attachment) \<noteq> mhIsCommit parsed then Inl REASON_REJECTED
                    else case projectionOf L parsed attachment of
                        None \<Rightarrow> Inl REASON_REJECTED
                      | Some implied \<Rightarrow>
                         (if \<not> protoEqual L implied (sent\<lparr>prRecordBytes := [], prRecordId := 0\<rparr>)
                          then Inl REASON_REJECTED
                          else Inr \<lparr> rpProjection = sent, rpParsed = parsed, rpAttachment = attachment,
                                     rpWriteKey = [] \<rparr>)))))"

section \<open>The stages\<close>

record submitPass =
  spConn :: ApiConnection
  spGroupId :: bytes
  spProjections :: "pRecord option list"
  spRecords :: "recordPass list"
  spDeliveries :: "EpochKeyDelivery option list"
  spKeys :: "EpochKeyDelivery option"
  spAlignment :: "alignment_error option"
  spResponse :: "pSubmitResult list option"

record refusal =
  rfReason :: reason
  rfIndex :: int

definition passed :: refusal where
  "passed = \<lparr> rfReason = REASON_OK, rfIndex = wholeSubmission \<rparr>"

definition refuse :: "reason \<Rightarrow> int \<Rightarrow> refusal" where
  "refuse reason index = \<lparr> rfReason = reason, rfIndex = index \<rparr>"

type_synonym 's stage = "submitPass \<Rightarrow> 's World \<Rightarrow> ('s World \<times> submitPass \<times> refusal) option"

fun shapeLoop ::
  "RecordLayer \<Rightarrow> 's Handler \<Rightarrow> (nat \<Rightarrow> time) \<Rightarrow> bytes \<Rightarrow> nat \<Rightarrow> pRecord option list \<Rightarrow> refusal + recordPass list"
where
  "shapeLoop L h now groupId index [] = Inr []"
| "shapeLoop L h now groupId index (r # rs) =
     (case staticShape L h (now index) groupId r of
        Inl reason \<Rightarrow> Inl (refuse reason (int index))
      | Inr p \<Rightarrow>
         (case shapeLoop L h now groupId (Suc index) rs of
            Inl refused \<Rightarrow> Inl refused
          | Inr ps \<Rightarrow> Inr (p # ps)))"

definition checkEpochKeys :: "RecordLayer \<Rightarrow> submitPass \<Rightarrow> submitPass \<times> refusal" where
  "checkEpochKeys L pass =
     (case epochKeyAlignment (spRecords pass) (spDeliveries pass) of
        Inl (err, index) \<Rightarrow> (pass\<lparr>spAlignment := Some err\<rparr>, refuse REASON_REJECTED index)
      | Inr (None, index) \<Rightarrow> (pass\<lparr>spKeys := None\<rparr>, passed)
      | Inr (Some keys, index) \<Rightarrow>
         (case checkEpochKeysDigest L (spGroupId pass) (rpAttachment (spRecords pass ! nat index)) (Some keys) of
            Some err \<Rightarrow> (pass\<lparr>spKeys := Some keys, spAlignment := Some err\<rparr>, refuse REASON_REJECTED index)
          | None \<Rightarrow> (pass\<lparr>spKeys := Some keys\<rparr>, passed)))"

definition checkStaticShape :: "RecordLayer \<Rightarrow> 's Handler \<Rightarrow> Clock \<Rightarrow> 's stage" where
  "checkStaticShape L h ck pass w =
     (let refused = (\<lambda>reason. Some (w, pass, refuse reason wholeSubmission))
      in if length (spGroupId pass) \<noteq> GroupIdBytes then refused REASON_REJECTED
         else if length (spProjections pass) = 0 then refused REASON_REJECTED
         else if hMaxRecordsPerSubmit h < int (length (spProjections pass)) then refused REASON_OVERSIZE
         else case shapeLoop L h (ckShape ck) (spGroupId pass) 0 (spProjections pass) of
             Inl r \<Rightarrow> Some (w, pass, r)
           | Inr records \<Rightarrow>
              (let commits = length (filter (\<lambda>r. mhIsCommit (rpParsed r)) records);
                   pass1 = pass\<lparr>spRecords := records\<rparr>
               in if commits \<noteq> 0 \<and> length records \<noteq> 1
                  then Some (w, pass1, refuse REASON_REJECTED wholeSubmission)
                  else Some (w, checkEpochKeys L pass1)))"

definition checkKnownGroup :: "'s Handler \<Rightarrow> ctx \<Rightarrow> 's stage" where
  "checkKnownGroup h ctx pass w =
     (let (ids, answer) = Contains (hKnownGroups h) (hStore h) ctx (wStore w) (wKnown w) (spGroupId pass);
          w1 = w\<lparr>wKnown := ids\<rparr>
      in Some (w1, pass, case answer of
           Inl _ \<Rightarrow> refuse REASON_INTERNAL wholeSubmission
         | Inr known \<Rightarrow> if known then passed else refuse REASON_REJECTED wholeSubmission))"

fun epochKeyLoop ::
  "(u64 \<Rightarrow> store_error + EpochKeys) \<Rightarrow> (u64 \<rightharpoonup> bytes) \<Rightarrow> nat \<Rightarrow> recordPass list \<Rightarrow> refusal + recordPass list"
where
  "epochKeyLoop lookup seen index [] = Inr []"
| "epochKeyLoop lookup seen index (r # rs) =
     (let epoch = mhEpoch (rpParsed r);
          rest = (\<lambda>seen' key. case epochKeyLoop lookup seen' (Suc index) rs of
                    Inl refused \<Rightarrow> Inl refused
                  | Inr rs' \<Rightarrow> Inr (r\<lparr>rpWriteKey := key\<rparr> # rs'))
      in case seen epoch of
           Some key \<Rightarrow> rest seen key
         | None \<Rightarrow>
            (case lookup epoch of
               Inl _ \<Rightarrow> Inl (refuse REASON_REJECTED (int index))
             | Inr keys \<Rightarrow>
                (case ekWriteKey keys of
                   None \<Rightarrow> Inl (refuse REASON_REJECTED (int index))
                 | Some key \<Rightarrow> rest (seen(epoch \<mapsto> key)) key)))"

definition checkEpochKey :: "'s Handler \<Rightarrow> ctx \<Rightarrow> 's stage" where
  "checkEpochKey h ctx pass w =
     Some (case epochKeyLoop (stEpochKeys (hStore h) ctx (wStore w) (spGroupId pass)) Map.empty 0 (spRecords pass) of
             Inl refused \<Rightarrow> (w, pass, refused)
           | Inr records \<Rightarrow> (w, pass\<lparr>spRecords := records\<rparr>, passed))"

definition checkWriteAuth :: "RecordLayer \<Rightarrow> 's stage" where
  "checkWriteAuth L pass w =
     Some (w, pass,
       case first_index (\<lambda>r. \<not> VerifyWriteAuth L (rpWriteKey r) (acServerNonce (spConn pass)) (rpParsed r)) 0
              (spRecords pass) of
         None \<Rightarrow> passed
       | Some index \<Rightarrow> refuse REASON_REJECTED (int index))"

definition bodyHash :: "RecordLayer \<Rightarrow> recordPass \<Rightarrow> reason" where
  "bodyHash L r =
     (if mhSizeBucket (rpParsed r) = SizeBucketBlob L then REASON_OK
      else if ContentSHA256 L (case mCtBody (rpParsed r) of None \<Rightarrow> [] | Some b \<Rightarrow> b) \<noteq> mhBodyHash (rpParsed r)
      then REASON_REJECTED else REASON_OK)"

definition checkBodyHash :: "RecordLayer \<Rightarrow> 's stage" where
  "checkBodyHash L pass w =
     Some (w, pass,
       case first_index (\<lambda>r. bodyHash L r \<noteq> REASON_OK) 0 (spRecords pass) of
         None \<Rightarrow> passed
       | Some index \<Rightarrow> refuse (bodyHash L (spRecords pass ! index)) (int index))"

definition recordKindIsBuilt :: "RecordLayer \<Rightarrow> recordPass \<Rightarrow> reason" where
  "recordKindIsBuilt L r =
     (if mhRetentionClass (rpParsed r) = RetentionEph L \<and> mhEphBucket (rpParsed r) = 0 then REASON_INTERNAL
      else if mhSizeBucket (rpParsed r) = SizeBucketBlob L then REASON_INTERNAL
      else REASON_OK)"

section \<open>The store's columns and its answers\<close>

definition noAttachment :: Attachment where
  "noAttachment = \<lparr> atKind = AttachmentNone, atEpoch = None, atWrap = None, atRecovery = None,
     atEpochComplete = None, atEpochDigest = None \<rparr>"

text \<open>The outer \<open>None\<close> is the nil dereference of a tag whose body is missing.\<close>

definition attachmentOf :: "mAttachment \<Rightarrow> Attachment option option" where
  "attachmentOf a =
     (case maKind a of
        KindEpoch \<Rightarrow> map_option (\<lambda>e. Some (noAttachment\<lparr> atKind := AttachmentEpoch, atEpoch := Some
           \<lparr> eaEpoch = meEpoch e, eaWriteKey = meWriteKey e, eaReadKey = meReadKey e,
             eaAlgId = ucast (meAlgId e), eaMediaTtlSeconds = meMediaTtlSeconds e,
             eaDurableTtlSeconds = meDurableTtlSeconds e, eaGroupContextHash = meGroupContextHash e,
             eaExpectedWrapCount = meExpectedWrapCount e \<rparr> \<rparr>)) (maEpoch a)
      | KindWrap \<Rightarrow> map_option (\<lambda>target. Some (noAttachment\<lparr> atKind := AttachmentWrap,
           atWrap := Some \<lparr> wtTargetHandle = target, wtLeafIndex = 0 \<rparr> \<rparr>)) (maWrap a)
      | KindRecovery \<Rightarrow> map_option (\<lambda>r. Some (noAttachment\<lparr> atKind := AttachmentRecovery, atRecovery := Some
           \<lparr> rtHandle = mrRecoveryHandle r, rtVerifyPub = mrRecoveryVerifyPub r,
             rtAlgId = ucast (mrAlgId r) \<rparr> \<rparr>)) (maRecovery a)
      | KindComplete \<Rightarrow> map_option (\<lambda>c. Some (noAttachment\<lparr> atKind := AttachmentEpochComplete,
           atEpochComplete := Some \<lparr> ecEpoch = mcEpoch c, ecWrapCount = mcWrapCount c \<rparr> \<rparr>)) (maComplete a)
      | KindEpochDigest \<Rightarrow> map_option (\<lambda>e. Some (noAttachment\<lparr> atKind := AttachmentEpochDigest,
           atEpochDigest := Some
             \<lparr> edEpoch = mdEpoch e, edAlgId = ucast (mdAlgId e), edMediaTtlSeconds = mdMediaTtlSeconds e,
               edDurableTtlSeconds = mdDurableTtlSeconds e, edGroupContextHash = mdGroupContextHash e,
               edExpectedWrapCount = mdExpectedWrapCount e, edEpochKeysDigest = mdEpochKeysDigest e \<rparr> \<rparr>))
           (maEpochDigest a)
      | _ \<Rightarrow> Some None)"

definition columnsOf :: "RecordLayer \<Rightarrow> recordPass \<Rightarrow> (mError + Record) option" where
  "columnsOf L r =
     (let header = rpParsed r
      in case RetentionClassWire L (mhRetentionClass header) (mhEphBucket header) of
           Inl e \<Rightarrow> Some (Inl e)
         | Inr retentionWire \<Rightarrow>
             map_option (\<lambda>attachment. Inr
               \<lparr> rSenderHandle = mhSenderHandle header, rEpoch = mhEpoch header,
                 rStreamIndex = mhStreamIndex header, rIsCommit = mhIsCommit header,
                 rRetentionClass = retentionWire, rEphWindow = mhEphWindow header,
                 rSizeBucket = mhSizeBucket header, rExpireAtMs = mhExpireAt header,
                 rBodyHash = mhBodyHash header, rCtHead = mCtHead header, rCtBody = mCtBody header,
                 rBlobId = mhBlobId header, rServerAttachment = mhServerAttachment header,
                 rAttachment = attachment, rRecordId = 0, rPruneAfter = None \<rparr>)
               (attachmentOf (rpAttachment r)))"

definition appliedOf :: "RetentionApplied option \<Rightarrow> RetentionApplied option" where
  "appliedOf applied = applied"

text \<open>The stored columns encoded again: what a reader and the loser of a commit are handed.\<close>

definition rebuiltOf :: "RecordLayer \<Rightarrow> bytes \<Rightarrow> Record \<Rightarrow> u8 \<times> u8 \<Rightarrow> bool \<Rightarrow> mRecord" where
  "rebuiltOf L groupId record class headsOnly =
     \<lparr> mhGroupId = groupId, mhSenderHandle = rSenderHandle record, mhEpoch = rEpoch record,
       mhStreamIndex = rStreamIndex record, mhIsCommit = rIsCommit record,
       mhRetentionClass = fst class, mhEphBucket = snd class, mhEphWindow = rEphWindow record,
       mhSizeBucket = rSizeBucket record, mhExpireAt = rExpireAtMs record,
       mhBodyHash = rBodyHash record, mhBlobId = rBlobId record,
       mhServerAttachment = rServerAttachment record, mCtHead = rCtHead record,
       mCtBody = (if headsOnly then None else rCtBody record), mWriteAuth = ZeroWriteAuth L \<rparr>"

definition rebuildRecord ::
  "RecordLayer \<Rightarrow> bytes \<Rightarrow> Record \<Rightarrow> bool \<Rightarrow> api_error + pRecord" where
  "rebuildRecord L groupId record headsOnly =
     (case RetentionClassOf L (rRetentionClass record) of
        Inl e \<Rightarrow> Inl (LibraryError e)
      | Inr class \<Rightarrow>
         (if length groupId \<noteq> GroupIdBytes \<or> length (rSenderHandle record) \<noteq> SenderHandleBytes \<or>
             length (rBodyHash record) \<noteq> BodyHashBytes
          then Inl (StoreError ErrIdentifierShape)
          else
            (let rebuilt = rebuiltOf L groupId record class headsOnly
             in case EncodeRecord L rebuilt of
                  Inl e \<Rightarrow> Inl (LibraryError e)
                | Inr encoded \<Rightarrow>
                   (case parseServerAttachment L (mhServerAttachment rebuilt) of
                      Inl e \<Rightarrow> Inl (LibraryError e)
                    | Inr attachment \<Rightarrow>
                       (case projectionOf L rebuilt attachment of
                          None \<Rightarrow> Inl (LibraryError ErrRetentionClassUnknown)
                        | Some projection \<Rightarrow>
                            Inr (projection\<lparr>prRecordBytes := encoded, prRecordId := rRecordId record\<rparr>))))))"

definition resultOf :: "RecordLayer \<Rightarrow> bytes \<Rightarrow> SubmitResult \<Rightarrow> pSubmitResult" where
  "resultOf L groupId result =
     \<lparr> pxReason = srReason result,
       pxRecordId = (if accepted (srReason result) then srRecordId result else 0),
       pxCurrentEpoch = srCurrentEpoch result,
       pxWinningCommit =
         (case srWinningCommit result of
            None \<Rightarrow> None
          | Some winner \<Rightarrow>
             (case rebuildRecord L groupId winner False of Inl _ \<Rightarrow> None | Inr w \<Rightarrow> Some w)),
       pxApplied = appliedOf (srApplied result) \<rparr>"

fun columnsLoop :: "RecordLayer \<Rightarrow> nat \<Rightarrow> recordPass list \<Rightarrow> (refusal + Record list) option" where
  "columnsLoop L index [] = Some (Inr [])"
| "columnsLoop L index (r # rs) =
     (if recordKindIsBuilt L r \<noteq> REASON_OK then Some (Inl (refuse (recordKindIsBuilt L r) (int index)))
      else do {
        columns \<leftarrow> columnsOf L r;
        case columns of
          Inl _ \<Rightarrow> Some (Inl (refuse REASON_INTERNAL (int index)))
        | Inr c \<Rightarrow> map_option (map_sum id ((#) c)) (columnsLoop L (Suc index) rs)
      })"

definition runTransaction :: "RecordLayer \<Rightarrow> 's Handler \<Rightarrow> ctx \<Rightarrow> 's stage" where
  "runTransaction L h ctx pass w = do {
     columns \<leftarrow> columnsLoop L 0 (spRecords pass);
     case columns of
       Inl refused \<Rightarrow> Some (w, pass, refused)
     | Inr records \<Rightarrow> do {
         (s, response) \<leftarrow> stSubmit (hStore h) ctx (wStore w)
           \<lparr> sqGroupId = spGroupId pass, sqRecords = records, sqEpochKeys = deliveryOf (spKeys pass) \<rparr>;
         Some (w\<lparr>wStore := s\<rparr>,
           case response of
             Inl _ \<Rightarrow> (pass, refuse REASON_INTERNAL wholeSubmission)
           | Inr results \<Rightarrow> (pass\<lparr>spResponse := Some (map (resultOf L (spGroupId pass)) results)\<rparr>, passed))
       }
   }"

section \<open>Submit\<close>

definition submitStages :: "RecordLayer \<Rightarrow> 's Handler \<Rightarrow> ctx \<Rightarrow> Clock \<Rightarrow> (nat \<times> 's stage) list" where
  "submitStages L h ctx ck =
     [(3, checkStaticShape L h ck), (5, checkKnownGroup h ctx), (6, checkEpochKey h ctx),
      (7, checkWriteAuth L), (8, checkBodyHash L), (9, runTransaction L h ctx)]"

fun runStages :: "(nat \<times> 's stage) list \<Rightarrow> submitPass \<Rightarrow> 's World \<Rightarrow> ('s World \<times> submitPass \<times> refusal) option" where
  "runStages [] pass w = Some (w, pass, passed)"
| "runStages (current # stages) pass w = do {
     (w1, pass1, refused) \<leftarrow> snd current pass w;
     if rfReason refused = REASON_OK then runStages stages pass1 w1 else Some (w1, pass1, refused)
   }"

definition submitRefuseBatch :: "submitPass \<Rightarrow> refusal \<Rightarrow> pSubmitResult list" where
  "submitRefuseBatch pass refused =
     map (\<lambda>index. \<lparr> pxReason = (if rfIndex refused = wholeSubmission \<or> rfIndex refused = int index
                               then rfReason refused else REASON_REJECTED),
                    pxRecordId = 0, pxCurrentEpoch = 0, pxWinningCommit = None, pxApplied = None \<rparr>)
       [0 ..< length (spProjections pass)]"

definition everyResultAccepted :: "pSubmitResult list \<Rightarrow> bool" where
  "everyResultAccepted results = list_all (\<lambda>r. accepted (pxReason r)) results"

definition storedOf :: "pSubmitResult list \<Rightarrow> recordPass list \<Rightarrow> publishedRecord list" where
  "storedOf results records =
     map (\<lambda>(result, r). \<lparr> pbRecordId = pxRecordId result, pbEpoch = mhEpoch (rpParsed r) \<rparr>)
       (filter (\<lambda>(result, r). accepted (pxReason result) \<and> pxRecordId result \<noteq> 0) (zip results records))"

definition publishAccepted :: "'s Handler \<Rightarrow> submitPass \<Rightarrow> 's World \<Rightarrow> 's World" where
  "publishAccepted h pass w =
     (case spResponse pass of
        None \<Rightarrow> w
      | Some results \<Rightarrow>
         (if \<not> hSubscriptions h then w
          else w\<lparr>wSubs := fst (published (wSubs w) (spGroupId pass) (storedOf results (spRecords pass)))\<rparr>))"

definition newPass :: "ApiConnection \<Rightarrow> pSubmitRequest \<Rightarrow> submitPass" where
  "newPass conn q = \<lparr> spConn = conn, spGroupId = psGroupId q, spProjections = psRecords q, spRecords = [],
     spDeliveries = psEpochKeys q, spKeys = None, spAlignment = None, spResponse = None \<rparr>"

definition answerSubmit ::
  "'s Handler \<Rightarrow> Clock \<Rightarrow> 's World \<times> submitPass \<times> refusal \<Rightarrow> 's World \<times> pSubmitResult list Answer" where
  "answerSubmit h ck = (\<lambda>(w, pass, refused).
     if rfReason refused \<noteq> REASON_OK then
       (w, if spProjections pass = [] then padded h ck (rfReason refused)
           else \<lparr> anReason = REASON_OK, anBody = Some (submitRefuseBatch pass refused), anErr = None,
                  anPad = pad h ck \<rparr>)
     else case spResponse pass of
         None \<Rightarrow> (w, failed ErrNoStore)
       | Some results \<Rightarrow>
           (publishAccepted h pass w,
            \<lparr> anReason = REASON_OK, anBody = Some results, anErr = None,
              anPad = (if everyResultAccepted results then None else pad h ck) \<rparr>))"

definition Handler_Submit ::
  "RecordLayer \<Rightarrow> 's Handler \<Rightarrow> ctx \<Rightarrow> Clock \<Rightarrow> ApiConnection option \<Rightarrow> pSubmitRequest option \<Rightarrow> 's World \<Rightarrow>
   ('s World \<times> pSubmitResult list Answer) option" where
  "Handler_Submit L h ctx ck conn request w =
     behindFront L h ck SubmitArm conn request w (\<lambda>c q op.
       map_option (answerSubmit h ck) (runStages (submitStages L h ctx ck) (newPass c q) w))"

section \<open>CreateGroup\<close>

text \<open>Checks 3, 7 and 8 of the founding commit: a refusal, which may be unpadded, or its pass and keys.\<close>

definition foundingChecks ::
  "RecordLayer \<Rightarrow> 's Handler \<Rightarrow> Clock \<Rightarrow> ApiConnection \<Rightarrow> pCreateGroupRequest \<Rightarrow>
   'r Answer + recordPass \<times> EpochKeyDelivery option" where
  "foundingChecks L h ck conn q =
     (let reject = Inl (padded h ck REASON_REJECTED)
      in if length (pcBootstrapWriteKey q) \<noteq> EpochKeyBytes then reject
         else case staticShape L h (ckShape ck 0) (pcGroupId q) (pcInitialCommit q) of
             Inl reason \<Rightarrow> Inl (padded h ck reason)
           | Inr p \<Rightarrow>
              (if \<not> mhIsCommit (rpParsed p) \<or> mhEpoch (rpParsed p) \<noteq> 0 then reject
               else if \<not> snd (opensEpochOf (Some (rpAttachment p))) \<or> fst (opensEpochOf (Some (rpAttachment p))) \<noteq> 1
               then reject
               else case epochKeyAlignment [p] [pcEpochKeys q] of
                   Inl _ \<Rightarrow> reject
                 | Inr (keys, _) \<Rightarrow>
                    (if keys \<noteq> None \<and> checkEpochKeysDigest L (pcGroupId q) (rpAttachment p) keys \<noteq> None then reject
                     else if \<not> VerifyWriteAuth L (pcBootstrapWriteKey q) (acServerNonce conn) (rpParsed p) then reject
                     else if bodyHash L p \<noteq> REASON_OK then Inl (padded h ck (bodyHash L p))
                     else if recordKindIsBuilt L p \<noteq> REASON_OK then Inl (bare REASON_INTERNAL)
                     else Inr (p, keys))))"

definition Handler_CreateGroup ::
  "RecordLayer \<Rightarrow> 's Handler \<Rightarrow> ctx \<Rightarrow> Clock \<Rightarrow> ApiConnection option \<Rightarrow> pCreateGroupRequest option \<Rightarrow> 's World \<Rightarrow>
   ('s World \<times> pCreateGroupResponse Answer) option" where
  "Handler_CreateGroup L h ctx ck conn request w =
     behindFront L h ck CreateGroupArm conn request w (\<lambda>c q op.
       case foundingChecks L h ck c q of
         Inl answer \<Rightarrow> Some (w, answer)
       | Inr (p, keys) \<Rightarrow> do {
           columns \<leftarrow> columnsOf L p;
           case columns of
             Inl e \<Rightarrow> Some (w, failed (LibraryError e))
           | Inr record \<Rightarrow> do {
               (s, result) \<leftarrow> stCreateGroup (hStore h) ctx (wStore w)
                 \<lparr> cqGroupId = pcGroupId q, cqInitialCommit = Some record,
                   cqBootstrapWriteKey = pcBootstrapWriteKey q, cqEpochKeys = deliveryOf keys \<rparr>;
               let w1 = w\<lparr>wStore := s\<rparr> in
               Some (case result of
                 Inl e \<Rightarrow> (w1, failed (StoreError e))
               | Inr r \<Rightarrow>
                  (if \<not> accepted (crReason r) then (w1, padded h ck (crReason r))
                   else (w1\<lparr>wKnown := known_Insert (wKnown w1) (pcGroupId q)\<rparr>,
                         \<lparr> anReason = crReason r,
                           anBody = Some \<lparr> pcCurrentEpoch = crCurrentEpoch r, pcRecordId = crRecordId r,
                             pcApplied = appliedOf (crApplied r) \<rparr>,
                           anErr = None, anPad = None \<rparr>)))
             }
         })"

end
