(* ===== verification/Api_Read.thy ===== *)
theory Api_Read
  imports Api_Submit
begin

text \<open>
  The read path of the request handler: \<open>Fetch\<close> (\<open>src/api/fetch.go\<close>) and the subscription arms
  (\<open>src/api/subscribe.go\<close>). No stage of it opens a transaction: the store is read and never
  changed, which the types of its operations say.
\<close>

section \<open>Fetch\<close>

record fetchPass =
  fpConn :: ApiConnection
  fpRequest :: pFetchRequest
  fpOp :: u8
  fpReadKey :: bytes

type_synonym 's readStage = "fetchPass \<Rightarrow> 's World \<Rightarrow> 's World \<times> fetchPass \<times> reason"

definition fetchLimit :: "'s Handler \<Rightarrow> u32 \<Rightarrow> u32" where
  "fetchLimit h requested =
     (let bound = word_of_int (hMaxRecordsPerFetch h)
      in if requested = 0 \<or> bound < requested then bound else requested)"

definition checkFetchShape :: "'s readStage" where
  "checkFetchShape pass w =
     (w, pass,
      if length (pfGroupId (fpRequest pass)) \<noteq> GroupIdBytes then REASON_REJECTED
      else if length (pfReqAuth (fpRequest pass)) = 0 then REASON_REJECTED
      else REASON_OK)"

definition checkFetchKnownGroup :: "'s Handler \<Rightarrow> ctx \<Rightarrow> 's readStage" where
  "checkFetchKnownGroup h ctx pass w =
     (let (ids, answer) = Contains (hKnownGroups h) (hStore h) ctx (wStore w) (wKnown w) (pfGroupId (fpRequest pass))
      in (w\<lparr>wKnown := ids\<rparr>, pass,
          case answer of
            Inl _ \<Rightarrow> REASON_INTERNAL
          | Inr known \<Rightarrow> if known then REASON_OK else REASON_REJECTED))"

definition readKeyOf :: "store_error + EpochKeys \<Rightarrow> bytes option" where
  "readKeyOf answer = (case answer of Inl _ \<Rightarrow> None | Inr keys \<Rightarrow> ekReadKey keys)"

definition checkReadKey :: "'s Handler \<Rightarrow> ctx \<Rightarrow> 's readStage" where
  "checkReadKey h ctx pass w =
     (case readKeyOf (stEpochKeys (hStore h) ctx (wStore w) (pfGroupId (fpRequest pass)) (pfReadEpoch (fpRequest pass))) of
        None \<Rightarrow> (w, pass, REASON_REJECTED)
      | Some key \<Rightarrow> (w, pass\<lparr>fpReadKey := key\<rparr>, REASON_OK))"

definition canonicalFetchBytes :: "RecordLayer \<Rightarrow> pFetchRequest \<Rightarrow> bytes option" where
  "canonicalFetchBytes L q = marshalFetch L (q\<lparr>pfReqAuth := []\<rparr>)"

definition checkRequestAuth :: "RecordLayer \<Rightarrow> 's readStage" where
  "checkRequestAuth L pass w =
     (w, pass,
      case canonicalFetchBytes L (fpRequest pass) of
        None \<Rightarrow> REASON_REJECTED
      | Some canonical \<Rightarrow>
         (if \<not> VerifyRequestAuth L (fpReadKey pass) (acServerNonce (fpConn pass)) (fpOp pass) canonical
               (pfReqAuth (fpRequest pass))
          then REASON_REJECTED else REASON_OK))"

definition fetchStages :: "RecordLayer \<Rightarrow> 's Handler \<Rightarrow> ctx \<Rightarrow> (nat \<times> 's readStage) list" where
  "fetchStages L h ctx =
     [(3, checkFetchShape), (5, checkFetchKnownGroup h ctx), (6, checkReadKey h ctx), (7, checkRequestAuth L)]"

fun runReadStages :: "(nat \<times> 's readStage) list \<Rightarrow> fetchPass \<Rightarrow> 's World \<Rightarrow> 's World \<times> fetchPass \<times> reason" where
  "runReadStages [] pass w = (w, pass, REASON_OK)"
| "runReadStages (current # stages) pass w =
     (let (w1, pass1, reason) = snd current pass w
      in if reason = REASON_OK then runReadStages stages pass1 w1 else (w1, pass1, reason))"

fun rebuildAll :: "RecordLayer \<Rightarrow> bytes \<Rightarrow> bool \<Rightarrow> Record list \<Rightarrow> api_error + pRecord list" where
  "rebuildAll L groupId headsOnly [] = Inr []"
| "rebuildAll L groupId headsOnly (r # rs) =
     (case rebuildRecord L groupId r headsOnly of
        Inl e \<Rightarrow> Inl e
      | Inr p \<Rightarrow> map_sum id ((#) p) (rebuildAll L groupId headsOnly rs))"

definition storeFetch :: "'s Handler \<Rightarrow> pFetchRequest \<Rightarrow> FetchRequest" where
  "storeFetch h q = \<lparr> fqGroupId = pfGroupId q, fqSinceRecordId = pfSinceRecordId q,
     fqLimit = fetchLimit h (pfLimit q), fqHeadsOnly = pfHeadsOnly q, fqClassMask = pfClassMask q,
     fqReadEpoch = pfReadEpoch q \<rparr>"

definition servePage :: "RecordLayer \<Rightarrow> 's Handler \<Rightarrow> ctx \<Rightarrow> Clock \<Rightarrow> pFetchRequest \<Rightarrow> 's \<Rightarrow> pFetchResponse Answer" where
  "servePage L h ctx ck q s =
     (case stFetch (hStore h) ctx s (storeFetch h q) of
        Inl _ \<Rightarrow> padded h ck REASON_REJECTED
      | Inr result \<Rightarrow>
         (case rebuildAll L (pfGroupId q) (pfHeadsOnly q) (frRecords result) of
            Inl e \<Rightarrow> failed e
          | Inr records \<Rightarrow>
              \<lparr> anReason = REASON_OK,
                anBody = Some \<lparr> pfRecords = records, pfNextRecordId = frNextRecordId result,
                  pfHighWaterRecordId = frHighWaterRecordId result, pfComplete = frComplete result \<rparr>,
                anErr = None, anPad = None \<rparr>))"

definition Handler_Fetch ::
  "RecordLayer \<Rightarrow> 's Handler \<Rightarrow> ctx \<Rightarrow> Clock \<Rightarrow> ApiConnection option \<Rightarrow> pFetchRequest option \<Rightarrow> 's World \<Rightarrow>
   ('s World \<times> pFetchResponse Answer) option" where
  "Handler_Fetch L h ctx ck conn request w =
     behindFront L h ck FetchArm conn request w (\<lambda>c q op.
       let (w1, pass, reason) = runReadStages (fetchStages L h ctx)
             \<lparr> fpConn = c, fpRequest = q, fpOp = op, fpReadKey = [] \<rparr> w
       in Some (w1, if reason \<noteq> REASON_OK then padded h ck reason else servePage L h ctx ck q (wStore w1)))"

section \<open>Subscribe and Unsubscribe\<close>

definition canonicalSubscribeBytes :: "RecordLayer \<Rightarrow> pSubscribeRequest \<Rightarrow> bytes option" where
  "canonicalSubscribeBytes L q = marshalSubscribe L (q\<lparr>pbReqAuth := []\<rparr>)"

text \<open>The request's own shape, the read key its epoch names and its authenticator.\<close>

definition subscribeAuthorized ::
  "RecordLayer \<Rightarrow> 's Handler \<Rightarrow> ctx \<Rightarrow> ApiConnection \<Rightarrow> u8 \<Rightarrow> pSubscribeRequest \<Rightarrow> bytes \<Rightarrow> 's \<Rightarrow> bool" where
  "subscribeAuthorized L h ctx conn op q groupId s =
     (case readKeyOf (stEpochKeys (hStore h) ctx s groupId (pbReadEpoch q)) of
        None \<Rightarrow> False
      | Some key \<Rightarrow>
         (case canonicalSubscribeBytes L q of
            None \<Rightarrow> False
          | Some canonical \<Rightarrow> VerifyRequestAuth L key (acServerNonce conn) op canonical (pbReqAuth q)))"

definition snapshotFetch :: "pSubscribeRequest \<Rightarrow> bytes \<Rightarrow> u64 \<Rightarrow> FetchRequest" where
  "snapshotFetch q groupId since = \<lparr> fqGroupId = groupId, fqSinceRecordId = since, fqLimit = 1,
     fqHeadsOnly = True, fqClassMask = 0, fqReadEpoch = pbReadEpoch q \<rparr>"

definition register ::
  "'s Handler \<Rightarrow> ctx \<Rightarrow> Clock \<Rightarrow> ApiConnection \<Rightarrow> pSubscribeRequest \<Rightarrow> bytes \<times> u64 \<Rightarrow> 's World \<Rightarrow>
   's World \<times> pSubscriptionAck list Answer" where
  "register h ctx ck conn q wanted w =
     (case stFetch (hStore h) ctx (wStore w) (snapshotFetch q (fst wanted) (snd wanted)) of
        Inl _ \<Rightarrow> (w, padded h ck REASON_REJECTED)
      | Inr result \<Rightarrow>
         (case subscribe (wSubs w) (acClientId conn) (acServerNonce conn) (fst wanted) (pbReadEpoch q)
                 (frHighWaterRecordId result) (pbReplace q) of
            (subs, Some _) \<Rightarrow> (w\<lparr>wSubs := subs\<rparr>, padded h ck REASON_REJECTED)
          | (subs, None) \<Rightarrow>
              (w\<lparr>wSubs := subs\<rparr>,
               \<lparr> anReason = REASON_OK,
                 anBody = Some [\<lparr> paGroupId = fst wanted, paSnapshotRecordId = frHighWaterRecordId result,
                   paReason = REASON_OK \<rparr>],
                 anErr = None, anPad = None \<rparr>)))"

definition Handler_Subscribe ::
  "RecordLayer \<Rightarrow> 's Handler \<Rightarrow> ctx \<Rightarrow> Clock \<Rightarrow> ApiConnection option \<Rightarrow> pSubscribeRequest option \<Rightarrow> 's World \<Rightarrow>
   ('s World \<times> pSubscriptionAck list Answer) option" where
  "Handler_Subscribe L h ctx ck conn request w =
     behindFront L h ck SubscribeArm conn request w (\<lambda>c q op.
       if \<not> hSubscriptions h then Some (w, bare REASON_INTERNAL)
       else case pbSubscriptions q of
           [wanted] \<Rightarrow>
             (if length (fst wanted) \<noteq> GroupIdBytes \<or> length (pbReqAuth q) = 0
              then Some (w, padded h ck REASON_REJECTED)
              else
                (let (ids, known) = Contains (hKnownGroups h) (hStore h) ctx (wStore w) (wKnown w) (fst wanted);
                     w1 = w\<lparr>wKnown := ids\<rparr>
                 in case known of
                      Inl _ \<Rightarrow> Some (w1, bare REASON_INTERNAL)
                    | Inr found \<Rightarrow>
                       (if \<not> found then Some (w1, padded h ck REASON_REJECTED)
                        else if \<not> subscribeAuthorized L h ctx c op q (fst wanted) (wStore w1)
                        then Some (w1, padded h ck REASON_REJECTED)
                        else Some (register h ctx ck c q wanted w1))))
         | _ \<Rightarrow> Some (w, padded h ck REASON_REJECTED))"

text \<open>This arm pads nothing.\<close>

definition Handler_Unsubscribe ::
  "RecordLayer \<Rightarrow> 's Handler \<Rightarrow> ApiConnection option \<Rightarrow> pUnsubscribeRequest option \<Rightarrow> 's World \<Rightarrow>
   's World \<times> reason \<times> api_error option" where
  "Handler_Unsubscribe L h conn request w =
     (case conn of
        None \<Rightarrow> (w, REASON_INTERNAL, Some ErrNoConnection)
      | Some c \<Rightarrow>
         (case request of
            None \<Rightarrow> (w, REASON_REJECTED, None)
          | Some q \<Rightarrow>
             (case opOf L UnsubscribeArm of
                Inl e \<Rightarrow> (w, REASON_INTERNAL, Some e)
              | Inr op \<Rightarrow>
                 (if frontChecks h c op \<noteq> REASON_OK then (w, frontChecks h c op, None)
                  else if \<not> hSubscriptions h then (w, REASON_INTERNAL, None)
                  else if puAll q \<and> puGroupIds q \<noteq> [] then (w, REASON_REJECTED, None)
                  else (w\<lparr>wSubs := unsubscribe (wSubs w) (acClientId c) (acServerNonce c) (puGroupIds q) (puAll q)\<rparr>,
                        REASON_OK, None)))))"

end
