(* ===== verification/Api_Checks.thy ===== *)
theory Api_Checks
  imports Api_Read Store_Answers
begin

text \<open>
  What each check of the write path establishes, and what the handler's answers look like: the facts
  the properties of the handlers rest on.
\<close>

section \<open>Check 3\<close>

lemma staticShape_Inr:
  assumes "staticShape L h now groupId projection = Inr p"
  shows "projection = Some (rpProjection p)" and "ParseRecord L (prRecordBytes (rpProjection p)) = Inr (rpParsed p)"
    and "mhGroupId (rpParsed p) = groupId"
    and "parseServerAttachment L (mhServerAttachment (rpParsed p)) = Inr (rpAttachment p)"
    and "isEpochKind (maKind (rpAttachment p)) = mhIsCommit (rpParsed p)"
    and "\<exists>implied. projectionOf L (rpParsed p) (rpAttachment p) = Some implied \<and>
      protoEqual L implied ((rpProjection p)\<lparr>prRecordBytes := [], prRecordId := 0\<rparr>)"
  using assms by (auto simp: staticShape_def split: option.splits sum.splits if_splits)

lemma staticShape_Inl:
  "staticShape L h now groupId projection = Inl reason \<Longrightarrow> reason \<noteq> REASON_OK"
  by (auto simp: staticShape_def split: option.splits sum.splits if_splits)

lemma shapeLoop_Inr:
  "shapeLoop L h now groupId index rs = Inr ps \<Longrightarrow>
     list_all2 (\<lambda>r p. \<exists>t. staticShape L h t groupId r = Inr p) rs ps"
  by (induction rs arbitrary: index ps) (auto split: sum.splits)

lemma shapeLoop_Inl: "shapeLoop L h now groupId index rs = Inl r \<Longrightarrow> rfReason r \<noteq> REASON_OK"
  by (induction rs arbitrary: index) (auto simp: refuse_def dest: staticShape_Inl split: sum.splits)

text \<open>A pass that check 3 let through.\<close>

definition shaped :: "RecordLayer \<Rightarrow> 's Handler \<Rightarrow> submitPass \<Rightarrow> bool" where
  "shaped L h pass \<longleftrightarrow> length (spGroupId pass) = GroupIdBytes \<and> spProjections pass \<noteq> [] \<and>
     list_all2 (\<lambda>r p. \<exists>t. staticShape L h t (spGroupId pass) r = Inr p) (spProjections pass) (spRecords pass)"

lemma checkEpochKeys_keeps:
  assumes "checkEpochKeys L pass = (pass', r)"
  shows "spConn pass' = spConn pass" "spGroupId pass' = spGroupId pass"
    "spProjections pass' = spProjections pass" "spRecords pass' = spRecords pass"
    "spResponse pass' = spResponse pass" "rfReason r \<in> {REASON_OK, REASON_REJECTED}"
  using assms
  by (auto simp: checkEpochKeys_def refuse_def passed_def split: sum.splits option.splits prod.splits)

lemma checkStaticShape_facts:
  assumes "checkStaticShape L h ck pass w = Some (w', pass', r)"
  shows "w' = w" "spConn pass' = spConn pass" "spGroupId pass' = spGroupId pass"
    "spProjections pass' = spProjections pass" "spResponse pass' = spResponse pass"
    "rfReason r = REASON_OK \<Longrightarrow> shaped L h pass'"
proof -
  show "w' = w" "spConn pass' = spConn pass" "spGroupId pass' = spGroupId pass"
    "spProjections pass' = spProjections pass" "spResponse pass' = spResponse pass"
    using assms checkEpochKeys_keeps
    by (auto simp: checkStaticShape_def Let_def split: if_splits sum.splits)
  assume ok: "rfReason r = REASON_OK"
  then obtain records where s: "shapeLoop L h (ckShape ck) (spGroupId pass) 0 (spProjections pass) = Inr records"
    "length (spGroupId pass) = GroupIdBytes" "spProjections pass \<noteq> []"
    "checkEpochKeys L (pass\<lparr>spRecords := records\<rparr>) = (pass', r)"
    using assms shapeLoop_Inl by (fastforce simp: checkStaticShape_def Let_def refuse_def split: if_splits sum.splits)
  from checkEpochKeys_keeps [OF s(4)] s(1-3) shapeLoop_Inr [OF s(1)] show "shaped L h pass'"
    by (simp add: shaped_def)
qed

lemma checkStaticShape_total: "\<exists>w' pass' r. checkStaticShape L h ck pass w = Some (w', pass', r)"
  by (auto simp: checkStaticShape_def Let_def split: sum.split)

text \<open>Check 3 reads nothing but the request.\<close>

lemma checkStaticShape_world:
  "checkStaticShape L h ck pass w = Some (w, snd (the (checkStaticShape L h ck pass v)))"
  by (auto simp: checkStaticShape_def Let_def split: sum.split prod.split)

section \<open>Checks 5 to 8\<close>

lemma checkKnownGroup_facts:
  assumes "checkKnownGroup h ctx pass w = Some (w', pass', r)"
  shows "wStore w' = wStore w" "wSubs w' = wSubs w" "pass' = pass"
    "rfReason r \<in> {REASON_OK, REASON_REJECTED} \<or>
     (\<exists>ids e. Contains (hKnownGroups h) (hStore h) ctx (wStore w) (wKnown w) (spGroupId pass) = (ids, Inl e))"
  using assms
  by (auto simp: checkKnownGroup_def refuse_def passed_def split: prod.splits sum.splits if_splits)

lemma epochKeyLoop_Inr:
  assumes "epochKeyLoop lookup seen index rs = Inr rs'"
    and "\<And>e key. seen e = Some key \<Longrightarrow> \<exists>keys. lookup e = Inr keys \<and> ekWriteKey keys = Some key"
  shows "list_all2 (\<lambda>r r'. \<exists>keys key. lookup (mhEpoch (rpParsed r)) = Inr keys \<and> ekWriteKey keys = Some key \<and>
    r' = r\<lparr>rpWriteKey := key\<rparr>) rs rs'"
  using assms
proof (induction rs arbitrary: seen index rs')
  case (Cons r rs)
  let ?e = "mhEpoch (rpParsed r)"
  show ?case
  proof (cases "seen ?e")
    case (Some key)
    with Cons show ?thesis by (fastforce simp: Let_def split: sum.splits)
  next
    case None
    with Cons.prems(1) obtain keys key ps where k: "lookup ?e = Inr keys" "ekWriteKey keys = Some key"
      "epochKeyLoop lookup (seen(?e \<mapsto> key)) (Suc index) rs = Inr ps" "rs' = r\<lparr>rpWriteKey := key\<rparr> # ps"
      by (auto simp: Let_def split: sum.splits option.splits)
    have "\<exists>keys. lookup e = Inr keys \<and> ekWriteKey keys = Some key'"
      if "(seen(?e \<mapsto> key)) e = Some key'" for e key'
      using that k(1,2) Cons.prems(2) by (auto split: if_splits)
    from Cons.IH [OF k(3) this] k show ?thesis by auto
  qed
qed simp

lemma epochKeyLoop_Inl: "epochKeyLoop lookup seen index rs = Inl r \<Longrightarrow> rfReason r = REASON_REJECTED"
  by (induction rs arbitrary: seen index) (auto simp: Let_def refuse_def split: sum.splits option.splits)

lemma checkEpochKey_facts:
  assumes "checkEpochKey h ctx pass w = Some (w', pass', r)"
  shows "w' = w" "spConn pass' = spConn pass" "spGroupId pass' = spGroupId pass"
    "spProjections pass' = spProjections pass" "spResponse pass' = spResponse pass"
    "pass' = pass\<lparr>spRecords := spRecords pass'\<rparr>" "rfReason r \<in> {REASON_OK, REASON_REJECTED}"
    "rfReason r = REASON_OK \<Longrightarrow> list_all2 (\<lambda>r r'. \<exists>keys key.
       stEpochKeys (hStore h) ctx (wStore w) (spGroupId pass) (mhEpoch (rpParsed r)) = Inr keys \<and>
       ekWriteKey keys = Some key \<and> r' = r\<lparr>rpWriteKey := key\<rparr>) (spRecords pass) (spRecords pass')"
  using assms epochKeyLoop_Inl
  by (auto simp: checkEpochKey_def passed_def split: sum.splits dest!: epochKeyLoop_Inr)

lemma checkWriteAuth_facts:
  assumes "checkWriteAuth L pass w = Some (w', pass', r)"
  shows "w' = w" "pass' = pass" "rfReason r \<in> {REASON_OK, REASON_REJECTED}"
    "rfReason r = REASON_OK \<longleftrightarrow>
       (\<forall>r \<in> set (spRecords pass). VerifyWriteAuth L (rpWriteKey r) (acServerNonce (spConn pass)) (rpParsed r))"
proof -
  let ?bad = "\<lambda>r. \<not> VerifyWriteAuth L (rpWriteKey r) (acServerNonce (spConn pass)) (rpParsed r)"
  have a: "first_index ?bad 0 (spRecords pass) = None \<longleftrightarrow> (\<forall>r \<in> set (spRecords pass). \<not> ?bad r)"
    by (rule first_index_None)
  show "w' = w" "pass' = pass" "rfReason r \<in> {REASON_OK, REASON_REJECTED}"
    using assms by (auto simp: checkWriteAuth_def passed_def refuse_def split: option.splits)
  show "rfReason r = REASON_OK \<longleftrightarrow>
      (\<forall>r \<in> set (spRecords pass). VerifyWriteAuth L (rpWriteKey r) (acServerNonce (spConn pass)) (rpParsed r))"
    using assms a by (cases "first_index ?bad 0 (spRecords pass)") (auto simp: checkWriteAuth_def passed_def refuse_def)
qed

lemma bodyHash_key [simp]: "bodyHash L (r\<lparr>rpWriteKey := key\<rparr>) = bodyHash L r"
  by (simp add: bodyHash_def)

lemma checkBodyHash_facts:
  assumes "checkBodyHash L pass w = Some (w', pass', r)"
  shows "w' = w" "pass' = pass" "rfReason r \<in> {REASON_OK, REASON_REJECTED}"
    "rfReason r = REASON_OK \<Longrightarrow> \<forall>r \<in> set (spRecords pass). bodyHash L r = REASON_OK"
proof -
  show "w' = w" "pass' = pass" "rfReason r \<in> {REASON_OK, REASON_REJECTED}"
    using assms by (auto simp: checkBodyHash_def passed_def refuse_def bodyHash_def split: option.splits if_splits)
  assume "rfReason r = REASON_OK"
  with assms have "first_index (\<lambda>r. bodyHash L r \<noteq> REASON_OK) 0 (spRecords pass) = None"
    by (auto simp: checkBodyHash_def passed_def refuse_def split: option.splits dest!: first_index_Some)
  then show "\<forall>r \<in> set (spRecords pass). bodyHash L r = REASON_OK" by (auto simp: first_index_None)
qed

section \<open>Running the stages\<close>

lemma stage_totals:
  "\<exists>w' pass' r. checkKnownGroup h ctx pass w = Some (w', pass', r)"
  "\<exists>w' pass' r. checkEpochKey h ctx pass w = Some (w', pass', r)"
  by (auto simp: checkKnownGroup_def checkEpochKey_def split: prod.split sum.split)

lemma runStages_Cons:
  "runStages ((n, s) # stages) pass w = Some (w', pass', r) \<longleftrightarrow>
     (\<exists>w1 pass1 r1. s pass w = Some (w1, pass1, r1) \<and>
       (if rfReason r1 = REASON_OK then runStages stages pass1 w1 = Some (w', pass', r)
        else w' = w1 \<and> pass' = pass1 \<and> r = r1))"
  by (auto simp: bind_eq_Some_conv)

lemma runTransaction_cases:
  assumes "runTransaction L h ctx pass w = Some (w', pass', r)"
  obtains (refused) "columnsLoop L 0 (spRecords pass) = Some (Inl r)" "w' = w" "pass' = pass"
  | (failed) records e where "columnsLoop L 0 (spRecords pass) = Some (Inr records)"
      "stSubmit (hStore h) ctx (wStore w) \<lparr> sqGroupId = spGroupId pass, sqRecords = records,
         sqEpochKeys = deliveryOf (spKeys pass) \<rparr> = Some (wStore w', Inl e)"
      "w' = w\<lparr>wStore := wStore w'\<rparr>" "pass' = pass" "r = refuse REASON_INTERNAL wholeSubmission"
  | (answered) records results where "columnsLoop L 0 (spRecords pass) = Some (Inr records)"
      "stSubmit (hStore h) ctx (wStore w) \<lparr> sqGroupId = spGroupId pass, sqRecords = records,
         sqEpochKeys = deliveryOf (spKeys pass) \<rparr> = Some (wStore w', Inr results)"
      "w' = w\<lparr>wStore := wStore w'\<rparr>"
      "pass' = pass\<lparr>spResponse := Some (map (resultOf L (spGroupId pass)) results)\<rparr>" "r = passed"
proof -
  from assms obtain columns where c: "columnsLoop L 0 (spRecords pass) = Some columns"
    by (auto simp: runTransaction_def bind_eq_Some_conv)
  show ?thesis
  proof (cases columns)
    case (Inl refusal)
    with c assms have "columnsLoop L 0 (spRecords pass) = Some (Inl r)" "w' = w" "pass' = pass"
      by (simp_all add: runTransaction_def)
    then show ?thesis by (rule that(1))
  next
    case (Inr records)
    with c assms obtain s response where s: "stSubmit (hStore h) ctx (wStore w) \<lparr> sqGroupId = spGroupId pass,
        sqRecords = records, sqEpochKeys = deliveryOf (spKeys pass) \<rparr> = Some (s, response)" "w' = w\<lparr>wStore := s\<rparr>"
      and r: "(pass', r) = (case response of Inl _ \<Rightarrow> (pass, refuse REASON_INTERNAL wholeSubmission)
        | Inr results \<Rightarrow> (pass\<lparr>spResponse := Some (map (resultOf L (spGroupId pass)) results)\<rparr>, passed))"
      by (auto simp: runTransaction_def bind_eq_Some_conv)
    have c': "columnsLoop L 0 (spRecords pass) = Some (Inr records)" using c Inr by simp
    have w: "w' = w\<lparr>wStore := wStore w'\<rparr>" and s': "s = wStore w'" using s(2) by simp_all
    note t = s(1) [unfolded s']
    show ?thesis
    proof (cases response)
      case (Inl e)
      show ?thesis by (rule that(2) [OF c' t [unfolded Inl] w]) (use r Inl in simp_all)
    next
      case (Inr results)
      show ?thesis by (rule that(3) [OF c' t [unfolded Inr] w]) (use r Inr in simp_all)
    qed
  qed
qed

lemma runTransaction_facts:
  assumes "runTransaction L h ctx pass w = Some (w', pass', r)"
  shows "wSubs w' = wSubs w"
proof (rule runTransaction_cases [OF assms])
  assume "w' = w"
  then show ?thesis by simp
next
  assume "w' = w\<lparr>wStore := wStore w'\<rparr>"
  from arg_cong [OF this, of wSubs] show ?thesis by simp
next
  assume "w' = w\<lparr>wStore := wStore w'\<rparr>"
  from arg_cong [OF this, of wSubs] show ?thesis by simp
qed

lemma runStages_last:
  assumes "runStages [(n, s)] pass w = Some (w', pass', r)"
  shows "\<exists>r'. s pass w = Some (w', pass', r') \<and> r = (if rfReason r' = REASON_OK then passed else r')"
  using assms by (auto simp: bind_eq_Some_conv split: if_splits)

text \<open>What the pass of a submission satisfies once check 8 has passed it.\<close>

definition authenticated :: "RecordLayer \<Rightarrow> 's Handler \<Rightarrow> ctx \<Rightarrow> ApiConnection \<Rightarrow> bytes \<Rightarrow> 's \<Rightarrow> pRecord option \<Rightarrow> bool" where
  "authenticated L h ctx conn groupId s sent \<longleftrightarrow>
     (\<exists>p parsed keys key. sent = Some p \<and> ParseRecord L (prRecordBytes p) = Inr parsed \<and>
       mhGroupId parsed = groupId \<and> stEpochKeys (hStore h) ctx s groupId (mhEpoch parsed) = Inr keys \<and>
       ekWriteKey keys = Some key \<and> VerifyWriteAuth L key (acServerNonce conn) parsed \<and>
       (mhSizeBucket parsed \<noteq> SizeBucketBlob L \<longrightarrow>
          ContentSHA256 L (case mCtBody parsed of None \<Rightarrow> [] | Some b \<Rightarrow> b) = mhBodyHash parsed))"

lemma authenticated_records:
  assumes "shaped L h pass" and k: "list_all2 (\<lambda>r r'. \<exists>keys key.
      stEpochKeys (hStore h) ctx s (spGroupId pass) (mhEpoch (rpParsed r)) = Inr keys \<and>
      ekWriteKey keys = Some key \<and> r' = r\<lparr>rpWriteKey := key\<rparr>) (spRecords pass) rs"
    and v: "\<forall>r \<in> set rs. VerifyWriteAuth L (rpWriteKey r) (acServerNonce conn) (rpParsed r)"
    and b: "\<forall>r \<in> set rs. bodyHash L r = REASON_OK"
    and sent: "sent \<in> set (spProjections pass)"
  shows "authenticated L h ctx conn (spGroupId pass) s sent"
proof -
  from sent obtain i where i: "i < length (spProjections pass)" "sent = spProjections pass ! i"
    by (auto simp: in_set_conv_nth)
  have l: "length (spRecords pass) = length (spProjections pass)" "length rs = length (spProjections pass)"
    using assms(1) list_all2_lengthD [OF k] by (auto simp: shaped_def dest: list_all2_lengthD)
  let ?p = "spRecords pass ! i"
  obtain t where p: "staticShape L h t (spGroupId pass) sent = Inr ?p"
    using assms(1) i by (auto simp: shaped_def dest: list_all2_nthD)
  obtain keys key where e: "stEpochKeys (hStore h) ctx s (spGroupId pass) (mhEpoch (rpParsed ?p)) = Inr keys"
    "ekWriteKey keys = Some key" "rs ! i = ?p\<lparr>rpWriteKey := key\<rparr>"
    using list_all2_nthD [OF k, of i] i l by auto
  have "rs ! i \<in> set rs" using i l by simp
  from bspec [OF v this] bspec [OF b this] e(3)
  have "VerifyWriteAuth L key (acServerNonce conn) (rpParsed ?p)" "bodyHash L ?p = REASON_OK"
    by simp_all
  then show ?thesis
    using staticShape_Inr(1-3) [OF p] e unfolding authenticated_def bodyHash_def
    by (intro exI [of _ "rpProjection ?p"] exI [of _ "rpParsed ?p"] exI [of _ keys] exI [of _ key])
       (auto split: if_splits)
qed

text \<open>
  Behind check 3 a submission is refused with the store and the subscriptions untouched, or every
  record is authenticated and the transaction runs.
\<close>

lemma stages_after_shape:
  assumes none: "spResponse p = None"
  obtains (refused) w' pass' r where "runStages (tl (submitStages L h ctx ck)) p w = Some (w', pass', r)"
      "rfReason r \<noteq> REASON_OK" "wStore w' = wStore w" "wSubs w' = wSubs w" "spResponse pass' = None"
      "spProjections pass' = spProjections p"
      "rfReason r = REASON_REJECTED \<or>
       (\<exists>ids e. Contains (hKnownGroups h) (hStore h) ctx (wStore w) (wKnown w) (spGroupId p) = (ids, Inl e))"
  | (through) w1 p1 where "wStore w1 = wStore w" "wSubs w1 = wSubs w" "p1 = p\<lparr>spRecords := spRecords p1\<rparr>"
      "list_all2 (\<lambda>r r'. \<exists>keys key.
         stEpochKeys (hStore h) ctx (wStore w) (spGroupId p) (mhEpoch (rpParsed r)) = Inr keys \<and>
         ekWriteKey keys = Some key \<and> r' = r\<lparr>rpWriteKey := key\<rparr>) (spRecords p) (spRecords p1)"
      "\<forall>r \<in> set (spRecords p1). VerifyWriteAuth L (rpWriteKey r) (acServerNonce (spConn p)) (rpParsed r)"
      "\<forall>r \<in> set (spRecords p1). bodyHash L r = REASON_OK"
      "runStages (tl (submitStages L h ctx ck)) p w = runStages [(9, runTransaction L h ctx)] p1 w1"
proof -
  obtain w5 p5 r5 where s5: "checkKnownGroup h ctx p w = Some (w5, p5, r5)" using stage_totals(1) by blast
  note f5 = checkKnownGroup_facts [OF s5]
  obtain w6 p6 r6 where s6: "checkEpochKey h ctx p w5 = Some (w6, p6, r6)" using stage_totals(2) by blast
  note f6 = checkEpochKey_facts [OF s6]
  obtain w7 p7 r7 where s7: "checkWriteAuth L p6 w5 = Some (w7, p7, r7)" by (simp add: checkWriteAuth_def)
  note f7 = checkWriteAuth_facts [OF s7]
  obtain w8 p8 r8 where s8: "checkBodyHash L p6 w5 = Some (w8, p8, r8)" by (simp add: checkBodyHash_def)
  note f8 = checkBodyHash_facts [OF s8]
  have run: "runStages (tl (submitStages L h ctx ck)) p w =
    (if rfReason r5 \<noteq> REASON_OK then Some (w5, p, r5)
     else if rfReason r6 \<noteq> REASON_OK then Some (w5, p6, r6)
     else if rfReason r7 \<noteq> REASON_OK then Some (w5, p6, r7)
     else if rfReason r8 \<noteq> REASON_OK then Some (w5, p6, r8)
     else runStages [(9, runTransaction L h ctx)] p6 w5)"
    using s5 s6 s7 s8 f5(3) f6(1) f7(1,2) f8(1,2) by (simp add: submitStages_def)
  show ?thesis
  proof (cases "rfReason r5 = REASON_OK \<and> rfReason r6 = REASON_OK \<and> rfReason r7 = REASON_OK \<and> rfReason r8 = REASON_OK")
    case False
    then consider "rfReason r5 \<noteq> REASON_OK" | "rfReason r5 = REASON_OK" "rfReason r6 \<noteq> REASON_OK"
      | "rfReason r5 = REASON_OK" "rfReason r6 = REASON_OK" "rfReason r7 \<noteq> REASON_OK"
      | "rfReason r5 = REASON_OK" "rfReason r6 = REASON_OK" "rfReason r7 = REASON_OK" "rfReason r8 \<noteq> REASON_OK"
      by blast
    then show ?thesis
    proof cases
      case 1
      show ?thesis by (rule that(1) [of w5 p r5]) (use 1 run f5 none in auto)
    next
      case 2
      show ?thesis by (rule that(1) [of w5 p6 r6]) (use 2 run f5(1,2) f6(1-5,7) none in auto)
    next
      case 3
      show ?thesis by (rule that(1) [of w5 p6 r7]) (use 3 run f5(1,2) f6(1-5) f7(3) none in auto)
    next
      case 4
      show ?thesis by (rule that(1) [of w5 p6 r8]) (use 4 run f5(1,2) f6(1-5) f8(3) none in auto)
    qed
  next
    case True
    then show ?thesis
      by (intro that(2) [of w5 p6, OF _ _ f6(6)]) (use run f5 f6(1-5,7,8) f7 f8 in simp_all)
  qed
qed

lemma stages_authenticated:
  assumes "shaped L h p" and "list_all2 (\<lambda>r r'. \<exists>keys key.
      stEpochKeys (hStore h) ctx (wStore w) (spGroupId p) (mhEpoch (rpParsed r)) = Inr keys \<and>
      ekWriteKey keys = Some key \<and> r' = r\<lparr>rpWriteKey := key\<rparr>) (spRecords p) (spRecords p1)"
    and "\<forall>r \<in> set (spRecords p1). VerifyWriteAuth L (rpWriteKey r) (acServerNonce (spConn p)) (rpParsed r)"
    and "\<forall>r \<in> set (spRecords p1). bodyHash L r = REASON_OK"
  shows "\<forall>sent \<in> set (spProjections p). authenticated L h ctx (spConn p) (spGroupId p) (wStore w) sent"
  using authenticated_records [OF assms] by blast

lemma submit_stages_facts:
  assumes "runStages (submitStages L h ctx ck) (newPass c q) w = Some (w', pass', r)"
  shows "(wStore w' = wStore w \<and> wSubs w' = wSubs w \<and> spResponse pass' = None) \<or>
    (wSubs w' = wSubs w \<and> length (psGroupId q) = GroupIdBytes \<and> psRecords q \<noteq> [] \<and>
     (\<forall>sent \<in> set (psRecords q). authenticated L h ctx c (psGroupId q) (wStore w) sent))"
proof -
  have n: "spResponse (newPass c q) = None" "spConn (newPass c q) = c" "spGroupId (newPass c q) = psGroupId q"
    "spProjections (newPass c q) = psRecords q" by (simp_all add: newPass_def)
  obtain w3 p3 r3 where s3: "checkStaticShape L h ck (newPass c q) w = Some (w3, p3, r3)"
    using checkStaticShape_total by metis
  note f3 = checkStaticShape_facts [OF s3]
  show ?thesis
  proof (cases "rfReason r3 = REASON_OK")
    case False
    with assms s3 f3 n show ?thesis by (simp add: submitStages_def)
  next
    case True
    have run: "runStages (tl (submitStages L h ctx ck)) p3 w = Some (w', pass', r)"
      using assms s3 f3(1) True by (simp add: submitStages_def)
    have "spResponse p3 = None" using f3 n by simp
    then show ?thesis
    proof (cases rule: stages_after_shape [where L = L and h = h and ctx = ctx and ck = ck and w = w])
      case (refused w'' pass'' r'')
      with run show ?thesis by simp
    next
      case (through w1 p1)
      with run obtain r1 where t: "runTransaction L h ctx p1 w1 = Some (w', pass', r1)"
        using runStages_last by fastforce
      from stages_authenticated [OF f3(6) [OF True] through(4-6)] runTransaction_facts [OF t] through(2) f3(2-4) n
        f3(6) [OF True]
      show ?thesis by (simp add: shaped_def)
    qed
  qed
qed

end
