(* ===== verification/Api_Properties.thy ===== *)
theory Api_Properties
  imports Api_Checks
begin

text \<open>
  What the request handlers promise: nothing is written without a key, a party without one learns
  nothing, a submitted record reads back as it was sent, delivered keys are aligned exactly as the
  rule says, and every submission is answered with one result per record.
\<close>

section \<open>Definitions of the statements\<close>

text \<open>A submission with a record no key authenticates on this connection.\<close>

definition keyless_submit :: "RecordLayer \<Rightarrow> ApiConnection \<Rightarrow> pSubmitRequest \<Rightarrow> bool" where
  "keyless_submit L c q \<longleftrightarrow>
     (\<exists>sent \<in> set (psRecords q). \<forall>p parsed key. sent = Some p \<longrightarrow> ParseRecord L (prRecordBytes p) = Inr parsed \<longrightarrow>
        \<not> VerifyWriteAuth L key (acServerNonce c) parsed)"

definition keyless_fetch :: "RecordLayer \<Rightarrow> ApiConnection \<Rightarrow> pFetchRequest \<Rightarrow> bool" where
  "keyless_fetch L c q \<longleftrightarrow>
     (\<forall>key op canonical. canonicalFetchBytes L q = Some canonical \<longrightarrow>
        \<not> VerifyRequestAuth L key (acServerNonce c) op canonical (pfReqAuth q))"

definition keyless_subscribe :: "RecordLayer \<Rightarrow> ApiConnection \<Rightarrow> pSubscribeRequest \<Rightarrow> bool" where
  "keyless_subscribe L c q \<longleftrightarrow>
     (\<forall>key op canonical. canonicalSubscribeBytes L q = Some canonical \<longrightarrow>
        \<not> VerifyRequestAuth L key (acServerNonce c) op canonical (pbReqAuth q))"

text \<open>The alignment rule, record by record, and the delivery it leaves.\<close>

definition deliveryAt :: "EpochKeyDelivery option list \<Rightarrow> nat \<Rightarrow> EpochKeyDelivery option" where
  "deliveryAt deliveries i = (if i < length deliveries then deliveries ! i else None)"

definition aligned :: "recordPass \<Rightarrow> EpochKeyDelivery option \<Rightarrow> bool" where
  "aligned r d \<longleftrightarrow>
     (if mhIsCommit (rpParsed r) \<and> maKind (rpAttachment r) = KindEpochDigest
      then \<exists>k. d = Some k \<and> length (kdWriteKey k) = EpochKeyBytes \<and> length (kdReadKey k) = EpochKeyBytes
      else d = None)"

definition lastDelivery :: "EpochKeyDelivery option list \<Rightarrow> nat \<Rightarrow> EpochKeyDelivery option \<times> int" where
  "lastDelivery deliveries n =
     (let delivered = filter (\<lambda>i. deliveryAt deliveries i \<noteq> None) [0 ..< n]
      in if delivered = [] then (None, wholeSubmission)
         else (deliveryAt deliveries (List.last delivered), int (List.last delivered)))"

text \<open>What the record layer documents of an attachment it parsed: the body of its tag is there.\<close>

definition hasBody :: "mAttachment \<Rightarrow> bool" where
  "hasBody a =
     (case maKind a of
        KindEpoch \<Rightarrow> maEpoch a \<noteq> None
      | KindWrap \<Rightarrow> maWrap a \<noteq> None
      | KindRecovery \<Rightarrow> maRecovery a \<noteq> None
      | KindComplete \<Rightarrow> maComplete a \<noteq> None
      | KindEpochDigest \<Rightarrow> maEpochDigest a \<noteq> None
      | _ \<Rightarrow> True)"

text \<open>
  What the party without a key is answered: what its own request says before any state is read, and
  behind that the merged refusal.
\<close>

definition rejectedResult :: pSubmitResult where
  "rejectedResult = \<lparr> pxReason = REASON_REJECTED, pxRecordId = 0, pxCurrentEpoch = 0, pxWinningCommit = None,
     pxApplied = None \<rparr>"

definition keylessSubmitAnswer ::
  "RecordLayer \<Rightarrow> 's Handler \<Rightarrow> Clock \<Rightarrow> ApiConnection \<Rightarrow> pSubmitRequest \<Rightarrow> 's World \<Rightarrow> pSubmitResult list Answer" where
  "keylessSubmitAnswer L h ck c q v =
     (case opOf L SubmitArm of
        Inl e \<Rightarrow> failed e
      | Inr op \<Rightarrow>
         (let x = snd (the (checkStaticShape L h ck (newPass c q) v))
          in if frontChecks h c op \<noteq> REASON_OK then padded h ck (frontChecks h c op)
             else if rfReason (snd x) \<noteq> REASON_OK then snd (answerSubmit h ck (v, x))
             else \<lparr> anReason = REASON_OK, anBody = Some (replicate (length (psRecords q)) rejectedResult),
                    anErr = None, anPad = pad h ck \<rparr>))"

definition keylessReadAnswer :: "RecordLayer \<Rightarrow> 's Handler \<Rightarrow> Clock \<Rightarrow> arm_of_body \<Rightarrow> ApiConnection \<Rightarrow> 'r Answer" where
  "keylessReadAnswer L h ck a c =
     (case opOf L a of
        Inl e \<Rightarrow> failed e
      | Inr op \<Rightarrow> padded h ck (if frontChecks h c op \<noteq> REASON_OK then frontChecks h c op else REASON_REJECTED))"

section \<open>A concrete record layer\<close>

definition demoComplete :: mAttachment where
  "demoComplete = \<lparr> maKind = KindComplete, maEpoch = None, maWrap = None, maRecovery = None,
     maComplete = Some \<lparr> mcEpoch = 1, mcWrapCount = 1 \<rparr>, maEpochDigest = None \<rparr>"

definition demoParsed :: mRecord where
  "demoParsed = \<lparr> mhGroupId = demoGroupId, mhSenderHandle = replicate 16 7, mhEpoch = 1, mhStreamIndex = 2,
     mhIsCommit = False, mhRetentionClass = 0, mhEphBucket = 0, mhEphWindow = 0, mhSizeBucket = 0,
     mhExpireAt = 0, mhBodyHash = replicate 32 3, mhBlobId = None, mhServerAttachment = [5],
     mCtHead = [1], mCtBody = None, mWriteAuth = [4] \<rparr>"

definition demoLayer :: RecordLayer where
  "demoLayer = \<lparr> ParseRecord = \<lambda>bs. if bs = [1] then Inr demoParsed else Inl (OtherError 0),
     EncodeRecord = \<lambda>r. Inr [1], ParseServerAttachment = \<lambda>bs. if bs = [5] then Inr demoComplete else Inl (OtherError 0),
     ParseEpochDigestAttachment = \<lambda>bs. Inl (OtherError 0), CheckEpochKeysDigest = \<lambda>_ _ _ _. None,
     VerifyWriteAuth = \<lambda>key nonce r. key = replicate 32 1 \<and> nonce = [9],
     VerifyRequestAuth = \<lambda>key nonce op bs auth. key = replicate 32 2 \<and> nonce = [9],
     RetentionClassWire = \<lambda>c b. if b = 0 then Inr c else Inl ErrRetentionClassUnknown,
     RetentionClassOf = \<lambda>c. Inr (c, 0), RetentionEph = 16, ZeroWriteAuth = [], EphBucketSeconds = \<lambda>_. 0,
     SizeBucketBlob = 5, SizeBucketCtBodyBytes = \<lambda>_. 0, SizeBucket64KBytes = 65536,
     ContentSHA256 = \<lambda>_. replicate 32 3, protoEqual = (\<lambda>a b. a = b), marshalFetch = \<lambda>q. Some [1],
     marshalSubscribe = \<lambda>q. Some [2], armNumber = \<lambda>_. Some 10 \<rparr>"


definition demoSent :: pRecord where
  "demoSent = \<lparr> prRecordBytes = [1], prRecordId = 0, prSenderHandle = replicate 16 7, prEpoch = 1,
     prStreamIndex = 2, prIsCommit = False, prRetentionClass = 0, prSizeBucket = 0, prExpireAtMs = 0,
     prBodyHash = replicate 32 3, prBlobId = None, prWrapTargetHandle = None, prRecoveryHandle = None,
     prUnknown = [] \<rparr>"

definition demoHandler :: "MemoryStore Handler" where
  "demoHandler = \<lparr> hStore = memoryOps id 0, hKnownGroups = storeKnownGroups, hFront = ChecksNotImplemented,
     hMaxCtHeadBytes = 100, hMaxRecordsPerSubmit = 256, hMaxRecordsPerFetch = 512, hRejectFloor = 1000,
     hSubscriptions = True, hLinkBoxes = False, hLinkBoxTtl = DefaultLinkBoxTtl,
     hLinkBoxLiveCap = DefaultLinkBoxLiveCap \<rparr>"

definition demoWorld :: "MemoryStore \<Rightarrow> MemoryStore World" where
  "demoWorld s = \<lparr> wStore = s, wKnown = [], wSubs = NewSubscriptions \<rparr>"

definition demoClock :: Clock where
  "demoClock = \<lparr> ckStarted = 0, ckShape = \<lambda>_. 0, ckPad = 10 \<rparr>"

definition demoConn :: "byte \<Rightarrow> ApiConnection" where
  "demoConn n = \<lparr> acServerNonce = [n], acClientId = [1] \<rparr>"

definition demoRequest :: pSubmitRequest where
  "demoRequest = \<lparr> psGroupId = demoGroupId, psRecords = [Some demoSent], psEpochKeys = [] \<rparr>"

definition demoFetch :: pFetchRequest where
  "demoFetch = \<lparr> pfGroupId = demoGroupId, pfSinceRecordId = 0, pfLimit = 0, pfHeadsOnly = False,
     pfClassMask = 0, pfReadEpoch = 1, pfReqAuth = [6] \<rparr>"

definition demoSubscribe :: pSubscribeRequest where
  "demoSubscribe = \<lparr> pbSubscriptions = [(demoGroupId, 0)], pbReadEpoch = 1, pbReplace = False, pbReqAuth = [6] \<rparr>"

section \<open>Nothing is written without a key\<close>

lemma behindFront_cases:
  assumes "behindFront L h ck a conn request w k = Some (w', answer)"
  obtains (front) "w' = w" "anBody answer = None" "anReason answer \<noteq> REASON_OK"
  | (behind) c q op where "conn = Some c" "request = Some q" "opOf L a = Inr op" "frontChecks h c op = REASON_OK"
      "k c q op = Some (w', answer)"
  using assms
  by (auto simp: behindFront_def failed_def bare_def padded_def split: option.splits sum.splits if_splits)

lemma answerSubmit_world:
  "wStore (fst (answerSubmit h ck (w, pass, r))) = wStore w"
  "spResponse pass = None \<Longrightarrow> wSubs (fst (answerSubmit h ck (w, pass, r))) = wSubs w"
  by (auto simp: answerSubmit_def publishAccepted_def split: option.split)

text \<open>
  C3: Nothing is written without a key. If a submission changes the store, or makes a subscriber owed
  a push, then it came over a connection that passed the front checks, and every record of the batch
  parses to a record of that group whose authenticator verifies, under this connection's nonce, with
  the write key the store held for the record's epoch when the request arrived, and whose inline body
  has the hash it claims. A request that fails on any record writes nothing for the others.
\<close>
theorem write_needs_key:
  assumes "Handler_Submit L h ctx ck conn request w = Some (w', answer)"
    and "wStore w' \<noteq> wStore w \<or> wSubs w' \<noteq> wSubs w"
  shows "\<exists>c q op. conn = Some c \<and> request = Some q \<and> opOf L SubmitArm = Inr op \<and> frontChecks h c op = REASON_OK \<and>
     length (psGroupId q) = 32 \<and> psRecords q \<noteq> [] \<and>
     (\<forall>sent \<in> set (psRecords q). authenticated L h ctx c (psGroupId q) (wStore w) sent)"
  using assms(1) unfolding Handler_Submit_def
proof (rule behindFront_cases)
  fix c q op
  assume f: "conn = Some c" "request = Some q" "opOf L SubmitArm = Inr op" "frontChecks h c op = REASON_OK"
    and "map_option (answerSubmit h ck) (runStages (submitStages L h ctx ck) (newPass c q) w) = Some (w', answer)"
  then obtain w1 pass r where run: "runStages (submitStages L h ctx ck) (newPass c q) w = Some (w1, pass, r)"
    and a: "answerSubmit h ck (w1, pass, r) = (w', answer)" by auto
  have "wStore w' = wStore w1" "spResponse pass = None \<Longrightarrow> wSubs w' = wSubs w1"
    using answerSubmit_world [where h = h and ck = ck and w = w1 and pass = pass and r = r] a by simp_all
  with submit_stages_facts [OF run] assms(2)
  have "length (psGroupId q) = GroupIdBytes \<and> psRecords q \<noteq> [] \<and>
      (\<forall>sent \<in> set (psRecords q). authenticated L h ctx c (psGroupId q) (wStore w) sent)" by argo
  with f show ?thesis by (simp add: GroupIdBytes_def)
qed (use assms(2) in simp)

lemma demo_submit:
  "some_sat (\<lambda>s. some_sat (\<lambda>(w', a). some_sat (\<lambda>g. length (mgRecords g) = 2) (msGroups (wStore w') demoGroupId))
     (Handler_Submit demoLayer demoHandler None demoClock (Some (demoConn 9)) (Some demoRequest) (demoWorld s)) \<and>
     some_sat (\<lambda>g. length (mgRecords g) = 1) (msGroups s demoGroupId)) (demoRun [])"
  by code_simp

theorem write_needs_key_witness:
  "\<exists>s w' answer. Handler_Submit demoLayer demoHandler None demoClock (Some (demoConn 9)) (Some demoRequest)
       (demoWorld s) = Some (w', answer) \<and> wStore w' \<noteq> s \<and>
     authenticated demoLayer demoHandler None (demoConn 9) demoGroupId s (Some demoSent)"
proof -
  from demo_submit obtain s w' a g g' where d:
    "Handler_Submit demoLayer demoHandler None demoClock (Some (demoConn 9)) (Some demoRequest) (demoWorld s) = Some (w', a)"
    "msGroups (wStore w') demoGroupId = Some g" "length (mgRecords g) = 2"
    "msGroups s demoGroupId = Some g'" "length (mgRecords g') = 1"
    by (auto simp: some_sat_iff)
  then have n: "wStore w' \<noteq> wStore (demoWorld s)" by (auto simp: demoWorld_def)
  from write_needs_key [OF d(1)] n d(1) show ?thesis
    by (auto simp: demoRequest_def demoWorld_def)
qed


section \<open>A party without a key learns nothing\<close>

lemma refusal_all_rejected:
  "rfReason r = REASON_REJECTED \<Longrightarrow>
     submitRefuseBatch pass r = replicate (length (spProjections pass)) rejectedResult"
  by (rule nth_equalityI) (simp_all add: submitRefuseBatch_def rejectedResult_def)

lemma answerSubmit_refused:
  "rfReason r \<noteq> REASON_OK \<Longrightarrow> answerSubmit h ck (w, p, r) = (w, snd (answerSubmit h ck (v, p, r)))"
  by (simp add: answerSubmit_def)

lemma runStages_refused:
  "checkStaticShape L h ck p w = Some (w', p', r) \<Longrightarrow> rfReason r \<noteq> REASON_OK \<Longrightarrow>
     runStages (submitStages L h ctx ck) p w = Some (w', p', r)"
  by (simp add: submitStages_def)

text \<open>
  What the handlers rely on of a store: asked about an identifier of the right width, it says that the
  group is there or that it is unavailable, and nothing else.
\<close>

locale answering_store =
  fixes ops :: "'s Store" and ctx :: ctx
  assumes group_state_answers:
    "length g = GroupIdBytes \<Longrightarrow> stGroupState ops ctx s g = Inl e \<Longrightarrow> e = ErrGroupUnavailable"
begin

lemma contains_answers:
  assumes "length g = GroupIdBytes"
  shows "\<exists>ids b. Contains kind ops ctx s known g = (ids, Inr b)"
  using group_state_answers [OF assms]
  by (auto simp: Contains_def store_Contains_def split: KnownGroups.split sum.split)

lemma submit_keyless_stages:
  assumes h: "hStore h = ops" and k: "keyless_submit L c q"
    and s: "checkStaticShape L h ck (newPass c q) w = Some (w, p, r3)" "rfReason r3 = REASON_OK"
  shows "\<exists>w' pass' r. runStages (submitStages L h ctx ck) (newPass c q) w = Some (w', pass', r) \<and>
    rfReason r = REASON_REJECTED \<and> spProjections pass' = psRecords q \<and> wStore w' = wStore w \<and> wSubs w' = wSubs w"
proof -
  note f = checkStaticShape_facts [OF s(1)]
  have n: "spResponse p = None" "spConn p = c" "spGroupId p = psGroupId q" "spProjections p = psRecords q"
    using f(2-5) by (simp_all add: newPass_def)
  have sh: "shaped L h p" by (rule f(6) [OF s(2)])
  have run: "runStages (submitStages L h ctx ck) (newPass c q) w = runStages (tl (submitStages L h ctx ck)) p w"
    using s by (simp add: submitStages_def)
  have g: "length (spGroupId p) = GroupIdBytes" using sh by (simp add: shaped_def)
  from n(1) show ?thesis
  proof (cases rule: stages_after_shape [where L = L and h = h and ctx = ctx and ck = ck and w = w])
    case (refused w' pass' r)
    with contains_answers [OF g, of "hKnownGroups h" "wStore w" "wKnown w"] h run n show ?thesis by auto
  next
    case (through w1 p1)
    with k stages_authenticated [OF sh through(4-6)] n show ?thesis
      unfolding keyless_submit_def authenticated_def by (metis sum.inject(2))
  qed
qed

lemma submit_keyless:
  assumes h: "hStore h = ops" and k: "keyless_submit L c q"
  shows "\<exists>w'. Handler_Submit L h ctx ck (Some c) (Some q) w = Some (w', keylessSubmitAnswer L h ck c q v) \<and>
    wStore w' = wStore w \<and> wSubs w' = wSubs w"
proof -
  define x where "x = snd (the (checkStaticShape L h ck (newPass c q) v))"
  have s: "checkStaticShape L h ck (newPass c q) w = Some (w, fst x, snd x)"
    using checkStaticShape_world [of L h ck "newPass c q" w v] by (simp add: x_def)
  show ?thesis
  proof (cases "opOf L SubmitArm")
    case (Inl e)
    then show ?thesis by (simp add: Handler_Submit_def behindFront_def keylessSubmitAnswer_def)
  next
    case (Inr op)
    show ?thesis
    proof (cases "frontChecks h c op = REASON_OK \<and> rfReason (snd x) = REASON_OK")
      case True
      with submit_keyless_stages [OF h k s] obtain w' pass' r where
        "runStages (submitStages L h ctx ck) (newPass c q) w = Some (w', pass', r)" "rfReason r = REASON_REJECTED"
        "spProjections pass' = psRecords q" "wStore w' = wStore w" "wSubs w' = wSubs w" by blast
      moreover have "psRecords q \<noteq> []" using k by (auto simp: keyless_submit_def)
      ultimately show ?thesis
        using Inr True
        by (simp add: Handler_Submit_def behindFront_def keylessSubmitAnswer_def answerSubmit_def
            refusal_all_rejected Let_def flip: x_def)
    next
      case False
      with Inr runStages_refused [OF s] answerSubmit_refused [of "snd x" h ck w "fst x" v] show ?thesis
        by (cases "frontChecks h c op = REASON_OK")
           (simp_all add: Handler_Submit_def behindFront_def keylessSubmitAnswer_def Let_def flip: x_def)
    qed
  qed
qed

lemma fetch_keyless:
  assumes h: "hStore h = ops" and k: "keyless_fetch L c q"
  shows "\<exists>w'. Handler_Fetch L h ctx ck (Some c) (Some q) w = Some (w', keylessReadAnswer L h ck FetchArm c) \<and>
    wStore w' = wStore w \<and> wSubs w' = wSubs w"
proof (cases "length (pfGroupId q) = GroupIdBytes")
  case True
  from contains_answers [OF True, of "hKnownGroups h" "wStore w" "wKnown w"] obtain ids b where
    c: "Contains (hKnownGroups h) (hStore h) ctx (wStore w) (wKnown w) (pfGroupId q) = (ids, Inr b)" using h by blast
  show ?thesis
    using k c True
    by (auto simp: Handler_Fetch_def behindFront_def keylessReadAnswer_def fetchStages_def checkFetchShape_def
        checkFetchKnownGroup_def checkReadKey_def checkRequestAuth_def keyless_fetch_def Let_def
        split: sum.split option.split)
next
  case False
  then show ?thesis
    by (auto simp: Handler_Fetch_def behindFront_def keylessReadAnswer_def fetchStages_def checkFetchShape_def
        Let_def split: sum.split)
qed

lemma subscribe_keyless:
  assumes h: "hStore h = ops" and k: "keyless_subscribe L c q" and reg: "hSubscriptions h"
  shows "\<exists>w'. Handler_Subscribe L h ctx ck (Some c) (Some q) w = Some (w', keylessReadAnswer L h ck SubscribeArm c) \<and>
    wStore w' = wStore w \<and> wSubs w' = wSubs w"
proof (cases "\<exists>wanted. pbSubscriptions q = [wanted] \<and> length (fst wanted) = GroupIdBytes")
  case True
  then obtain wanted where q: "pbSubscriptions q = [wanted]" "length (fst wanted) = GroupIdBytes" by blast
  from contains_answers [OF q(2), of "hKnownGroups h" "wStore w" "wKnown w"] obtain ids b where
    c: "Contains (hKnownGroups h) (hStore h) ctx (wStore w) (wKnown w) (fst wanted) = (ids, Inr b)" using h by blast
  have "\<not> subscribeAuthorized L h ctx c op q (fst wanted) s" for op s
    using k by (auto simp: keyless_subscribe_def subscribeAuthorized_def split: option.split)
  with c q reg show ?thesis
    by (auto simp: Handler_Subscribe_def behindFront_def keylessReadAnswer_def Let_def split: sum.split)
next
  case False
  with reg show ?thesis
    by (auto simp: Handler_Subscribe_def behindFront_def keylessReadAnswer_def Let_def split: sum.split list.split)
qed

end

interpretation memory_answers: answering_store "memoryOps H now" None
  by unfold_locales (auto simp: memoryOps_def MemoryStore_GroupState_def checkLength_def split: option.splits if_splits)

text \<open>
  C8: A party without a key learns nothing. Take a request on any of the three arms that carry an
  authenticator: a submission with a record that no key authenticates on this connection, a fetch or
  a subscription whose authenticator verifies under no key. The answer, its body, its reason and the
  rest of the latency floor, is the same whatever the server stores, which groups exist or are closed,
  and what its filter has cached; and the request leaves the store and the subscriptions as they were.
\<close>
theorem keyless_learns_nothing:
  assumes "hStore h = memoryOps H now" and "hSubscriptions h"
    and "keyless_submit L c q" and "keyless_fetch L c fq" and "keyless_subscribe L c sq"
  shows "(\<exists>answer. \<forall>w. \<exists>w'. Handler_Submit L h None ck (Some c) (Some q) w = Some (w', answer) \<and>
      wStore w' = wStore w \<and> wSubs w' = wSubs w) \<and>
    (\<exists>answer. \<forall>w. \<exists>w'. Handler_Fetch L h None ck (Some c) (Some fq) w = Some (w', answer) \<and>
      wStore w' = wStore w \<and> wSubs w' = wSubs w) \<and>
    (\<exists>answer. \<forall>w. \<exists>w'. Handler_Subscribe L h None ck (Some c) (Some sq) w = Some (w', answer) \<and>
      wStore w' = wStore w \<and> wSubs w' = wSubs w)"
  using memory_answers.submit_keyless [OF assms(1,3)] memory_answers.fetch_keyless [OF assms(1,4)]
    memory_answers.subscribe_keyless [OF assms(1,5,2)] by blast

lemma demo_keyless:
  "keyless_submit demoLayer (demoConn 8) demoRequest" "keyless_fetch demoLayer (demoConn 8) demoFetch"
  "keyless_subscribe demoLayer (demoConn 8) demoSubscribe"
  by (simp_all add: keyless_submit_def keyless_fetch_def keyless_subscribe_def demoLayer_def demoConn_def
      demoRequest_def demoSent_def)

theorem keyless_learns_nothing_witness:
  "\<exists>answer. \<forall>w. \<exists>w'. Handler_Submit demoLayer demoHandler None demoClock (Some (demoConn 8)) (Some demoRequest) w
     = Some (w', answer) \<and> wStore w' = wStore w \<and> wSubs w' = wSubs w"
  using keyless_learns_nothing [of demoHandler id 0, OF _ _ demo_keyless] by (simp add: demoHandler_def)

section \<open>A submitted record reads back\<close>

lemma projectionOf_body [simp]:
  "projectionOf L (m\<lparr>mCtBody := b, mWriteAuth := a\<rparr>) attachment = projectionOf L m attachment"
  by (simp add: projectionOf_def split: sum.split)

text \<open>
  C14: A submitted record reads back. A record that passed check 3 and was stored as its columns is
  served from its row with the assigned id, with \<open>record_bytes\<close> the encoding of exactly the record
  that was parsed, less the authenticator and, when only heads are asked for, the body; and the
  projection served beside them is equal, as a message, to the one the submitter sent.
\<close>
theorem submitted_reads_back:
  assumes "staticShape L h t groupId (Some sent) = Inr p" and "columnsOf L p = Some (Inr record)"
    and "rrRecord row = record\<lparr>rRecordId := n, rPruneAfter := None\<rparr>"
    and "\<And>c b w. RetentionClassWire L c b = Inr w \<Longrightarrow> RetentionClassOf L w = Inr (c, b)"
    and "length groupId = 32" "length (mhSenderHandle (rpParsed p)) = 16" "length (mhBodyHash (rpParsed p)) = 32"
    and "EncodeRecord L ((rpParsed p)\<lparr>mCtBody := (if headsOnly then None else mCtBody (rpParsed p)),
           mWriteAuth := ZeroWriteAuth L\<rparr>) = Inr encoded"
  shows "\<exists>served. rebuildRecord L groupId (read row headsOnly) headsOnly = Inr served \<and>
     prRecordBytes served = encoded \<and> prRecordId served = n \<and>
     protoEqual L (served\<lparr>prRecordBytes := [], prRecordId := 0\<rparr>) (sent\<lparr>prRecordBytes := [], prRecordId := 0\<rparr>)"
proof -
  note s = staticShape_Inr [OF assms(1)]
  let ?m = "rpParsed p"
  from assms(2) obtain wire attachment where
    w: "RetentionClassWire L (mhRetentionClass ?m) (mhEphBucket ?m) = Inr wire"
    and r: "rSenderHandle record = mhSenderHandle ?m" "rEpoch record = mhEpoch ?m" "rStreamIndex record = mhStreamIndex ?m"
    "rIsCommit record = mhIsCommit ?m" "rRetentionClass record = wire" "rEphWindow record = mhEphWindow ?m"
    "rSizeBucket record = mhSizeBucket ?m" "rExpireAtMs record = mhExpireAt ?m" "rBodyHash record = mhBodyHash ?m"
    "rCtHead record = mCtHead ?m" "rCtBody record = mCtBody ?m" "rBlobId record = mhBlobId ?m"
    "rServerAttachment record = mhServerAttachment ?m"
    by (auto simp: columnsOf_def Let_def split: sum.splits)
  have c: "RetentionClassOf L wire = Inr (mhRetentionClass ?m, mhEphBucket ?m)" by (rule assms(4) [OF w])
  let ?b = "?m\<lparr>mCtBody := (if headsOnly then None else mCtBody ?m), mWriteAuth := ZeroWriteAuth L\<rparr>"
  have rd: "rRetentionClass (read row headsOnly) = wire" "rSenderHandle (read row headsOnly) = mhSenderHandle ?m"
    "rBodyHash (read row headsOnly) = mhBodyHash ?m" "rRecordId (read row headsOnly) = n"
    using assms(3) r by (simp_all add: read_def Let_def split: option.split)
  have b: "rebuiltOf L groupId (read row headsOnly) (mhRetentionClass ?m, mhEphBucket ?m) headsOnly = ?b"
    using assms(3) r s(3) by (simp add: rebuiltOf_def read_def Let_def split: option.split)
  from s(6) obtain implied where i: "projectionOf L ?m (rpAttachment p) = Some implied"
    "protoEqual L implied (sent\<lparr>prRecordBytes := [], prRecordId := 0\<rparr>)" using s(1) by auto
  have "implied\<lparr>prRecordBytes := [], prRecordId := 0\<rparr> = implied"
    using i(1) by (auto simp: projectionOf_def split: sum.splits)
  with i assms(5-8) c rd b s(1,4) show ?thesis
    by (simp add: rebuildRecord_def Let_def GroupIdBytes_def SenderHandleBytes_def BodyHashBytes_def)
qed

theorem submitted_reads_back_witness:
  "\<exists>record served. rebuildRecord demoLayer demoGroupId
       (read \<lparr> rrRecord = record\<lparr>rRecordId := 2, rPruneAfter := None\<rparr>, rrPruneAfter = Some 7, rrPruned = False,
          rrCreateTime = 0, rrPolicy = 1 \<rparr> False) False = Inr served \<and>
     rEpoch record = 1 \<and> prRecordBytes served = [1] \<and> prRecordId served = 2"
proof -
  let ?p = "\<lparr> rpProjection = demoSent, rpParsed = demoParsed, rpAttachment = demoComplete, rpWriteKey = [] \<rparr>"
  have s: "staticShape demoLayer demoHandler 0 demoGroupId (Some demoSent) = Inr ?p" by code_simp
  have "some_sat (right_sat (\<lambda>r. rEpoch r = 1)) (columnsOf demoLayer ?p)" by code_simp
  then obtain rec where r: "columnsOf demoLayer ?p = Some (Inr rec)" "rEpoch rec = 1"
    by (auto simp: some_sat_iff right_sat_iff)
  let ?row = "\<lparr> rrRecord = rec\<lparr>rRecordId := 2, rPruneAfter := None\<rparr>, rrPruneAfter = Some 7, rrPruned = False,
    rrCreateTime = 0, rrPolicy = 1 \<rparr>"
  have "RetentionClassWire demoLayer c b = Inr w \<Longrightarrow> RetentionClassOf demoLayer w = Inr (c, b)" for c b w
    by (simp add: demoLayer_def split: if_splits)
  from submitted_reads_back [OF s r(1) _ this, where row = ?row and n = 2 and headsOnly = False and encoded = "[1]"]
  obtain served where "rebuildRecord demoLayer demoGroupId (read ?row False) False = Inr served"
    "prRecordBytes served = [1]" "prRecordId served = 2"
    by (auto simp: demoLayer_def demoGroupId_def demoParsed_def)
  with r(2) show ?thesis by blast
qed

section \<open>The alignment of delivered keys\<close>

lemma lastDelivery_Suc:
  "lastDelivery ds (Suc n) = (if deliveryAt ds n = None then lastDelivery ds n else (deliveryAt ds n, int n))"
  by (simp add: lastDelivery_def Let_def)

lemma alignLoop_good:
  "aligned r (deliveryAt ds i) \<Longrightarrow> alignLoop ds i w (r # rs) =
     alignLoop ds (Suc i) (if deliveryAt ds i = None then w else (deliveryAt ds i, int i)) rs"
  by (cases "deliveryAt ds i") (auto simp: aligned_def Let_def EpochKeyBytes_def simp flip: deliveryAt_def split: if_splits)

lemma alignLoop_bad:
  "\<not> aligned r (deliveryAt ds i) \<Longrightarrow> \<exists>e. alignLoop ds i w (r # rs) = Inl e"
  by (cases "deliveryAt ds i") (auto simp: aligned_def Let_def simp flip: deliveryAt_def split: if_splits)

lemma alignLoop_iff:
  "alignLoop ds i (lastDelivery ds i) rs = Inr x \<longleftrightarrow>
     (\<forall>j < length rs. aligned (rs ! j) (deliveryAt ds (i + j))) \<and> x = lastDelivery ds (i + length rs)"
proof (induction rs arbitrary: i)
  case (Cons r rs)
  show ?case
  proof (cases "aligned r (deliveryAt ds i)")
    case True
    have "alignLoop ds i (lastDelivery ds i) (r # rs) = alignLoop ds (Suc i) (lastDelivery ds (Suc i)) rs"
      by (simp only: alignLoop_good [OF True] lastDelivery_Suc)
    with Cons [of "Suc i"] True show ?thesis by (simp only:) (auto simp: All_less_Suc2)
  next
    case False
    with alignLoop_bad [OF False, of "lastDelivery ds i" rs] show ?thesis
      by (auto simp del: alignLoop.simps)
  qed
qed auto

text \<open>
  C26: The alignment rule is exact. Delivered epoch keys pass check 3 if and only if the list is empty
  or as long as the batch, every commit that carries only a digest has opposite it a delivery whose
  two keys are 32 octets each, and no other record has one; the delivery handed on is then that of the
  last such commit, with its position, or none. No index is read past the end of a list.
\<close>
theorem alignment_rule:
  "epochKeyAlignment records deliveries = Inr (keys, index) \<longleftrightarrow>
     (deliveries = [] \<or> length deliveries = length records) \<and>
     (\<forall>i < length records. aligned (records ! i) (deliveryAt deliveries i)) \<and>
     (keys, index) = lastDelivery deliveries (length records)"
proof -
  have "lastDelivery deliveries 0 = (None, wholeSubmission)" by (simp add: lastDelivery_def)
  with alignLoop_iff [of deliveries 0 records "(keys, index)"] show ?thesis
    by (auto simp: epochKeyAlignment_def)
qed

theorem alignment_rule_witness:
  "epochKeyAlignment [\<lparr> rpProjection = demoSent, rpParsed = demoParsed\<lparr>mhIsCommit := True\<rparr>,
       rpAttachment = demoComplete\<lparr>maKind := KindEpochDigest\<rparr>, rpWriteKey = [] \<rparr>]
     [Some \<lparr> kdWriteKey = replicate 32 1, kdReadKey = replicate 32 2 \<rparr>] =
   Inr (Some \<lparr> kdWriteKey = replicate 32 1, kdReadKey = replicate 32 2 \<rparr>, 0)"
  unfolding alignment_rule by (simp add: aligned_def deliveryAt_def lastDelivery_def Let_def EpochKeyBytes_def)

section \<open>Every submission is answered\<close>

lemma commitLoop_keeps_length:
  "commitLoop H limits now st keys i g ps = Some (g', ps') \<Longrightarrow> length ps' = length ps"
proof (induction H limits now st keys i g ps arbitrary: g' ps' rule: commitLoop.induct)
  case (2 H limits now st keys i g p ps)
  then show ?case by (cases "pSettled p") (auto simp: bind_eq_Some_conv)
qed simp

lemma submitGroup_answer_length:
  assumes "submitGroup H limits now grp keys batch = Some (grp', results)"
  shows "length results = length batch"
proof -
  have c: "length results = length ps" if "commit H limits now g st keys ps = Some (g', results)" for g st ps g'
    using that
    by (auto simp: commit_def Let_def bind_eq_Some_conv refuseBatch_def fill_nth dest!: commitLoop_keeps_length
        split: option.splits)
  show ?thesis
    using assms
    by (auto simp: submitGroup_def Let_def bind_eq_Some_conv refuseBatch_def refuseUnavailable_def fill_nth dest!: c
        split: option.splits if_splits)
qed

lemma Submit_answer_length:
  assumes "Submit H ctx now s q = Some (s', Inr results)"
  shows "length results = length (sqRecords q)"
proof -
  from assms obtain f where f: "submitBegin H ctx s q = Inr f" "submitEnd H now s f = Some (s', results)"
    by (auto simp: Submit_def split: sum.splits)
  have "length (ifBatch f) = length (sqRecords q)" using submitBegin_ok(2) [OF f(1)] by (metis length_map)
  with f(2) show ?thesis by (auto simp: submitEnd_def bind_eq_Some_conv dest!: submitGroup_answer_length)
qed

lemma Submit_total:
  assumes "reachable H s fs" and "small s"
    and "\<And>gid g. msGroups s gid = Some g \<Longrightarrow> length (group_log g) + length (sqRecords q) < 2 ^ 64"
  shows "\<exists>s' answer. Submit H ctx now s q = Some (s', answer)"
proof (cases "submitBegin H ctx s q")
  case (Inl e)
  then show ?thesis by (simp add: Submit_def)
next
  case (Inr f)
  have "length (ifBatch f) = length (sqRecords q)" using submitBegin_ok(2) [OF Inr] by (metis length_map)
  with submitEnd_total [OF submitBegin_ok(1) [OF Inr] reachable_inv(1) [OF assms(1,2)], of now] assms(3)
  obtain s' results where "submitEnd H now s f = Some (s', results)" by fastforce
  with Inr show ?thesis by (simp add: Submit_def)
qed

lemma parseServerAttachment_hasBody:
  assumes "\<And>bs a. ParseServerAttachment L bs = Inr a \<Longrightarrow> hasBody a" and "parseServerAttachment L bs = Inr a"
  shows "hasBody a"
  using assms by (auto simp: parseServerAttachment_def hasBody_def split: sum.splits if_splits)

lemma columnsOf_total:
  assumes "hasBody (rpAttachment r)"
  shows "\<exists>x. columnsOf L r = Some x"
  using assms by (auto simp: columnsOf_def hasBody_def attachmentOf_def Let_def split: sum.split mKind.splits)

lemma columnsLoop_total:
  assumes "\<forall>r \<in> set rs. hasBody (rpAttachment r)"
  shows "\<exists>x. columnsLoop L i rs = Some x \<and> (\<forall>records. x = Inr records \<longrightarrow> length records = length rs) \<and>
    (\<forall>e. x = Inl e \<longrightarrow> rfReason e \<noteq> REASON_OK)"
  using assms
proof (induction rs arbitrary: i)
  case (Cons r rs)
  then obtain x where x: "columnsLoop L (Suc i) rs = Some x" "\<forall>records. x = Inr records \<longrightarrow> length records = length rs"
    "\<forall>e. x = Inl e \<longrightarrow> rfReason e \<noteq> REASON_OK" by fastforce
  obtain y where "columnsOf L r = Some y" using columnsOf_total Cons.prems by fastforce
  with x show ?case by (cases x; cases y) (auto simp: refuse_def)
qed simp

definition answerShape :: "nat \<Rightarrow> pSubmitResult list Answer \<Rightarrow> bool" where
  "answerShape n answer =
     (case anBody answer of
        None \<Rightarrow> anReason answer \<noteq> REASON_OK
      | Some results \<Rightarrow> anReason answer = REASON_OK \<and> length results = n \<and>
          list_all (\<lambda>x. pxRecordId x = 0 \<or> accepted (pxReason x)) results)"

lemma transaction_answers:
  assumes "\<forall>r \<in> set (spRecords p). hasBody (rpAttachment r)"
    and "\<And>q. length (sqRecords q) = length (spRecords p) \<Longrightarrow> \<exists>s' a. stSubmit (hStore h) ctx (wStore w) q = Some (s', a) \<and>
      (\<forall>results. a = Inr results \<longrightarrow> length results = length (sqRecords q))"
  shows "\<exists>w' pass' r. runStages [(9, runTransaction L h ctx)] p w = Some (w', pass', r) \<and>
    spProjections pass' = spProjections p \<and>
    (rfReason r \<noteq> REASON_OK \<or> (\<exists>results. spResponse pass' = Some results \<and> length results = length (spRecords p) \<and>
       list_all (\<lambda>x. pxRecordId x = 0 \<or> accepted (pxReason x)) results))"
proof -
  obtain x where x: "columnsLoop L 0 (spRecords p) = Some x" "\<And>records. x = Inr records \<Longrightarrow> length records = length (spRecords p)"
    "\<And>e. x = Inl e \<Longrightarrow> rfReason e \<noteq> REASON_OK"
    using columnsLoop_total [OF assms(1)] by blast
  show ?thesis
  proof (cases x)
    case (Inl e)
    with x show ?thesis by (simp add: runTransaction_def)
  next
    case (Inr records)
    let ?q = "\<lparr> sqGroupId = spGroupId p, sqRecords = records, sqEpochKeys = deliveryOf (spKeys p) \<rparr>"
    obtain s' a where s: "stSubmit (hStore h) ctx (wStore w) ?q = Some (s', a)"
      "\<And>results. a = Inr results \<Longrightarrow> length results = length (spRecords p)"
      using assms(2) [of ?q] x(2) [OF Inr] by auto
    show ?thesis
      using x(1) Inr s
      by (cases a) (simp_all add: runTransaction_def refuse_def passed_def list_all_iff resultOf_def)
  qed
qed

lemma list_all2_keeps:
  assumes "list_all2 (\<lambda>r r'. \<exists>keys key. Q r keys key \<and> r' = r\<lparr>rpWriteKey := key\<rparr>) rs rs'"
    and "\<forall>r \<in> set rs. hasBody (rpAttachment r)"
  shows "length rs' = length rs \<and> (\<forall>r \<in> set rs'. hasBody (rpAttachment r))"
  using assms by (induction rs rs' rule: list_all2_induct) auto

lemma shaped_hasBody:
  assumes "shaped L h p" and "\<And>bs a. ParseServerAttachment L bs = Inr a \<Longrightarrow> hasBody a"
  shows "\<forall>r \<in> set (spRecords p). hasBody (rpAttachment r)" and "length (spRecords p) = length (spProjections p)"
proof -
  have a: "list_all2 (\<lambda>r p'. \<exists>t. staticShape L h t (spGroupId p) r = Inr p') (spProjections p) (spRecords p)"
    using assms(1) by (simp add: shaped_def)
  show "length (spRecords p) = length (spProjections p)" using list_all2_lengthD [OF a] by simp
  show "\<forall>r \<in> set (spRecords p). hasBody (rpAttachment r)"
  proof
    fix r assume "r \<in> set (spRecords p)"
    then obtain i where "i < length (spRecords p)" "r = spRecords p ! i" by (auto simp: in_set_conv_nth)
    with list_all2_nthD2 [OF a, of i] obtain x t where "staticShape L h t (spGroupId p) x = Inr r" by auto
    from staticShape_Inr(4) [OF this] show "hasBody (rpAttachment r)"
      by (rule parseServerAttachment_hasBody [rotated]) (rule assms(2))
  qed
qed

lemma stages_answer:
  assumes body: "\<And>bs a. ParseServerAttachment L bs = Inr a \<Longrightarrow> hasBody a"
    and total: "\<And>q'. length (sqRecords q') = length (psRecords q) \<Longrightarrow>
      \<exists>s' a. stSubmit (hStore h) ctx (wStore w) q' = Some (s', a) \<and>
        (\<forall>results. a = Inr results \<longrightarrow> length results = length (sqRecords q'))"
  shows "\<exists>w' pass' r. runStages (submitStages L h ctx ck) (newPass c q) w = Some (w', pass', r) \<and>
    spProjections pass' = psRecords q \<and>
    (rfReason r \<noteq> REASON_OK \<or> (\<exists>results. spResponse pass' = Some results \<and> length results = length (psRecords q) \<and>
       list_all (\<lambda>x. pxRecordId x = 0 \<or> accepted (pxReason x)) results))"
proof -
  obtain w3 p3 r3 where s3: "checkStaticShape L h ck (newPass c q) w = Some (w3, p3, r3)"
    using checkStaticShape_total by metis
  note f = checkStaticShape_facts [OF s3]
  have n: "spResponse p3 = None" "spProjections p3 = psRecords q" using f(4,5) by (simp_all add: newPass_def)
  show ?thesis
  proof (cases "rfReason r3 = REASON_OK")
    case False
    with runStages_refused [OF s3] n show ?thesis by simp
  next
    case True
    have sh: "\<forall>r \<in> set (spRecords p3). hasBody (rpAttachment r)" "length (spRecords p3) = length (spProjections p3)"
      using shaped_hasBody [OF f(6) [OF True]] body by blast+
    have run: "runStages (submitStages L h ctx ck) (newPass c q) w = runStages (tl (submitStages L h ctx ck)) p3 w"
      using s3 True f(1) by (simp add: submitStages_def)
    from n(1) show ?thesis
    proof (cases rule: stages_after_shape [where L = L and h = h and ctx = ctx and ck = ck and w = w])
      case (refused w' pass' r)
      with run n show ?thesis by auto
    next
      case (through w1 p1)
      have b: "length (spRecords p1) = length (psRecords q)" "\<forall>r \<in> set (spRecords p1). hasBody (rpAttachment r)"
        using list_all2_keeps [where Q = "\<lambda>r keys key. stEpochKeys (hStore h) ctx (wStore w) (spGroupId p3) (mhEpoch (rpParsed r)) = Inr keys
          \<and> ekWriteKey keys = Some key", of "spRecords p3" "spRecords p1"] through(4) sh n by simp_all
      have "spProjections p1 = psRecords q" using arg_cong [OF through(3), of spProjections] n by simp
      with transaction_answers [OF b(2), of h ctx w1 L] total b(1) through(1,7) run show ?thesis by simp
    qed
  qed
qed

text \<open>
  C28: Every submission is answered, in the shape the protocol gives it. Over the store in any state it
  can reach, while its groups have ids left, and with a record layer that hands over the body of every
  attachment it parses, a submission never makes the handler fail: it is answered with a body of
  exactly one result per record under \<open>REASON_OK\<close>, in which only an accepted record names an id, or
  with no body and the reason on the envelope.
\<close>
theorem submit_answer_shape:
  assumes "reachable H (wStore w) fs" and "small (wStore w)"
    and "\<And>gid g. msGroups (wStore w) gid = Some g \<Longrightarrow> length (group_log g) + length (psRecords q) < 2 ^ 64"
    and "hStore h = memoryOps H now" and "\<And>bs a. ParseServerAttachment L bs = Inr a \<Longrightarrow> hasBody a"
  shows "\<exists>w' answer. Handler_Submit L h ctx ck (Some c) (Some q) w = Some (w', answer) \<and>
    answerShape (length (psRecords q)) answer"
proof -
  have t: "\<exists>s' a. stSubmit (hStore h) ctx (wStore w) q' = Some (s', a) \<and>
      (\<forall>results. a = Inr results \<longrightarrow> length results = length (sqRecords q'))"
    if "length (sqRecords q') = length (psRecords q)" for q'
    using Submit_total [OF assms(1,2), of q' ctx now] assms(3) Submit_answer_length assms(4) that
    by (auto simp: memoryOps_def)
  obtain w' pass' r where run: "runStages (submitStages L h ctx ck) (newPass c q) w = Some (w', pass', r)"
    "spProjections pass' = psRecords q"
    "rfReason r \<noteq> REASON_OK \<or> (\<exists>results. spResponse pass' = Some results \<and> length results = length (psRecords q) \<and>
       list_all (\<lambda>x. pxRecordId x = 0 \<or> accepted (pxReason x)) results)"
    using stages_answer [of L q h ctx w ck c] assms(5) t by blast
  have a: "answerShape (length (psRecords q)) (snd (answerSubmit h ck (w', pass', r)))"
    using run(2,3)
    by (auto simp: answerShape_def answerSubmit_def padded_def submitRefuseBatch_def list_all_iff)
  obtain w2 answer where "answerSubmit h ck (w', pass', r) = (w2, answer)" by (cases "answerSubmit h ck (w', pass', r)")
  with a run(1) show ?thesis
    by (auto simp: Handler_Submit_def behindFront_def answerShape_def failed_def padded_def split: sum.split)
qed

theorem submit_answer_shape_witness:
  "\<exists>s w' answer. Handler_Submit demoLayer demoHandler None demoClock (Some (demoConn 9)) (Some demoRequest)
     (demoWorld s) = Some (w', answer) \<and> msGroups s demoGroupId \<noteq> None \<and> answerShape 1 answer"
proof -
  from demo_submit obtain s g where s: "demoRun [] = Some s" "msGroups s demoGroupId = Some g" "length (mgRecords g) = 1"
    by (auto simp: some_sat_iff)
  have l: "length (group_log g) = 1" using s(3) by (simp add: group_log_def)
  note r = demoRun_reachable [OF s(1,2)] demoRun_steps [OF s(1)]
  have "\<exists>w' answer. Handler_Submit demoLayer demoHandler None demoClock (Some (demoConn 9)) (Some demoRequest)
     (demoWorld s) = Some (w', answer) \<and> answerShape (length (psRecords demoRequest)) answer"
    by (rule submit_answer_shape [of id _ "[]"])
       (use r l s in \<open>auto simp: demoWorld_def demoHandler_def demoRequest_def demoLayer_def hasBody_def demoComplete_def split: if_splits\<close>)
  with s(2) show ?thesis by (auto simp: demoRequest_def)
qed

end
