(* ===== verification/Binary_Heap.thy ===== *)
theory Binary_Heap
  imports Main "HOL-Library.Multiset"
begin

text \<open>
  Go's \<open>container/heap\<close> on a slice, as the rendezvous registry uses it: the sift loops \<open>up\<close> and
  \<open>down\<close>, \<open>Push\<close> and \<open>Pop\<close>, over any key. The order of the slice is the library's, element by
  element, so what the registry reads at index 0 is what the code reads there.

  The interface \<open>min_queue\<close> is what a caller relies on: pushing adds an element, popping hands over
  an element with the least key and removes it, and the head of the queue is the one it will hand over.
\<close>

section \<open>The library's loops\<close>

definition swapped :: "nat \<Rightarrow> nat \<Rightarrow> 'a list \<Rightarrow> 'a list" where
  "swapped i j h = h[i := h ! j, j := h ! i]"

function heapUp :: "('a \<Rightarrow> int) \<Rightarrow> 'a list \<Rightarrow> nat \<Rightarrow> 'a list" where
  "heapUp key h j =
     (let i = (j - 1) div 2
      in if i = j \<or> \<not> key (h ! j) < key (h ! i) then h else heapUp key (swapped i j h) i)"
  by pat_completeness auto
termination by (relation "measure (\<lambda>(key, h, j). j)") auto

definition lesserChild :: "('a \<Rightarrow> int) \<Rightarrow> 'a list \<Rightarrow> nat \<Rightarrow> nat \<Rightarrow> nat" where
  "lesserChild key h i n =
     (let j1 = 2 * i + 1 in if j1 + 1 < n \<and> key (h ! (j1 + 1)) < key (h ! j1) then j1 + 1 else j1)"

function heapDown :: "('a \<Rightarrow> int) \<Rightarrow> 'a list \<Rightarrow> nat \<Rightarrow> nat \<Rightarrow> 'a list" where
  "heapDown key h i n =
     (if n \<le> 2 * i + 1 then h
      else let j = lesserChild key h i n
           in if \<not> key (h ! j) < key (h ! i) then h else heapDown key (swapped i j h) j n)"
  by pat_completeness auto
termination by (relation "measure (\<lambda>(key, h, i, n). n - i)") (auto simp: lesserChild_def Let_def)

definition heapPush :: "('a \<Rightarrow> int) \<Rightarrow> 'a \<Rightarrow> 'a list \<Rightarrow> 'a list" where
  "heapPush key x h = heapUp key (h @ [x]) (length h)"

text \<open>Called on a slice that is not empty.\<close>

definition heapPop :: "('a \<Rightarrow> int) \<Rightarrow> 'a list \<Rightarrow> 'a \<times> 'a list" where
  "heapPop key h =
     (let n = length h - 1; h' = heapDown key (swapped 0 n h) 0 n in (h' ! n, take n h'))"

declare heapUp.simps [simp del] heapDown.simps [simp del]

text \<open>Among the first \<open>n\<close> elements no child comes before its parent.\<close>

definition heapOrdered :: "('a \<Rightarrow> int) \<Rightarrow> nat \<Rightarrow> 'a list \<Rightarrow> bool" where
  "heapOrdered key n h \<longleftrightarrow> (\<forall>j. 0 < j \<and> j < n \<longrightarrow> key (h ! ((j - 1) div 2)) \<le> key (h ! j))"

abbreviation isHeap :: "('a \<Rightarrow> int) \<Rightarrow> 'a list \<Rightarrow> bool" where
  "isHeap key h \<equiv> heapOrdered key (length h) h"

text \<open>The loops' invariants: order everywhere but around one place, and across it.\<close>

definition upOrdered :: "('a \<Rightarrow> int) \<Rightarrow> nat \<Rightarrow> 'a list \<Rightarrow> nat \<Rightarrow> bool" where
  "upOrdered key n h j \<longleftrightarrow>
     (\<forall>k. 0 < k \<and> k < n \<and> k \<noteq> j \<longrightarrow> key (h ! ((k - 1) div 2)) \<le> key (h ! k)) \<and>
     (\<forall>k. 0 < k \<and> k < n \<and> 0 < j \<and> (k - 1) div 2 = j \<longrightarrow> key (h ! ((j - 1) div 2)) \<le> key (h ! k))"

definition downOrdered :: "('a \<Rightarrow> int) \<Rightarrow> nat \<Rightarrow> 'a list \<Rightarrow> nat \<Rightarrow> bool" where
  "downOrdered key n h i \<longleftrightarrow>
     (\<forall>k. 0 < k \<and> k < n \<and> (k - 1) div 2 \<noteq> i \<longrightarrow> key (h ! ((k - 1) div 2)) \<le> key (h ! k)) \<and>
     (\<forall>k. 0 < k \<and> k < n \<and> 0 < i \<and> (k - 1) div 2 = i \<longrightarrow> key (h ! ((i - 1) div 2)) \<le> key (h ! k))"

section \<open>Order and contents\<close>

lemma swapped_length [simp]: "length (swapped i j h) = length h"
  by (simp add: swapped_def)

lemma swapped_mset:
  assumes "i < length h" "j < length h"
  shows "mset (swapped i j h) = mset h"
  using mset_swap [OF assms(2,1)] by (simp add: swapped_def)

lemma swapped_nth:
  assumes "i < length h" "j < length h"
  shows "swapped i j h ! k = (if k = j then h ! i else if k = i then h ! j else h ! k)"
  using assms by (auto simp: swapped_def nth_list_update)

lemma root_least:
  assumes "heapOrdered key n h" "j < n"
  shows "key (h ! 0) \<le> key (h ! j)"
  using assms(2)
proof (induction j rule: less_induct)
  case (less j)
  show ?case
  proof (cases "j = 0")
    case False
    then have "key (h ! 0) \<le> key (h ! ((j - 1) div 2))" using less by simp
    also have "\<dots> \<le> key (h ! j)" using assms(1) less.prems False by (simp add: heapOrdered_def)
    finally show ?thesis .
  qed simp
qed

lemma up_step:
  assumes "upOrdered key (length h) h j" "j < length h" "(j - 1) div 2 \<noteq> j"
    "key (h ! j) < key (h ! ((j - 1) div 2))"
  shows "upOrdered key (length h) (swapped ((j - 1) div 2) j h) ((j - 1) div 2)"
proof -
  define i where "i = (j - 1) div 2"
  have ij: "i < j" "i < length h" using assms by (auto simp: i_def)
  note at = swapped_nth [OF ij(2) assms(2)]
  have A: "\<And>k. 0 < k \<Longrightarrow> k < length h \<Longrightarrow> k \<noteq> j \<Longrightarrow> key (h ! ((k - 1) div 2)) \<le> key (h ! k)"
    and B: "\<And>k. 0 < k \<Longrightarrow> k < length h \<Longrightarrow> (k - 1) div 2 = j \<Longrightarrow> key (h ! i) \<le> key (h ! k)"
    using assms(1) ij(1) by (auto simp: upOrdered_def i_def)
  have lt: "key (h ! j) < key (h ! i)" using assms(4) by (simp add: i_def)
  show ?thesis
    unfolding upOrdered_def i_def [symmetric]
  proof (intro conjI allI impI, goal_cases)
    case (1 k)
    then have k: "0 < k" "k < length h" "k \<noteq> i" by auto
    consider "k = j" | "k \<noteq> j" "(k - 1) div 2 = i" | "(k - 1) div 2 = j" "k \<noteq> j"
      | "(k - 1) div 2 \<noteq> i" "(k - 1) div 2 \<noteq> j" "k \<noteq> j" by blast
    then show ?case
    proof cases
      case 1
      have "(j - 1) div 2 = i" by (simp add: i_def)
      with 1 show ?thesis using lt ij by (simp add: at del: One_nat_def)
    next
      case 2 then show ?thesis using lt ij k A [of k] by (simp add: at)
    next
      case 3 then show ?thesis using ij k B [of k] by (simp add: at)
    next
      case 4 then show ?thesis using ij k A [of k] by (simp add: at)
    qed
  next
    case (2 k)
    then have k: "0 < k" "k < length h" "0 < i" "(k - 1) div 2 = i" by auto
    have p: "(i - 1) div 2 \<noteq> i" "(i - 1) div 2 \<noteq> j" using k ij by auto
    have "key (h ! ((i - 1) div 2)) \<le> key (h ! i)" using A [of i] k ij by simp
    moreover have "k \<noteq> i" using k by auto
    ultimately show ?case using p k ij A [of k] by (auto simp: at)
  qed
qed

lemma up_heap:
  "upOrdered key (length h) h j \<Longrightarrow> j < length h \<Longrightarrow>
   isHeap key (heapUp key h j) \<and> mset (heapUp key h j) = mset h"
proof (induction key h j rule: heapUp.induct)
  case (1 key h j)
  let ?i = "(j - 1) div 2"
  show ?case
  proof (cases "?i = j \<or> \<not> key (h ! j) < key (h ! ?i)")
    case True
    have "isHeap key h"
      unfolding heapOrdered_def
    proof (intro allI impI)
      fix k assume k: "0 < k \<and> k < length h"
      show "key (h ! ((k - 1) div 2)) \<le> key (h ! k)"
        using True k 1(2) by (cases "k = j") (auto simp: upOrdered_def)
    qed
    then show ?thesis using True by (simp add: heapUp.simps [of key h j])
  next
    case False
    have lt: "?i < length h" using "1.prems" by auto
    have "upOrdered key (length (swapped ?i j h)) (swapped ?i j h) ?i"
      using up_step [OF "1.prems"] False by simp
    then show ?thesis
      using "1.IH" [OF refl] False lt swapped_mset [OF lt "1.prems"(2)]
      by (simp add: heapUp.simps [of key h j] Let_def)
  qed
qed

lemma push_heap:
  assumes "isHeap key h"
  shows "isHeap key (heapPush key x h)" "mset (heapPush key x h) = add_mset x (mset h)"
proof -
  have "upOrdered key (length (h @ [x])) (h @ [x]) (length h)"
    unfolding upOrdered_def
  proof (intro conjI allI impI)
    fix k assume k: "0 < k \<and> k < length (h @ [x]) \<and> k \<noteq> length h"
    then have "(k - 1) div 2 < length h" "k < length h" by auto
    then show "key ((h @ [x]) ! ((k - 1) div 2)) \<le> key ((h @ [x]) ! k)"
      using assms k by (auto simp: heapOrdered_def nth_append)
  next
    fix k assume "0 < k \<and> k < length (h @ [x]) \<and> 0 < length h \<and> (k - 1) div 2 = length h"
    then have False by auto
    then show "key ((h @ [x]) ! ((length h - 1) div 2)) \<le> key ((h @ [x]) ! k)" ..
  qed
  from up_heap [OF this] show "isHeap key (heapPush key x h)" "mset (heapPush key x h) = add_mset x (mset h)"
    by (auto simp: heapPush_def)
qed

lemma down_step:
  assumes "downOrdered key n h i" "n \<le> length h" "key (h ! j) < key (h ! i)"
    and jn: "j < n" "i < j" "(j - 1) div 2 = i"
    and least: "\<And>k. 0 < k \<Longrightarrow> k < n \<Longrightarrow> (k - 1) div 2 = i \<Longrightarrow> key (h ! j) \<le> key (h ! k)"
  shows "downOrdered key n (swapped i j h) j"
proof -
  have at: "swapped i j h ! k = (if k = j then h ! i else if k = i then h ! j else h ! k)" for k
    using assms(2) jn by (intro swapped_nth) auto
  have A: "\<And>k. 0 < k \<Longrightarrow> k < n \<Longrightarrow> (k - 1) div 2 \<noteq> i \<Longrightarrow> key (h ! ((k - 1) div 2)) \<le> key (h ! k)"
    and B: "\<And>k. 0 < k \<Longrightarrow> k < n \<Longrightarrow> 0 < i \<Longrightarrow> (k - 1) div 2 = i \<Longrightarrow> key (h ! ((i - 1) div 2)) \<le> key (h ! k)"
    using assms(1) by (auto simp: downOrdered_def)
  show ?thesis
    unfolding downOrdered_def
  proof (intro conjI allI impI, goal_cases)
    case (1 k)
    then have k: "0 < k" "k < n" "(k - 1) div 2 \<noteq> j" by auto
    have kp: "(k - 1) div 2 < k" using k by auto
    consider "(k - 1) div 2 = i" "k = j" | "(k - 1) div 2 = i" "k \<noteq> j" | "(k - 1) div 2 \<noteq> i" "k = i"
      | "(k - 1) div 2 \<noteq> i" "k \<noteq> i" by blast
    then show ?case
    proof cases
      case 1 then show ?thesis using assms(3) jn by (simp add: at del: One_nat_def)
    next
      case 2 then show ?thesis using least [of k] k kp by (simp add: at del: One_nat_def)
    next
      case 3 then show ?thesis using jn k B [of j] kp by (simp add: at del: One_nat_def)
    next
      case 4
      then have "k \<noteq> j" using jn by auto
      then show ?thesis using 4 k A [of k] by (simp add: at del: One_nat_def)
    qed
  next
    case (2 k)
    then have k: "0 < k" "k < n" "(k - 1) div 2 = j" by auto
    then have "k \<noteq> i" "k \<noteq> j" "(k - 1) div 2 \<noteq> i" using jn by auto
    then show ?case using k jn A [of k] by (simp add: at del: One_nat_def)
  qed
qed

lemma lesserChild:
  assumes "2 * i + 1 < n"
  shows "lesserChild key h i n < n" "i < lesserChild key h i n" "(lesserChild key h i n - 1) div 2 = i"
    and "\<And>k. 0 < k \<Longrightarrow> k < n \<Longrightarrow> (k - 1) div 2 = i \<Longrightarrow> key (h ! lesserChild key h i n) \<le> key (h ! k)"
proof -
  fix k assume k: "0 < k" "k < n" "(k - 1) div 2 = i"
  then have "k = 2 * i + 1 \<or> k = 2 * i + 2" by linarith
  then show "key (h ! lesserChild key h i n) \<le> key (h ! k)"
    using k(2) by (auto simp: lesserChild_def Let_def)
qed (use assms in \<open>auto simp: lesserChild_def Let_def\<close>)

lemma down_stops:
  assumes "downOrdered key n h i" "n \<le> 2 * i + 1 \<or> \<not> key (h ! lesserChild key h i n) < key (h ! i)"
  shows "heapOrdered key n h"
  unfolding heapOrdered_def
proof (intro allI impI)
  fix k assume k: "0 < k \<and> k < n"
  show "key (h ! ((k - 1) div 2)) \<le> key (h ! k)"
  proof (cases "(k - 1) div 2 = i")
    case True
    then have "2 * i + 1 < n" using k by linarith
    then show ?thesis using lesserChild(4) [of i n k key h] assms(2) True k by force
  qed (use assms(1) k in \<open>auto simp: downOrdered_def\<close>)
qed

lemma down_heap:
  "downOrdered key n h i \<Longrightarrow> n \<le> length h \<Longrightarrow>
   heapOrdered key n (heapDown key h i n) \<and> mset (heapDown key h i n) = mset h \<and>
   drop n (heapDown key h i n) = drop n h"
proof (induction key h i n rule: heapDown.induct)
  case (1 key h i n)
  let ?j = "lesserChild key h i n"
  show ?case
  proof (cases "n \<le> 2 * i + 1 \<or> \<not> key (h ! ?j) < key (h ! i)")
    case True
    then have "heapDown key h i n = h" by (auto simp: heapDown.simps [of key h i n] Let_def)
    then show ?thesis using down_stops [OF "1.prems"(1) True] by simp
  next
    case False
    then have child: "2 * i + 1 < n" and lt: "key (h ! ?j) < key (h ! i)" by auto
    note j = lesserChild [OF child, where key = key and h = h]
    have len: "?j < length h" "i < length h" using j(1,2) "1.prems"(2) by linarith+
    have "heapDown key h i n = heapDown key (swapped i ?j h) ?j n"
      using False by (simp add: heapDown.simps [of key h i n] Let_def)
    moreover have "drop n (swapped i ?j h) = drop n h"
      using j(1,2) by (simp add: swapped_def)
    moreover have "downOrdered key n (swapped i ?j h) ?j"
      by (rule down_step [OF "1.prems" lt j])
    ultimately show ?thesis
      using "1.IH" [OF _ refl] False "1.prems"(2) swapped_mset [OF len(2,1)] by simp
  qed
qed

lemma pop_heap:
  assumes "isHeap key h" "h \<noteq> []" "heapPop key h = (x, h')"
  shows "isHeap key h'" "mset h = add_mset x (mset h')" "x = h ! 0" "length h' = length h - 1"
proof -
  define n where "n = length h - 1"
  define s where "s = swapped 0 n h"
  have n: "n < length h" "0 < length h" using assms(2) by (auto simp: n_def)
  have at: "s ! k = (if k = n then h ! 0 else if k = 0 then h ! n else h ! k)" for k
    unfolding s_def using n by (simp add: swapped_nth)
  have "downOrdered key n s 0"
    unfolding downOrdered_def
  proof (intro conjI allI impI)
    fix k assume k: "0 < k \<and> k < n \<and> (k - 1) div 2 \<noteq> 0"
    then have "(k - 1) div 2 < n" by auto
    then show "key (s ! ((k - 1) div 2)) \<le> key (s ! k)"
      using assms(1) k n by (simp add: heapOrdered_def at)
  qed simp
  from down_heap [OF this] have d: "heapOrdered key n (heapDown key s 0 n)"
    "mset (heapDown key s 0 n) = mset h" "drop n (heapDown key s 0 n) = drop n s"
    using n swapped_mset [of 0 h n] by (auto simp: s_def)
  have len: "length (heapDown key s 0 n) = length h" using d(2) by (metis size_mset)
  have h': "x = heapDown key s 0 n ! n" "h' = take n (heapDown key s 0 n)"
    using assms(3) by (auto simp: heapPop_def Let_def s_def n_def)
  have "heapDown key s 0 n ! n = s ! n"
    using d(3) n len by (metis Cons_nth_drop_Suc length_drop nth_via_drop s_def swapped_length)
  then show "x = h ! 0" using h' by (simp add: at)
  show "length h' = length h - 1" using h' len by (simp add: n_def)
  show "isHeap key h'" using d(1) h' len n by (auto simp: heapOrdered_def)
  have "heapDown key s 0 n = take n (heapDown key s 0 n) @ [heapDown key s 0 n ! n]"
    using n len by (metis Suc_diff_1 n_def take_Suc_conv_app_nth take_all order_refl)
  then show "mset h = add_mset x (mset h')"
    using d(2) h' by (metis mset.simps(1,2) mset_append add_mset_add_single)
qed

section \<open>What a caller relies on\<close>

locale min_queue =
  fixes inv :: "'q \<Rightarrow> bool"
    and items :: "'q \<Rightarrow> 'a multiset"
    and key :: "'a \<Rightarrow> int"
    and push :: "'a \<Rightarrow> 'q \<Rightarrow> 'q"
    and pop :: "'q \<Rightarrow> 'a \<times> 'q"
  assumes push_inv: "inv q \<Longrightarrow> inv (push x q)"
    and push_items: "inv q \<Longrightarrow> items (push x q) = add_mset x (items q)"
    and pop_inv: "inv q \<Longrightarrow> items q \<noteq> {#} \<Longrightarrow> inv (snd (pop q))"
    and pop_items: "inv q \<Longrightarrow> items q \<noteq> {#} \<Longrightarrow> items q = add_mset (fst (pop q)) (items (snd (pop q)))"
    and pop_least: "inv q \<Longrightarrow> y \<in># items q \<Longrightarrow> key (fst (pop q)) \<le> key y"
begin

text \<open>When the least entry is later than a bound, so is every entry.\<close>

lemma none_due:
  assumes "inv q" "b < key (fst (pop q))" "y \<in># items q"
  shows "b < key y"
  using pop_least [OF assms(1,3)] assms(2) by simp

text \<open>What a pop leaves: everything but one entry no later than any other.\<close>

lemma pop_rest:
  assumes "inv q" "items q \<noteq> {#}" "y \<in># items q" "y \<noteq> fst (pop q)"
  shows "y \<in># items (snd (pop q))"
  using pop_items [OF assms(1,2)] assms(3,4) by auto

lemma pop_from:
  assumes "inv q" "items q \<noteq> {#}" "y \<in># items (snd (pop q))"
  shows "y \<in># items q"
  using pop_items [OF assms(1,2)] assms(3) by auto

end

interpretation slice_heap: min_queue "isHeap key" mset key "heapPush key" "heapPop key" for key :: "'a \<Rightarrow> int"
proof (unfold_locales, goal_cases)
  case (1 q x) then show ?case by (rule push_heap)
next
  case (2 q x) then show ?case by (rule push_heap)
next
  case (3 q) then show ?case using pop_heap(1) [of key q "fst (heapPop key q)" "snd (heapPop key q)"] by simp
next
  case (4 q) then show ?case using pop_heap(2) [of key q "fst (heapPop key q)" "snd (heapPop key q)"] by simp
next
  case (5 q y)
  then have "q \<noteq> []" by auto
  then have "fst (heapPop key q) = q ! 0"
    using pop_heap(3) [OF 5(1) _ prod.collapse [symmetric]] by blast
  moreover obtain j where "j < length q" "q ! j = y" using 5(2) by (auto simp: in_set_conv_nth)
  ultimately show ?case using root_least [OF 5(1), of j] by simp
qed

lemma pop_head:
  assumes "isHeap key q" "q \<noteq> []"
  shows "fst (heapPop key q) = q ! 0" "length (snd (heapPop key q)) < length q"
  using pop_heap(3,4) [OF assms prod.collapse [symmetric]] assms(2) by simp_all

end
