(* ===== verification/Rendezvous_Push.thy ===== *)
theory Rendezvous_Push
  imports Subscriptions Binary_Heap
begin

text \<open>
  The rendezvous half of the subscription registry (\<open>src/api/rendezvous_push.go\<close>): which connections
  are told of a deposit into which box, until when, and which Collects hold each subscription.

  The two halves share the code's struct and its mutex and no map, so this half has a record of its
  own; \<open>rzPushed\<close> and \<open>rzDropped\<close> are what it adds to the two counters both halves add to. A
  subscription is compared by pointer, so it carries the serial number of its allocation, and a
  Collect's claim names it by that number. The boxes, their subscribers and the counts per connection
  are association lists; the boxes in expiry order are a slice kept by \<open>container/heap\<close>. What the code
  does for every subscriber of a box it does in no fixed order, and nothing it does depends on it.
\<close>

section \<open>The registry\<close>

definition DefaultMaxRendezvousSubscriptionsPerConnection :: int where
  "DefaultMaxRendezvousSubscriptionsPerConnection = DefaultMaxSubscriptionsPerConnection"

datatype rendezvous_error = ErrRendezvousSubscriptionsFull

text \<open>The connection, then the box.\<close>

type_synonym rendezvousKey = "bytes \<times> bytes"

record rendezvousSubscription =
  rsClientId :: bytes
  rsServerNonce :: bytes
  rsRendezvousId :: bytes
  rsPending :: u32
  rsClaims :: int
  rsKept :: bool
  rsSerial :: nat

record rendezvousBox =
  rbExpireTime :: time
  rbSubscribers :: "(bytes \<times> rendezvousSubscription) list"

record rendezvousExpiryEntry =
  reExpireTime :: time
  reBox :: bytes

record RendezvousRegistry =
  rzMaxPerConnection :: int
  rzBoxes :: "(bytes \<times> rendezvousBox) list"
  rzHeld :: "(bytes \<times> int) list"
  rzCount :: int
  rzExpiry :: "rendezvousExpiryEntry list"
  rzReady :: "rendezvousKey list"
  rzVisited :: u64
  rzPushed :: u64
  rzDropped :: u64
  rzNextSerial :: nat

definition NewRendezvousRegistry :: RendezvousRegistry where
  "NewRendezvousRegistry =
     \<lparr> rzMaxPerConnection = DefaultMaxRendezvousSubscriptionsPerConnection, rzBoxes = [], rzHeld = [],
       rzCount = 0, rzExpiry = [], rzReady = [], rzVisited = 0, rzPushed = 0, rzDropped = 0,
       rzNextSerial = 0 \<rparr>"

definition heldOf :: "RendezvousRegistry \<Rightarrow> bytes \<Rightarrow> int" where
  "heldOf z connection = (case map_of (rzHeld z) connection of None \<Rightarrow> 0 | Some n \<Rightarrow> n)"

text \<open>The subscription a connection has on a box, if it has one.\<close>

definition subscriberAt :: "RendezvousRegistry \<Rightarrow> bytes \<Rightarrow> bytes \<Rightarrow> rendezvousSubscription option" where
  "subscriberAt z box connection =
     (case map_of (rzBoxes z) box of None \<Rightarrow> None | Some r \<Rightarrow> map_of (rbSubscribers r) connection)"

section \<open>Ending a subscription\<close>

definition releaseRendezvous :: "bytes \<Rightarrow> RendezvousRegistry \<Rightarrow> RendezvousRegistry" where
  "releaseRendezvous connection z =
     z\<lparr>rzCount := rzCount z - 1,
       rzHeld := (if heldOf z connection \<le> 1 then AList.delete connection (rzHeld z)
                  else AList.update connection (heldOf z connection - 1) (rzHeld z))\<rparr>"

definition unreadyRendezvous :: "rendezvousKey \<Rightarrow> RendezvousRegistry \<Rightarrow> RendezvousRegistry" where
  "unreadyRendezvous key z = z\<lparr>rzReady := removeAll key (rzReady z)\<rparr>"

definition removeRendezvous :: "bytes \<Rightarrow> bytes \<Rightarrow> RendezvousRegistry \<Rightarrow> RendezvousRegistry" where
  "removeRendezvous box connection z =
     (case map_of (rzBoxes z) box of
        None \<Rightarrow> z
      | Some r \<Rightarrow>
         (case map_of (rbSubscribers r) connection of
            None \<Rightarrow> z
          | Some _ \<Rightarrow>
             (let left = AList.delete connection (rbSubscribers r);
                  z1 = releaseRendezvous connection (unreadyRendezvous (connection, box) z)
              in z1\<lparr>rzBoxes := (if left = [] then AList.delete box (rzBoxes z)
                                else AList.update box (r\<lparr>rbSubscribers := left\<rparr>) (rzBoxes z))\<rparr>)))"

definition dropSubscriber :: "bytes \<Rightarrow> bytes \<Rightarrow> RendezvousRegistry \<Rightarrow> RendezvousRegistry" where
  "dropSubscriber box connection z =
     releaseRendezvous connection (unreadyRendezvous (connection, box) (z\<lparr>rzVisited := rzVisited z + 1\<rparr>))"

definition dropRendezvousBox :: "bytes \<Rightarrow> RendezvousRegistry \<Rightarrow> RendezvousRegistry" where
  "dropRendezvousBox box z =
     (case map_of (rzBoxes z) box of
        None \<Rightarrow> z
      | Some r \<Rightarrow>
          (fold (dropSubscriber box) (map fst (rbSubscribers r)) z)\<lparr>rzBoxes := AList.delete box (rzBoxes z)\<rparr>)"

definition pruneOne :: "time \<Rightarrow> rendezvousExpiryEntry \<Rightarrow> RendezvousRegistry \<Rightarrow> RendezvousRegistry" where
  "pruneOne now entry z =
     (case map_of (rzBoxes z) (reBox entry) of
        None \<Rightarrow> z
      | Some r \<Rightarrow> if \<not> now < rbExpireTime r then dropRendezvousBox (reBox entry) z else z)"

lemma dropSubscribers_expiry [simp]: "rzExpiry (fold (dropSubscriber box) cs z) = rzExpiry z"
  by (induction cs arbitrary: z) (auto simp: dropSubscriber_def releaseRendezvous_def unreadyRendezvous_def)

lemma dropRendezvousBox_expiry [simp]: "rzExpiry (dropRendezvousBox box z) = rzExpiry z"
  by (simp add: dropRendezvousBox_def split: option.split)

lemma pruneOne_expiry [simp]: "rzExpiry (pruneOne now entry z) = rzExpiry z"
  by (simp add: pruneOne_def split: option.split)

lemma heapPop_shorter [simp]: "h \<noteq> [] \<Longrightarrow> length (snd (heapPop key h)) < length h"
  by (cases h) (auto simp: heapPop_def Let_def)

function pruneRendezvous :: "time \<Rightarrow> RendezvousRegistry \<Rightarrow> RendezvousRegistry" where
  "pruneRendezvous now z =
     (if rzExpiry z \<noteq> [] \<and> \<not> now < reExpireTime (rzExpiry z ! 0)
      then (let (entry, rest) = heapPop reExpireTime (rzExpiry z)
            in pruneRendezvous now (pruneOne now entry (z\<lparr>rzExpiry := rest\<rparr>)))
      else z)"
  by pat_completeness auto
termination
  by (relation "measure (\<lambda>(now, z). length (rzExpiry z))") (auto, metis heapPop_shorter snd_conv)

declare pruneRendezvous.simps [simp del]

section \<open>The calls\<close>

text \<open>The standing box at the id this call joins or replaces: an earlier one is ended first.\<close>

definition endEarlier :: "bytes \<Rightarrow> time \<Rightarrow> RendezvousRegistry \<Rightarrow> RendezvousRegistry" where
  "endEarlier rendezvousId expireTime z =
     (case map_of (rzBoxes z) rendezvousId of
        None \<Rightarrow> z
      | Some r \<Rightarrow> if rbExpireTime r < expireTime then dropRendezvousBox rendezvousId z else z)"

definition putSubscriber ::
  "bytes \<Rightarrow> bytes \<Rightarrow> rendezvousSubscription \<Rightarrow> RendezvousRegistry \<Rightarrow> RendezvousRegistry" where
  "putSubscriber box connection sub z =
     (case map_of (rzBoxes z) box of
        None \<Rightarrow> z
      | Some r \<Rightarrow> z\<lparr>rzBoxes := AList.update box
                       (r\<lparr>rbSubscribers := AList.update connection sub (rbSubscribers r)\<rparr>) (rzBoxes z)\<rparr>)"

definition openBox :: "bytes \<Rightarrow> time \<Rightarrow> RendezvousRegistry \<Rightarrow> RendezvousRegistry" where
  "openBox rendezvousId expireTime z =
     (case map_of (rzBoxes z) rendezvousId of
        None \<Rightarrow> z\<lparr>rzBoxes := AList.update rendezvousId
                       \<lparr> rbExpireTime = expireTime, rbSubscribers = [] \<rparr> (rzBoxes z),
                  rzExpiry := heapPush reExpireTime
                       \<lparr> reExpireTime = expireTime, reBox = rendezvousId \<rparr> (rzExpiry z)\<rparr>
      | Some _ \<Rightarrow> z)"

definition addSubscriber :: "bytes \<Rightarrow> bytes \<Rightarrow> bytes \<Rightarrow> bytes \<Rightarrow> RendezvousRegistry \<Rightarrow> RendezvousRegistry" where
  "addSubscriber clientId serverNonce rendezvousId connection z =
     (putSubscriber rendezvousId connection
        \<lparr> rsClientId = clientId, rsServerNonce = serverNonce, rsRendezvousId = rendezvousId,
          rsPending = 0, rsClaims = 1, rsKept = False, rsSerial = rzNextSerial z \<rparr> z)
     \<lparr>rzHeld := AList.update connection (heldOf z connection + 1) (rzHeld z),
      rzCount := rzCount z + 1, rzNextSerial := Suc (rzNextSerial z)\<rparr>"

definition subscribeRendezvous ::
  "RendezvousRegistry \<Rightarrow> bytes \<Rightarrow> bytes \<Rightarrow> bytes \<Rightarrow> time \<Rightarrow> time \<Rightarrow>
   RendezvousRegistry \<times> (rendezvous_error + nat option \<times> bool)" where
  "subscribeRendezvous z0 clientId serverNonce rendezvousId expireTime now =
     (let z1 = pruneRendezvous now z0;
          connection = connectionKeyOf clientId serverNonce
      in if (case map_of (rzBoxes z1) rendezvousId of None \<Rightarrow> False | Some r \<Rightarrow> expireTime < rbExpireTime r)
         then (z1, Inr (None, False))
         else
           (let z2 = endEarlier rendezvousId expireTime z1
            in case subscriberAt z2 rendezvousId connection of
                 Some present \<Rightarrow>
                   (putSubscriber rendezvousId connection (present\<lparr>rsClaims := rsClaims present + 1\<rparr>) z2,
                    Inr (Some (rsSerial present), False))
               | None \<Rightarrow>
                   (if rzMaxPerConnection z2 \<le> heldOf z2 connection
                    then (z2, Inl ErrRendezvousSubscriptionsFull)
                    else (addSubscriber clientId serverNonce rendezvousId connection
                            (openBox rendezvousId expireTime z2),
                          Inr (Some (rzNextSerial z2), True)))))"

definition settleRendezvous ::
  "RendezvousRegistry \<Rightarrow> bytes \<Rightarrow> bytes \<Rightarrow> bytes \<Rightarrow> nat \<Rightarrow> bool \<Rightarrow> RendezvousRegistry" where
  "settleRendezvous z clientId serverNonce rendezvousId claimed taken =
     (let connection = connectionKeyOf clientId serverNonce
      in case subscriberAt z rendezvousId connection of
           None \<Rightarrow> z
         | Some sub \<Rightarrow>
            (if rsSerial sub \<noteq> claimed then z
             else
               (let sub1 = sub\<lparr>rsClaims := rsClaims sub - 1\<rparr>
                in if taken then putSubscriber rendezvousId connection (sub1\<lparr>rsKept := True\<rparr>) z
                   else if \<not> rsKept sub1 \<and> rsClaims sub1 = 0
                   then removeRendezvous rendezvousId connection (putSubscriber rendezvousId connection sub1 z)
                   else putSubscriber rendezvousId connection sub1 z)))"

definition depositedRendezvous ::
  "RendezvousRegistry \<Rightarrow> bytes \<Rightarrow> u32 \<Rightarrow> time \<Rightarrow> RendezvousRegistry \<times> bool" where
  "depositedRendezvous z0 rendezvousId pending now =
     (let z = pruneRendezvous now z0
      in case map_of (rzBoxes z) rendezvousId of
           None \<Rightarrow> (z, False)
         | Some r \<Rightarrow>
            (z\<lparr>rzVisited := rzVisited z + of_nat (length (rbSubscribers r)),
               rzBoxes := AList.update rendezvousId
                 (r\<lparr>rbSubscribers := map (\<lambda>(c, sub). (c, sub\<lparr>rsPending := pending\<rparr>)) (rbSubscribers r)\<rparr>)
                 (rzBoxes z),
               rzReady := fold (\<lambda>c. List.insert (c, rendezvousId)) (map fst (rbSubscribers r)) (rzReady z)\<rparr>,
             rbSubscribers r \<noteq> []))"

definition retiredRendezvous :: "RendezvousRegistry \<Rightarrow> bytes \<Rightarrow> RendezvousRegistry" where
  "retiredRendezvous z rendezvousId = dropRendezvousBox rendezvousId z"

definition RendezvousSubscriptions :: "RendezvousRegistry \<Rightarrow> int" where
  "RendezvousSubscriptions z = rzCount z"

section \<open>Delivery\<close>

record rendezvousFlight =
  rfKey :: rendezvousKey
  rfSerial :: nat
  rfClientId :: bytes
  rfServerNonce :: bytes
  rfRendezvousId :: bytes
  rfPending :: u32

text \<open>One turn of the search for an owed push: the candidate is taken off \<open>rendezvousReady\<close>.\<close>

definition takeRendezvous ::
  "rendezvousKey \<Rightarrow> RendezvousRegistry \<Rightarrow> RendezvousRegistry \<times> rendezvousFlight option" where
  "takeRendezvous key z =
     (unreadyRendezvous key z,
      case subscriberAt z (snd key) (fst key) of
        None \<Rightarrow> None
      | Some owed \<Rightarrow> Some \<lparr> rfKey = key, rfSerial = rsSerial owed, rfClientId = rsClientId owed,
           rfServerNonce = rsServerNonce owed, rfRendezvousId = rsRendezvousId owed,
           rfPending = rsPending owed \<rparr>)"

definition finishRendezvous :: "RendezvousRegistry \<Rightarrow> rendezvousFlight \<Rightarrow> bool \<Rightarrow> RendezvousRegistry" where
  "finishRendezvous z f delivered =
     (case subscriberAt z (snd (rfKey f)) (fst (rfKey f)) of
        None \<Rightarrow> z
      | Some sub \<Rightarrow>
         (if rsSerial sub \<noteq> rfSerial f then z
          else if delivered then z\<lparr>rzPushed := rzPushed z + 1\<rparr>
          else (removeRendezvous (snd (rfKey f)) (fst (rfKey f)) z)\<lparr>rzDropped := rzDropped z + 1\<rparr>))"

section \<open>Runs\<close>

text \<open>
  A Collect between its subscription and its settlement is a claim. A push in the air is a flight; the
  delivery goroutine makes one at a time. \<open>Push\<close> answers whatever it answers, and time is whatever
  the callers read.
\<close>

record rendezvousClaim =
  clClientId :: bytes
  clServerNonce :: bytes
  clRendezvousId :: bytes
  clClaimed :: nat

record RendezvousSystem =
  ryReg :: RendezvousRegistry
  ryClaims :: "rendezvousClaim list"
  ryFlight :: "rendezvousFlight option"

definition startRendezvous :: RendezvousSystem where
  "startRendezvous = \<lparr> ryReg = NewRendezvousRegistry, ryClaims = [], ryFlight = None \<rparr>"

inductive rendezvous_step :: "RendezvousSystem \<Rightarrow> RendezvousSystem \<Rightarrow> bool" where
  claim: "subscribeRendezvous (ryReg y) client nonce rid expire now = (z, Inr (Some serial, added)) \<Longrightarrow>
    rendezvous_step y (y\<lparr>ryReg := z, ryClaims :=
      \<lparr> clClientId = client, clServerNonce = nonce, clRendezvousId = rid, clClaimed = serial \<rparr> # ryClaims y\<rparr>)"
| behind: "subscribeRendezvous (ryReg y) client nonce rid expire now = (z, Inr (None, added)) \<Longrightarrow>
    rendezvous_step y (y\<lparr>ryReg := z\<rparr>)"
| full: "subscribeRendezvous (ryReg y) client nonce rid expire now = (z, Inl e) \<Longrightarrow>
    rendezvous_step y (y\<lparr>ryReg := z\<rparr>)"
| settle: "c \<in> set (ryClaims y) \<Longrightarrow>
    rendezvous_step y (y\<lparr>ryReg := settleRendezvous (ryReg y) (clClientId c) (clServerNonce c)
        (clRendezvousId c) (clClaimed c) taken, ryClaims := remove1 c (ryClaims y)\<rparr>)"
| deposit: "depositedRendezvous (ryReg y) rid pending now = (z, marked) \<Longrightarrow>
    rendezvous_step y (y\<lparr>ryReg := z\<rparr>)"
| retire: "rendezvous_step y (y\<lparr>ryReg := retiredRendezvous (ryReg y) rid\<rparr>)"
| take: "ryFlight y = None \<Longrightarrow> key \<in> set (rzReady (ryReg y)) \<Longrightarrow> takeRendezvous key (ryReg y) = (z, f) \<Longrightarrow>
    rendezvous_step y (y\<lparr>ryReg := z, ryFlight := f\<rparr>)"
| finish: "ryFlight y = Some f \<Longrightarrow>
    rendezvous_step y (y\<lparr>ryReg := finishRendezvous (ryReg y) f delivered, ryFlight := None\<rparr>)"

end
