(* ===== verification/Rendezvous_Api.thy ===== *)
theory Rendezvous_Api
  imports Api_Handler Link_Box Rendezvous_Push
begin

text \<open>
  The five rendezvous arms of the request handler (\<open>src/api/rendezvous.go\<close>): Register, Open, Deposit,
  Collect and Retire of a link box. Each is the front checks, the arm's shape, the box the store holds
  at the id, the signature under the key pinned there, and the write, which is handed the key the
  signature was verified under. The store is the interface \<open>store.LinkBoxes\<close>, a record of its
  operations; \<open>memoryLinkBoxes\<close> is \<open>MemoryStore\<close> behind it. A Collect that subscribes claims its
  subscription before its write and settles the claim after it.

  The signatures are the record layer's: \<open>RendezvousLayer\<close> holds its verifiers as parameters. The
  requests and responses are the wire types of the protocol. A handler reads its clock when it starts,
  once more before it acts, and when it pads; the second reading is an argument.
\<close>

section \<open>The wire types and the verifiers\<close>

record pRegisterRequest =
  gqRendezvousId :: bytes
  gqDepositVerifyPub :: bytes
  gqCollectVerifyPub :: bytes
  gqCardXwingPub :: bytes
  gqAlgId :: u32
  gqKind :: u32
  gqPublicCt :: bytes
  gqRegisterAuth :: bytes

record pRegisterResponse =
  gsExpireTimeMs :: u64
  gsMailboxDepth :: u32

record pOpenRequest =
  oqRendezvousId :: bytes
  oqOpenAuth :: bytes

record pOpenResponse =
  osAlgId :: u32
  osDepositBytes :: u32
  osPublicCt :: bytes
  osDepositSizes :: "u32 list"

record pDepositRequest =
  dqRendezvousId :: bytes
  dqDepositCt :: bytes
  dqDepositAuth :: bytes

record pDepositResponse =
  dsDepositId :: u64
  dsDepositHash :: bytes

record pCollectRequest =
  cqRendezvousId :: bytes
  cqSinceDepositId :: u64
  cqAckThroughDepositId :: u64
  cqLimit :: u32
  cqSubscribe :: bool
  cqCollectAuth :: bytes

record pRendezvousDeposit =
  pdDepositId :: u64
  pdDepositCt :: bytes
  pdCreateTimeMs :: u64

record pCollectResponse =
  csDeposits :: "pRendezvousDeposit list"
  csPendingCount :: u32
  csRefusedCount :: u64
  csExpireTimeMs :: u64
  csComplete :: bool

record pRetireRequest =
  tqRendezvousId :: bytes
  tqRetireAuth :: bytes

record pRetireResponse =
  tsDiscardedDeposits :: u32

record mRegistration =
  rnRendezvousId :: bytes
  rnDepositVerifyPub :: bytes
  rnCollectVerifyPub :: bytes
  rnCardXwingPub :: bytes
  rnAlgId :: u16
  rnKind :: u32
  rnPublicCt :: bytes

record mCollectParams =
  ckRendezvousId :: bytes
  ckSinceDepositId :: u64
  ckAckThroughDepositId :: u64
  ckLimit :: u32
  ckSubscribe :: bool

record RendezvousLayer =
  RendezvousKeyIsAcceptable :: "bytes \<Rightarrow> bool"
  VerifyRendezvousRegister :: "mRegistration \<Rightarrow> bytes \<Rightarrow> bytes \<Rightarrow> bool"
  VerifyRendezvousOpen :: "bytes \<Rightarrow> bytes \<Rightarrow> bytes \<Rightarrow> bytes \<Rightarrow> bool"
  VerifyRendezvousDeposit :: "bytes \<Rightarrow> bytes \<Rightarrow> bytes \<Rightarrow> bytes \<Rightarrow> bytes \<Rightarrow> bool"
  VerifyRendezvousCollect :: "bytes \<Rightarrow> bytes \<Rightarrow> mCollectParams \<Rightarrow> bytes \<Rightarrow> bool"
  VerifyRendezvousRetire :: "bytes \<Rightarrow> bytes \<Rightarrow> bytes \<Rightarrow> bytes \<Rightarrow> bool"

section \<open>The store behind the arms\<close>

record 'b LinkBoxes =
  lkLinkBox :: "ctx \<Rightarrow> 'b \<Rightarrow> bytes \<Rightarrow> store_error + LinkBox"
  lkLiveLinkBoxes :: "ctx \<Rightarrow> 'b \<Rightarrow> time \<Rightarrow> store_error + u64"
  lkRegister :: "ctx \<Rightarrow> 'b \<Rightarrow> LinkBoxRegistration \<Rightarrow> time \<Rightarrow> duration \<Rightarrow> u64 \<Rightarrow> 'b \<times> (store_error + LinkBoxRegistered)"
  lkDeposit :: "ctx \<Rightarrow> 'b \<Rightarrow> bytes \<Rightarrow> bytes \<Rightarrow> bytes \<Rightarrow> time \<Rightarrow> 'b \<times> (store_error + LinkBoxDeposited)"
  lkCollect :: "ctx \<Rightarrow> 'b \<Rightarrow> LinkBoxCollectRequest \<Rightarrow> time \<Rightarrow> 'b \<times> (store_error + LinkBoxCollected)"
  lkRetire :: "ctx \<Rightarrow> 'b \<Rightarrow> bytes \<Rightarrow> bytes \<Rightarrow> time \<Rightarrow> 'b \<times> (store_error + LinkBoxRetired)"

definition memoryLinkBoxes :: "hash \<Rightarrow> LinkBoxStore LinkBoxes" where
  "memoryLinkBoxes H =
     \<lparr> lkLinkBox = MemoryStore_LinkBox, lkLiveLinkBoxes = LiveLinkBoxes,
       lkRegister = \<lambda>ctx b registration. RegisterLinkBox ctx b (Some registration),
       lkDeposit = DepositLinkBox H, lkCollect = \<lambda>ctx b request. CollectLinkBox ctx b (Some request),
       lkRetire = RetireLinkBox \<rparr>"

text \<open>What the arms read and change: the boxes and the registry.\<close>

record 'b RWorld =
  rwBoxes :: 'b
  rwReg :: RendezvousRegistry

section \<open>Shared checks\<close>

definition RendezvousServed :: "'s Handler \<Rightarrow> bool" where
  "RendezvousServed h \<longleftrightarrow> hLinkBoxes h \<and> 0 < hRejectFloor h"

definition RendezvousKinds :: "'s Handler \<Rightarrow> u32" where
  "RendezvousKinds h = (if \<not> RendezvousServed h then 0 else push_bit (unat LinkBoxKind) 1)"

definition RendezvousDepositSizes :: "'s Handler \<Rightarrow> u32 list" where
  "RendezvousDepositSizes h = (if \<not> RendezvousServed h then [] else [of_nat LinkDepositBytes])"

text \<open>The box at the id if it is live; an unknown, a retired and an expired one answer alike.\<close>

definition Handler_liveLinkBox ::
  "'b LinkBoxes \<Rightarrow> ctx \<Rightarrow> 'b \<Rightarrow> bytes \<Rightarrow> time \<Rightarrow> (reason \<times> api_error option) + LinkBox" where
  "Handler_liveLinkBox ops ctx b rendezvousId now =
     (case lkLinkBox ops ctx b rendezvousId of
        Inl e \<Rightarrow> (if e = ErrLinkBoxUnknown then Inl (REASON_CARD_RETIRED, None)
                  else Inl (REASON_INTERNAL, Some (StoreError e)))
      | Inr box \<Rightarrow> (if \<not> Live box now then Inl (REASON_CARD_RETIRED, None) else Inr box))"

definition linkBoxRegistrationShaped :: "RendezvousLayer \<Rightarrow> pRegisterRequest \<Rightarrow> bool" where
  "linkBoxRegistrationShaped R q \<longleftrightarrow>
     gqKind q = ucast LinkBoxKind \<and>
     length (gqCardXwingPub q) = 0 \<and>
     gqAlgId q = LinkBoxAlgId \<and>
     length (gqRendezvousId q) = RendezvousIdBytes \<and>
     length (gqDepositVerifyPub q) = VerifyPubBytes \<and>
     length (gqCollectVerifyPub q) = VerifyPubBytes \<and>
     length (gqPublicCt q) = LinkCardBytes \<and>
     RendezvousKeyIsAcceptable R (gqDepositVerifyPub q) \<and>
     RendezvousKeyIsAcceptable R (gqCollectVerifyPub q)"

definition registrationOf :: "pRegisterRequest \<Rightarrow> mRegistration" where
  "registrationOf q =
     \<lparr> rnRendezvousId = gqRendezvousId q, rnDepositVerifyPub = gqDepositVerifyPub q,
       rnCollectVerifyPub = gqCollectVerifyPub q, rnCardXwingPub = gqCardXwingPub q,
       rnAlgId = ucast (gqAlgId q), rnKind = gqKind q, rnPublicCt = gqPublicCt q \<rparr>"

text \<open>
  What Open, Deposit, Collect and Retire share between the front checks and the signature: the arms
  are served, the request has its shape, and the box is live; then \<open>act\<close> is handed the box.
\<close>

definition onLiveBox ::
  "'s Handler \<Rightarrow> 'b LinkBoxes \<Rightarrow> ctx \<Rightarrow> Clock \<Rightarrow> time \<Rightarrow> bool \<Rightarrow> bytes \<Rightarrow> 'b RWorld \<Rightarrow>
   (LinkBox \<Rightarrow> 'b RWorld \<times> 'r Answer) \<Rightarrow> ('b RWorld \<times> 'r Answer) option" where
  "onLiveBox h ops ctx ck now shaped rendezvousId w act =
     Some (if \<not> RendezvousServed h then (w, bare REASON_INTERNAL)
           else if \<not> shaped then (w, padded h ck REASON_REJECTED)
           else case Handler_liveLinkBox ops ctx (rwBoxes w) rendezvousId now of
               Inl (reason, Some e) \<Rightarrow> (w, failed e)
             | Inl (reason, None) \<Rightarrow> (w, padded h ck reason)
             | Inr box \<Rightarrow> act box)"

definition answered :: "'r \<Rightarrow> 'r Answer" where
  "answered r = \<lparr> anReason = REASON_OK, anBody = Some r, anErr = None, anPad = None \<rparr>"

section \<open>The arms\<close>

definition registerBox ::
  "'s Handler \<Rightarrow> 'b LinkBoxes \<Rightarrow> ctx \<Rightarrow> Clock \<Rightarrow> time \<Rightarrow> pRegisterRequest \<Rightarrow> 'b RWorld \<Rightarrow>
   'b RWorld \<times> pRegisterResponse Answer" where
  "registerBox h ops ctx ck now q w =
     (let (boxes, answer) = lkRegister ops ctx (rwBoxes w)
            \<lparr> lgRendezvousId = gqRendezvousId q, lgDepositVerifyPub = gqDepositVerifyPub q,
              lgCollectVerifyPub = gqCollectVerifyPub q, lgPublicCt = gqPublicCt q \<rparr>
            now (hLinkBoxTtl h) (hLinkBoxLiveCap h);
          w1 = w\<lparr>rwBoxes := boxes\<rparr>
      in case answer of
           Inl e \<Rightarrow> (w1, failed (StoreError e))
         | Inr registered \<Rightarrow>
            (if lxReason registered \<noteq> REASON_OK then (w1, padded h ck (lxReason registered))
             else (w1, answered \<lparr> gsExpireTimeMs = of_int (UnixMilli (lxExpireTime registered)),
                                  gsMailboxDepth = lxMailboxDepth registered \<rparr>)))"

definition RendezvousRegister ::
  "RecordLayer \<Rightarrow> RendezvousLayer \<Rightarrow> 's Handler \<Rightarrow> 'b LinkBoxes \<Rightarrow> ctx \<Rightarrow> Clock \<Rightarrow> time \<Rightarrow>
   ApiConnection option \<Rightarrow> pRegisterRequest option \<Rightarrow> 'b RWorld \<Rightarrow> ('b RWorld \<times> pRegisterResponse Answer) option" where
  "RendezvousRegister L R h ops ctx ck now conn request w =
     behindFront L h ck RendezvousRegisterArm conn request w (\<lambda>c q op.
       Some (if \<not> RendezvousServed h then (w, bare REASON_INTERNAL)
             else if \<not> linkBoxRegistrationShaped R q then (w, padded h ck REASON_REJECTED)
             else if \<not> VerifyRendezvousRegister R (registrationOf q) (acServerNonce c) (gqRegisterAuth q)
             then (w, padded h ck REASON_REJECTED)
             else case lkLinkBox ops ctx (rwBoxes w) (gqRendezvousId q) of
                 Inr _ \<Rightarrow> registerBox h ops ctx ck now q w
               | Inl e \<Rightarrow>
                  (if e \<noteq> ErrLinkBoxUnknown then (w, failed (StoreError e))
                   else case lkLiveLinkBoxes ops ctx (rwBoxes w) now of
                       Inl _ \<Rightarrow> (w, padded h ck REASON_CARD_RATE_LIMITED)
                     | Inr live \<Rightarrow>
                        (if hLinkBoxLiveCap h \<le> live then (w, padded h ck REASON_CARD_RATE_LIMITED)
                         else registerBox h ops ctx ck now q w))))"

definition RendezvousOpen ::
  "RecordLayer \<Rightarrow> RendezvousLayer \<Rightarrow> 's Handler \<Rightarrow> 'b LinkBoxes \<Rightarrow> ctx \<Rightarrow> Clock \<Rightarrow> time \<Rightarrow>
   ApiConnection option \<Rightarrow> pOpenRequest option \<Rightarrow> 'b RWorld \<Rightarrow> ('b RWorld \<times> pOpenResponse Answer) option" where
  "RendezvousOpen L R h ops ctx ck now conn request w =
     behindFront L h ck RendezvousOpenArm conn request w (\<lambda>c q op.
       onLiveBox h ops ctx ck now (length (oqRendezvousId q) = RendezvousIdBytes) (oqRendezvousId q) w (\<lambda>box.
         if \<not> VerifyRendezvousOpen R (lbDepositVerifyPub box) (acServerNonce c) (oqRendezvousId q) (oqOpenAuth q)
         then (w, padded h ck REASON_CARD_RETIRED)
         else (w, answered \<lparr> osAlgId = LinkBoxAlgId, osDepositBytes = of_nat LinkDepositBytes,
                 osPublicCt = lbPublicCt box, osDepositSizes = [of_nat LinkDepositBytes] \<rparr>)))"

definition depositBox ::
  "'s Handler \<Rightarrow> 'b LinkBoxes \<Rightarrow> ctx \<Rightarrow> Clock \<Rightarrow> time \<Rightarrow> pDepositRequest \<Rightarrow> LinkBox \<Rightarrow> 'b RWorld \<Rightarrow>
   'b RWorld \<times> pDepositResponse Answer" where
  "depositBox h ops ctx ck now q box w =
     (let (boxes, answer) = lkDeposit ops ctx (rwBoxes w) (dqRendezvousId q) (lbDepositVerifyPub box) (dqDepositCt q) now;
          w1 = w\<lparr>rwBoxes := boxes\<rparr>
      in case answer of
           Inl e \<Rightarrow> (w1, failed (StoreError e))
         | Inr deposited \<Rightarrow>
            (if ldReason deposited \<noteq> REASON_OK then (w1, padded h ck (ldReason deposited))
             else
               (if hSubscriptions h \<and> \<not> ldReplayed deposited
                then w1\<lparr>rwReg := fst (depositedRendezvous (rwReg w) (dqRendezvousId q) (ldPendingCount deposited) now)\<rparr>
                else w1,
                answered \<lparr> dsDepositId = ldDepositId deposited, dsDepositHash = ldDepositHash deposited \<rparr>)))"

definition RendezvousDeposit ::
  "RecordLayer \<Rightarrow> RendezvousLayer \<Rightarrow> 's Handler \<Rightarrow> 'b LinkBoxes \<Rightarrow> ctx \<Rightarrow> Clock \<Rightarrow> time \<Rightarrow>
   ApiConnection option \<Rightarrow> pDepositRequest option \<Rightarrow> 'b RWorld \<Rightarrow> ('b RWorld \<times> pDepositResponse Answer) option" where
  "RendezvousDeposit L R h ops ctx ck now conn request w =
     behindFront L h ck RendezvousDepositArm conn request w (\<lambda>c q op.
       onLiveBox h ops ctx ck now
         (length (dqRendezvousId q) = RendezvousIdBytes \<and> length (dqDepositCt q) = LinkDepositBytes)
         (dqRendezvousId q) w (\<lambda>box.
         if \<not> VerifyRendezvousDeposit R (lbDepositVerifyPub box) (acServerNonce c) (dqRendezvousId q) (dqDepositCt q)
                (dqDepositAuth q)
         then (w, padded h ck REASON_CARD_RETIRED)
         else depositBox h ops ctx ck now q box w))"

definition collectParams :: "pCollectRequest \<Rightarrow> mCollectParams" where
  "collectParams q =
     \<lparr> ckRendezvousId = cqRendezvousId q, ckSinceDepositId = cqSinceDepositId q,
       ckAckThroughDepositId = cqAckThroughDepositId q, ckLimit = cqLimit q, ckSubscribe = cqSubscribe q \<rparr>"

text \<open>The claim a Collect takes: none when it asks for none or there is no registry.\<close>

definition claimFor ::
  "'s Handler \<Rightarrow> ApiConnection \<Rightarrow> time \<Rightarrow> pCollectRequest \<Rightarrow> LinkBox \<Rightarrow> RendezvousRegistry \<Rightarrow>
   RendezvousRegistry \<times> (rendezvous_error + nat option)" where
  "claimFor h c now q box z =
     (if \<not> (cqSubscribe q \<and> hSubscriptions h) then (z, Inr None)
      else case subscribeRendezvous z (acClientId c) (acServerNonce c) (cqRendezvousId q) (lbExpireTime box) now of
          (z1, Inl e) \<Rightarrow> (z1, Inl e)
        | (z1, Inr (claimed, _)) \<Rightarrow> (z1, Inr claimed))"

definition collectResponse :: "LinkBoxCollected \<Rightarrow> pCollectResponse" where
  "collectResponse collected =
     \<lparr> csDeposits = map (\<lambda>d. \<lparr> pdDepositId = dpDepositId d, pdDepositCt = dpDepositCt d,
                                pdCreateTimeMs = of_int (UnixMilli (dpCreateTime d)) \<rparr>) (lcDeposits collected),
       csPendingCount = lcPendingCount collected, csRefusedCount = lcRefusedCount collected,
       csExpireTimeMs = of_int (UnixMilli (lcExpireTime collected)), csComplete = lcComplete collected \<rparr>"

definition collectTaken :: "store_error + LinkBoxCollected \<Rightarrow> bool" where
  "collectTaken answer = (case answer of Inl _ \<Rightarrow> False | Inr collected \<Rightarrow> lcReason collected = REASON_OK)"

definition collectBox ::
  "'s Handler \<Rightarrow> 'b LinkBoxes \<Rightarrow> ctx \<Rightarrow> Clock \<Rightarrow> time \<Rightarrow> ApiConnection \<Rightarrow> pCollectRequest \<Rightarrow> LinkBox \<Rightarrow>
   nat option \<Rightarrow> 'b RWorld \<Rightarrow> 'b RWorld \<times> pCollectResponse Answer" where
  "collectBox h ops ctx ck now c q box claimed w =
     (let (boxes, answer) = lkCollect ops ctx (rwBoxes w)
            \<lparr> lqRendezvousId = cqRendezvousId q, lqSinceDepositId = cqSinceDepositId q,
              lqAckThroughDepositId = cqAckThroughDepositId q, lqLimit = cqLimit q,
              lqVerifiedPub = lbCollectVerifyPub box \<rparr> now;
          w1 = w\<lparr>rwBoxes := boxes,
                 rwReg := (case claimed of
                             None \<Rightarrow> rwReg w
                           | Some serial \<Rightarrow> settleRendezvous (rwReg w) (acClientId c) (acServerNonce c)
                               (cqRendezvousId q) serial (collectTaken answer))\<rparr>
      in case answer of
           Inl e \<Rightarrow> (w1, failed (StoreError e))
         | Inr collected \<Rightarrow>
            (if lcReason collected \<noteq> REASON_OK then (w1, padded h ck (lcReason collected))
             else (w1, answered (collectResponse collected))))"

definition RendezvousCollect ::
  "RecordLayer \<Rightarrow> RendezvousLayer \<Rightarrow> 's Handler \<Rightarrow> 'b LinkBoxes \<Rightarrow> ctx \<Rightarrow> Clock \<Rightarrow> time \<Rightarrow>
   ApiConnection option \<Rightarrow> pCollectRequest option \<Rightarrow> 'b RWorld \<Rightarrow> ('b RWorld \<times> pCollectResponse Answer) option" where
  "RendezvousCollect L R h ops ctx ck now conn request w =
     behindFront L h ck RendezvousCollectArm conn request w (\<lambda>c q op.
       onLiveBox h ops ctx ck now (length (cqRendezvousId q) = RendezvousIdBytes) (cqRendezvousId q) w (\<lambda>box.
         if \<not> VerifyRendezvousCollect R (lbCollectVerifyPub box) (acServerNonce c) (collectParams q) (cqCollectAuth q)
         then (w, padded h ck REASON_CARD_RETIRED)
         else case claimFor h c now q box (rwReg w) of
             (z, Inl _) \<Rightarrow> (w\<lparr>rwReg := z\<rparr>, padded h ck REASON_CARD_RATE_LIMITED)
           | (z, Inr claimed) \<Rightarrow> collectBox h ops ctx ck now c q box claimed (w\<lparr>rwReg := z\<rparr>)))"

definition retireBox ::
  "'s Handler \<Rightarrow> 'b LinkBoxes \<Rightarrow> ctx \<Rightarrow> Clock \<Rightarrow> time \<Rightarrow> pRetireRequest \<Rightarrow> LinkBox \<Rightarrow> 'b RWorld \<Rightarrow>
   'b RWorld \<times> pRetireResponse Answer" where
  "retireBox h ops ctx ck now q box w =
     (let (boxes, answer) = lkRetire ops ctx (rwBoxes w) (tqRendezvousId q) (lbCollectVerifyPub box) now;
          w1 = w\<lparr>rwBoxes := boxes\<rparr>
      in case answer of
           Inl e \<Rightarrow> (w1, failed (StoreError e))
         | Inr retired \<Rightarrow>
            (if ltReason retired \<noteq> REASON_OK then (w1, padded h ck (ltReason retired))
             else (if hSubscriptions h then w1\<lparr>rwReg := retiredRendezvous (rwReg w) (tqRendezvousId q)\<rparr> else w1,
                   answered \<lparr> tsDiscardedDeposits = ltDiscardedDeposits retired \<rparr>)))"

definition RendezvousRetire ::
  "RecordLayer \<Rightarrow> RendezvousLayer \<Rightarrow> 's Handler \<Rightarrow> 'b LinkBoxes \<Rightarrow> ctx \<Rightarrow> Clock \<Rightarrow> time \<Rightarrow>
   ApiConnection option \<Rightarrow> pRetireRequest option \<Rightarrow> 'b RWorld \<Rightarrow> ('b RWorld \<times> pRetireResponse Answer) option" where
  "RendezvousRetire L R h ops ctx ck now conn request w =
     behindFront L h ck RendezvousRetireArm conn request w (\<lambda>c q op.
       onLiveBox h ops ctx ck now (length (tqRendezvousId q) = RendezvousIdBytes) (tqRendezvousId q) w (\<lambda>box.
         if \<not> VerifyRendezvousRetire R (lbCollectVerifyPub box) (acServerNonce c) (tqRendezvousId q) (tqRetireAuth q)
         then (w, padded h ck REASON_CARD_RETIRED)
         else retireBox h ops ctx ck now q box w))"

end
