(* ===== verification/Rendezvous_Invariant.thy ===== *)
theory Rendezvous_Invariant
  imports Rendezvous_Push
begin

text \<open>
  What the rendezvous registry keeps. The counts are read against the multiset of subscriptions that
  stand: \<open>accounts\<close> says that the total and every connection's count are those of a multiset, and
  ending a subscription takes one element out of it. Every box that stands has an entry in the expiry
  queue, which is all \<open>pruneRendezvous\<close> reads of the queue's order.
\<close>

section \<open>The invariant\<close>

definition boxPairs :: "bytes \<times> rendezvousBox \<Rightarrow> rendezvousKey multiset" where
  "boxPairs e = image_mset (\<lambda>s. (fst s, fst e)) (mset (rbSubscribers (snd e)))"

definition pairsOf :: "(bytes \<times> rendezvousBox) list \<Rightarrow> rendezvousKey multiset" where
  "pairsOf boxes = \<Sum>\<^sub># (image_mset boxPairs (mset boxes))"

definition heldIn :: "bytes \<Rightarrow> rendezvousKey multiset \<Rightarrow> int" where
  "heldIn connection P = int (size (filter_mset (\<lambda>p. fst p = connection) P))"

definition accounts :: "rendezvousKey multiset \<Rightarrow> RendezvousRegistry \<Rightarrow> bool" where
  "accounts P z \<longleftrightarrow> rzCount z = int (size P) \<and> (\<forall>c. heldOf z c = heldIn c P) \<and>
     distinct (map fst (rzHeld z))"

definition boxesOk :: "(bytes \<times> rendezvousBox) list \<Rightarrow> bool" where
  "boxesOk boxes \<longleftrightarrow> distinct (map fst boxes) \<and>
     (\<forall>e \<in> set boxes. distinct (map fst (rbSubscribers (snd e))) \<and> rbSubscribers (snd e) \<noteq> [])"

definition queued :: "RendezvousRegistry \<Rightarrow> bool" where
  "queued z \<longleftrightarrow> isHeap reExpireTime (rzExpiry z) \<and>
     (\<forall>e \<in> set (rzBoxes z). \<lparr> reExpireTime = rbExpireTime (snd e), reBox = fst e \<rparr> \<in> set (rzExpiry z))"

definition owedStand :: "RendezvousRegistry \<Rightarrow> bool" where
  "owedStand z \<longleftrightarrow> (\<forall>c b. (c, b) \<in> set (rzReady z) \<longrightarrow> subscriberAt z b c \<noteq> None)"

definition capped :: "RendezvousRegistry \<Rightarrow> bool" where
  "capped z \<longleftrightarrow> (\<forall>c. heldOf z c \<le> rzMaxPerConnection z)"

definition subscriberOk :: "nat \<Rightarrow> bytes \<Rightarrow> bytes \<Rightarrow> rendezvousSubscription \<Rightarrow> bool" where
  "subscriberOk next b c s \<longleftrightarrow>
     c = connectionKeyOf (rsClientId s) (rsServerNonce s) \<and> rsRendezvousId s = b \<and> rsSerial s < next"

definition namedOk :: "RendezvousRegistry \<Rightarrow> bool" where
  "namedOk z \<longleftrightarrow> (\<forall>b c s. subscriberAt z b c = Some s \<longrightarrow> subscriberOk (rzNextSerial z) b c s)"

definition serialsOk :: "RendezvousRegistry \<Rightarrow> bool" where
  "serialsOk z \<longleftrightarrow> (\<forall>b c s b' c' s'. subscriberAt z b c = Some s \<longrightarrow> subscriberAt z b' c' = Some s' \<longrightarrow>
     rsSerial s = rsSerial s' \<longrightarrow> b = b' \<and> c = c')"

definition rendezvousOk :: "RendezvousRegistry \<Rightarrow> bool" where
  "rendezvousOk z \<longleftrightarrow> boxesOk (rzBoxes z) \<and> accounts (pairsOf (rzBoxes z)) z \<and> queued z \<and> owedStand z \<and>
     capped z \<and> namedOk z \<and> serialsOk z \<and>
     rzMaxPerConnection z = DefaultMaxRendezvousSubscriptionsPerConnection"

text \<open>How many Collects hold a subscription, and that each is held or was kept.\<close>

definition claimsOn :: "rendezvousClaim list \<Rightarrow> nat \<Rightarrow> int" where
  "claimsOn cs serial = int (length (filter (\<lambda>c. clClaimed c = serial) cs))"

definition claimsCounted :: "rendezvousClaim list \<Rightarrow> RendezvousRegistry \<Rightarrow> bool" where
  "claimsCounted cs z \<longleftrightarrow> (\<forall>b c s. subscriberAt z b c = Some s \<longrightarrow>
     rsClaims s = claimsOn cs (rsSerial s) \<and> (rsKept s \<or> 0 < rsClaims s))"

definition claimsNamed :: "rendezvousClaim list \<Rightarrow> RendezvousRegistry \<Rightarrow> bool" where
  "claimsNamed cs z \<longleftrightarrow> (\<forall>k \<in> set cs. clClaimed k < rzNextSerial z \<and>
     (\<forall>b c s. subscriberAt z b c = Some s \<longrightarrow> rsSerial s = clClaimed k \<longrightarrow>
        b = clRendezvousId k \<and> c = connectionKeyOf (clClientId k) (clServerNonce k)))"

definition rendezvousSystemOk :: "RendezvousSystem \<Rightarrow> bool" where
  "rendezvousSystemOk y \<longleftrightarrow> rendezvousOk (ryReg y) \<and> claimsCounted (ryClaims y) (ryReg y) \<and>
     claimsNamed (ryClaims y) (ryReg y)"

section \<open>Association lists as multisets\<close>

lemma mset_delete:
  assumes "distinct (map fst xs)" "map_of xs k = Some v"
  shows "mset xs = add_mset (k, v) (mset (AList.delete k xs))"
  using assms by (induction xs) (auto simp: AList.delete_idem)

lemma mset_update:
  assumes "distinct (map fst xs)"
  shows "mset (AList.update k v xs) = add_mset (k, v) (mset (AList.delete k xs))"
  using assms by (induction xs) (auto simp: AList.delete_idem)

lemma delete_absent: "map_of xs k = None \<Longrightarrow> AList.delete k xs = xs"
  by (simp add: AList.delete_idem map_of_eq_None_iff)

lemma pairs_delete:
  assumes "distinct (map fst boxes)" "map_of boxes b = Some r"
  shows "pairsOf boxes = boxPairs (b, r) + pairsOf (AList.delete b boxes)"
  using mset_delete [OF assms] by (simp add: pairsOf_def)

lemma pairs_update:
  assumes "distinct (map fst boxes)"
  shows "pairsOf (AList.update b r boxes) = boxPairs (b, r) + pairsOf (AList.delete b boxes)"
  using mset_update [OF assms] by (simp add: pairsOf_def)

lemma boxPairs_cong:
  "map fst (rbSubscribers r) = map fst (rbSubscribers r') \<Longrightarrow> boxPairs (b, r) = boxPairs (b, r')"
proof -
  assume "map fst (rbSubscribers r) = map fst (rbSubscribers r')"
  moreover have "boxPairs (b, q) = image_mset (\<lambda>c. (c, b)) (mset (map fst (rbSubscribers q)))" for q
    by (simp add: boxPairs_def multiset.map_comp comp_def)
  ultimately show ?thesis by metis
qed

section \<open>Counting\<close>

lemma heldIn_add [simp]: "heldIn c (add_mset p P) = heldIn c P + (if fst p = c then 1 else 0)"
  by (simp add: heldIn_def)

lemma heldIn_nonneg [simp]: "0 \<le> heldIn c P"
  by (simp add: heldIn_def)

lemma heldOf_delete: "heldOf (z\<lparr>rzHeld := AList.delete c (rzHeld z)\<rparr>) d = (if d = c then 0 else heldOf z d)"
  by (simp add: heldOf_def AList.delete_conv)

lemma heldOf_update: "heldOf (z\<lparr>rzHeld := AList.update c n (rzHeld z)\<rparr>) d = (if d = c then n else heldOf z d)"
  by (simp add: heldOf_def AList.update_conv)

lemma heldOf_cong: "rzHeld z = rzHeld z' \<Longrightarrow> heldOf z c = heldOf z' c"
  by (simp add: heldOf_def)

lemma release_accounts:
  assumes "accounts (add_mset (c, b) P) z"
  shows "accounts P (releaseRendezvous c z)"
proof -
  have held: "heldOf z d = heldIn d P + (if c = d then 1 else 0)" for d
    using assms by (simp add: accounts_def)
  have "heldOf (releaseRendezvous c z) d = heldIn d P" for d
  proof (cases "heldOf z c \<le> 1")
    case True
    then have "heldOf (releaseRendezvous c z) d = (if d = c then 0 else heldOf z d)"
      using heldOf_delete [where z = z and c = c and d = d] by (simp add: releaseRendezvous_def heldOf_def)
    moreover have "heldIn c P = 0" using True held [of c] heldIn_nonneg [of c P] by simp
    ultimately show ?thesis using held by simp
  next
    case False
    then have "heldOf (releaseRendezvous c z) d = (if d = c then heldOf z c - 1 else heldOf z d)"
      using heldOf_update [where z = z and c = c and n = "heldOf z c - 1" and d = d] by (simp add: releaseRendezvous_def heldOf_def)
    then show ?thesis using held by simp
  qed
  moreover have "distinct (map fst (rzHeld (releaseRendezvous c z)))"
    using assms by (simp add: accounts_def releaseRendezvous_def AList.distinct_delete AList.distinct_update)
  ultimately show ?thesis using assms by (simp add: accounts_def releaseRendezvous_def)
qed

lemma accounts_cong:
  "accounts P z \<Longrightarrow> rzCount z' = rzCount z \<Longrightarrow> rzHeld z' = rzHeld z \<Longrightarrow> accounts P z'"
  by (simp add: accounts_def heldOf_def)

lemma dropSubscriber_accounts:
  "accounts (add_mset (c, b) P) z \<Longrightarrow> accounts P (dropSubscriber b c z)"
  unfolding dropSubscriber_def
  by (rule release_accounts, erule accounts_cong) (simp_all add: unreadyRendezvous_def)

lemma dropSubscribers_accounts:
  "accounts (image_mset (\<lambda>c. (c, b)) (mset cs) + P) z \<Longrightarrow> accounts P (fold (dropSubscriber b) cs z)"
  by (induction cs arbitrary: z) (auto dest: dropSubscriber_accounts)

lemma dropSubscribers_fields [simp]:
  "rzMaxPerConnection (fold (dropSubscriber b) cs z) = rzMaxPerConnection z"
  "rzNextSerial (fold (dropSubscriber b) cs z) = rzNextSerial z"
  "rzBoxes (fold (dropSubscriber b) cs z) = rzBoxes z"
  "set (rzReady (fold (dropSubscriber b) cs z)) = set (rzReady z) - (\<lambda>c. (c, b)) ` set cs"
  by (induction cs arbitrary: z) (auto simp: dropSubscriber_def releaseRendezvous_def unreadyRendezvous_def)

section \<open>What each change leaves standing\<close>

definition sameSubscription :: "rendezvousSubscription \<Rightarrow> rendezvousSubscription \<Rightarrow> bool" where
  "sameSubscription s s0 \<longleftrightarrow> rsSerial s = rsSerial s0 \<and> rsClientId s = rsClientId s0 \<and>
     rsServerNonce s = rsServerNonce s0 \<and> rsRendezvousId s = rsRendezvousId s0"

lemma sameSubscription_refl [simp]: "sameSubscription s s"
  by (simp add: sameSubscription_def)

lemma subscriberAt_iff:
  "subscriberAt z b c = Some s \<longleftrightarrow> (\<exists>r. map_of (rzBoxes z) b = Some r \<and> map_of (rbSubscribers r) c = Some s)"
  by (auto simp: subscriberAt_def split: option.splits)

lemma subscriberAt_cong: "rzBoxes z = rzBoxes z' \<Longrightarrow> subscriberAt z b c = subscriberAt z' b c"
  by (simp add: subscriberAt_def)

lemma rendezvousOkD:
  assumes "rendezvousOk z"
  shows "boxesOk (rzBoxes z)" "accounts (pairsOf (rzBoxes z)) z" "queued z" "owedStand z" "capped z"
    "namedOk z" "serialsOk z" "rzMaxPerConnection z = DefaultMaxRendezvousSubscriptionsPerConnection" "distinct (map fst (rzBoxes z))"
  using assms by (simp_all add: rendezvousOk_def boxesOk_def)

lemma heldIn_mono: "P \<subseteq># Q \<Longrightarrow> heldIn c P \<le> heldIn c Q"
  by (auto simp: heldIn_def intro: size_mset_mono multiset_filter_mono)

text \<open>A registry that holds less of what another holds, and counts it right, keeps the invariant.\<close>

lemma shrink_ok:
  assumes ok: "rendezvousOk z"
    and "boxesOk (rzBoxes z')" "accounts (pairsOf (rzBoxes z')) z'" "pairsOf (rzBoxes z') \<subseteq># pairsOf (rzBoxes z)"
    and "queued z'" "owedStand z'"
    and subs: "\<And>b c s. subscriberAt z' b c = Some s \<Longrightarrow> \<exists>s0. subscriberAt z b c = Some s0 \<and> sameSubscription s s0"
    and "rzMaxPerConnection z' = rzMaxPerConnection z" "rzNextSerial z' = rzNextSerial z"
  shows "rendezvousOk z'"
proof -
  note D = rendezvousOkD [OF ok]
  have "heldOf z' c \<le> heldOf z c" for c
    using assms(3,4) D(2) heldIn_mono by (auto simp: accounts_def)
  then have "capped z'" using D(5) assms(8) unfolding capped_def by (metis order_trans)
  moreover have "namedOk z'"
    unfolding namedOk_def
  proof (intro allI impI)
    fix b c s assume "subscriberAt z' b c = Some s"
    from subs [OF this] obtain s0 where "subscriberAt z b c = Some s0" "sameSubscription s s0" by blast
    then show "subscriberOk (rzNextSerial z') b c s"
      using D(6) assms(9) by (auto simp: namedOk_def subscriberOk_def sameSubscription_def)
  qed
  moreover have "serialsOk z'"
    unfolding serialsOk_def
  proof (intro allI impI)
    fix b c s b' c' s'
    assume at: "subscriberAt z' b c = Some s" "subscriberAt z' b' c' = Some s'" "rsSerial s = rsSerial s'"
    obtain s0 where s0: "subscriberAt z b c = Some s0" "sameSubscription s s0" using subs [OF at(1)] by blast
    obtain s0' where s0': "subscriberAt z b' c' = Some s0'" "sameSubscription s' s0'"
      using subs [OF at(2)] by blast
    have "rsSerial s0 = rsSerial s0'" using s0 s0' at(3) by (simp add: sameSubscription_def)
    with s0(1) s0'(1) show "b = b' \<and> c = c'" using D(7) unfolding serialsOk_def by blast
  qed
  ultimately show ?thesis using assms D(8) by (simp add: rendezvousOk_def)
qed

lemma boxesOk_delete: "boxesOk boxes \<Longrightarrow> boxesOk (AList.delete b boxes)"
  by (auto simp: boxesOk_def AList.delete_eq distinct_map_filter)

lemma set_update_distinct:
  "distinct (map fst xs) \<Longrightarrow> set (AList.update k v xs) = insert (k, v) (set (AList.delete k xs))"
  using mset_update [of xs k v] by (metis set_mset_add_mset_insert set_mset_mset)

lemma boxesOk_update:
  assumes "boxesOk boxes" "distinct (map fst (rbSubscribers r))" "rbSubscribers r \<noteq> []"
  shows "boxesOk (AList.update b r boxes)"
proof -
  have "distinct (map fst boxes)" using assms by (simp add: boxesOk_def)
  then show ?thesis
    using assms boxesOk_delete [OF assms(1), of b]
    by (auto simp: boxesOk_def set_update_distinct AList.distinct_update)
qed

lemma drop_effect:
  assumes "map_of (rzBoxes z) b = Some r"
  shows "rzBoxes (dropRendezvousBox b z) = AList.delete b (rzBoxes z)"
    and "set (rzReady (dropRendezvousBox b z)) = set (rzReady z) - (\<lambda>c. (c, b)) ` fst ` set (rbSubscribers r)"
    and "rzMaxPerConnection (dropRendezvousBox b z) = rzMaxPerConnection z"
    and "rzNextSerial (dropRendezvousBox b z) = rzNextSerial z"
  using assms by (simp_all add: dropRendezvousBox_def)

lemma drop_subscriberAt:
  "subscriberAt (dropRendezvousBox b z) b' c = (if b' = b then None else subscriberAt z b' c)"
proof (cases "map_of (rzBoxes z) b")
  case None
  then show ?thesis by (simp add: dropRendezvousBox_def subscriberAt_def)
next
  case (Some r)
  then show ?thesis using drop_effect(1) [OF Some] by (simp add: subscriberAt_def AList.delete_conv)
qed

lemma drop_ok:
  assumes ok: "rendezvousOk z"
  shows "rendezvousOk (dropRendezvousBox b z)"
proof (cases "map_of (rzBoxes z) b")
  case None
  then show ?thesis using ok by (simp add: dropRendezvousBox_def)
next
  case (Some r)
  note D = rendezvousOkD [OF ok] and E = drop_effect [OF Some]
  have pairs: "pairsOf (rzBoxes z) = image_mset (\<lambda>c. (c, b)) (mset (map fst (rbSubscribers r))) +
      pairsOf (AList.delete b (rzBoxes z))"
    using pairs_delete [OF D(9) Some] by (simp add: boxPairs_def multiset.map_comp comp_def)
  show ?thesis
  proof (rule shrink_ok [OF ok])
    show "boxesOk (rzBoxes (dropRendezvousBox b z))" by (simp add: E boxesOk_delete D)
    have "accounts (pairsOf (AList.delete b (rzBoxes z))) (fold (dropSubscriber b) (map fst (rbSubscribers r)) z)"
      using dropSubscribers_accounts D(2) pairs by metis
    then show "accounts (pairsOf (rzBoxes (dropRendezvousBox b z))) (dropRendezvousBox b z)"
      unfolding E(1) by (rule accounts_cong) (simp_all add: dropRendezvousBox_def Some)
    show "pairsOf (rzBoxes (dropRendezvousBox b z)) \<subseteq># pairsOf (rzBoxes z)"
      unfolding E pairs by simp
    show "queued (dropRendezvousBox b z)"
      using D(3) by (auto simp: queued_def E AList.delete_eq)
    show "owedStand (dropRendezvousBox b z)"
      unfolding owedStand_def
    proof (intro allI impI)
      fix c b' assume "(c, b') \<in> set (rzReady (dropRendezvousBox b z))"
      then have old: "(c, b') \<in> set (rzReady z)" "(c, b') \<notin> (\<lambda>c. (c, b)) ` fst ` set (rbSubscribers r)"
        by (auto simp: E)
      then have "subscriberAt z b' c \<noteq> None" using D(4) unfolding owedStand_def by blast
      then obtain s where s: "subscriberAt z b' c = Some s" by blast
      have "b' \<noteq> b"
      proof
        assume b: "b' = b"
        then have "(c, s) \<in> set (rbSubscribers r)" using s Some by (intro map_of_SomeD) (simp add: subscriberAt_iff)
        then show False using old(2) b by force
      qed
      then show "subscriberAt (dropRendezvousBox b z) b' c \<noteq> None" using s by (simp add: drop_subscriberAt)
    qed
    show "\<exists>s0. subscriberAt z b' c = Some s0 \<and> sameSubscription s s0"
      if "subscriberAt (dropRendezvousBox b z) b' c = Some s" for b' c s
      using that by (auto simp: drop_subscriberAt split: if_splits)
  qed (simp_all add: E)
qed

lemma put_subscriberAt:
  assumes "subscriberAt z b c \<noteq> None \<or> map_of (rzBoxes z) b \<noteq> None"
  shows "subscriberAt (putSubscriber b c s z) b' c' = (if b' = b \<and> c' = c then Some s else subscriberAt z b' c')"
  using assms by (auto simp: subscriberAt_def putSubscriber_def AList.update_conv' split: option.splits)

lemma put_fields [simp]:
  "rzMaxPerConnection (putSubscriber b c s z) = rzMaxPerConnection z" "rzHeld (putSubscriber b c s z) = rzHeld z"
  "rzCount (putSubscriber b c s z) = rzCount z" "rzExpiry (putSubscriber b c s z) = rzExpiry z"
  "rzReady (putSubscriber b c s z) = rzReady z" "rzNextSerial (putSubscriber b c s z) = rzNextSerial z"
  by (simp_all add: putSubscriber_def split: option.split)

text \<open>A box replaced by one with the same expiry and the same subscribers' names.\<close>

lemma rewrite_ok:
  assumes ok: "rendezvousOk z" and r: "map_of (rzBoxes z) b = Some r"
    and boxes: "rzBoxes z' = AList.update b r' (rzBoxes z)"
    and same: "map fst (rbSubscribers r') = map fst (rbSubscribers r)" "rbExpireTime r' = rbExpireTime r"
    and subs: "\<And>c s. map_of (rbSubscribers r') c = Some s \<Longrightarrow>
      \<exists>s0. map_of (rbSubscribers r) c = Some s0 \<and> sameSubscription s s0"
    and fields: "rzHeld z' = rzHeld z" "rzCount z' = rzCount z" "rzExpiry z' = rzExpiry z"
      "rzMaxPerConnection z' = rzMaxPerConnection z" "rzNextSerial z' = rzNextSerial z" "owedStand z'"
  shows "rendezvousOk z'"
proof (rule shrink_ok [OF ok])
  note D = rendezvousOkD [OF ok]
  have mem: "(b, r) \<in> set (rzBoxes z)" using r by (rule map_of_SomeD)
  have ne: "rbSubscribers r' \<noteq> []" "distinct (map fst (rbSubscribers r'))"
    using same(1) D(1) mem by (auto simp: boxesOk_def)
  show "boxesOk (rzBoxes z')" unfolding boxes using D(1) ne by (intro boxesOk_update)
  have pairs: "pairsOf (rzBoxes z') = pairsOf (rzBoxes z)"
    unfolding boxes pairs_update [OF D(9)] pairs_delete [OF D(9) r] using boxPairs_cong [OF same(1)] by simp
  show "accounts (pairsOf (rzBoxes z')) z'" "pairsOf (rzBoxes z') \<subseteq># pairsOf (rzBoxes z)"
    unfolding pairs using accounts_cong [OF D(2)] fields by simp_all
  show "queued z'"
    using D(3) mem same(2) by (auto simp: queued_def boxes fields set_update_distinct [OF D(9)] AList.delete_eq)
  show "\<exists>s0. subscriberAt z b' c = Some s0 \<and> sameSubscription s s0" if "subscriberAt z' b' c = Some s" for b' c s
    using that subs r by (auto simp: subscriberAt_iff boxes AList.update_conv' split: if_splits)
qed (use fields in simp_all)

lemma put_ok:
  assumes ok: "rendezvousOk z" and at: "subscriberAt z b c = Some s0" and "sameSubscription s s0"
  shows "rendezvousOk (putSubscriber b c s z)"
proof -
  obtain r where r: "map_of (rzBoxes z) b = Some r" "map_of (rbSubscribers r) c = Some s0"
    using at by (auto simp: subscriberAt_iff)
  have key: "c \<in> fst ` set (rbSubscribers r)" using map_of_SomeD [OF r(2)] by force
  show ?thesis
  proof (rule rewrite_ok [OF ok r(1), where r' = "r\<lparr>rbSubscribers := AList.update c s (rbSubscribers r)\<rparr>"])
    show "map fst (rbSubscribers (r\<lparr>rbSubscribers := AList.update c s (rbSubscribers r)\<rparr>)) = map fst (rbSubscribers r)"
      using key by (simp add: AList.update_keys)
    show "owedStand (putSubscriber b c s z)"
      using rendezvousOkD(4) [OF ok] at unfolding owedStand_def by (simp add: put_subscriberAt at)
  qed (use r assms(3) in \<open>auto simp: putSubscriber_def AList.update_conv' split: if_splits\<close>)
qed

lemma remove_subscriberAt:
  assumes "distinct (map fst (rzBoxes z))"
  shows "subscriberAt (removeRendezvous b c z) b' c' = (if b' = b \<and> c' = c then None else subscriberAt z b' c')"
proof (cases "subscriberAt z b c")
  case None
  then show ?thesis by (auto simp: removeRendezvous_def subscriberAt_def split: option.splits)
next
  case (Some s)
  then obtain r where r: "map_of (rzBoxes z) b = Some r" "map_of (rbSubscribers r) c = Some s"
    by (auto simp: subscriberAt_iff)
  let ?left = "AList.delete c (rbSubscribers r)"
  have "map_of (rbSubscribers r) c' = None" if "?left = []" "c' \<noteq> c"
    using AList.delete_conv [of c "rbSubscribers r"] that by (metis fun_upd_other map_of.simps(1))
  then show ?thesis
    using r by (auto simp: removeRendezvous_def subscriberAt_def AList.delete_conv' AList.update_conv' Let_def
        split: option.splits)
qed

lemma remove_fields [simp]:
  "rzMaxPerConnection (removeRendezvous b c z) = rzMaxPerConnection z"
  "rzExpiry (removeRendezvous b c z) = rzExpiry z" "rzNextSerial (removeRendezvous b c z) = rzNextSerial z"
  by (simp_all add: removeRendezvous_def releaseRendezvous_def unreadyRendezvous_def Let_def split: option.split)

lemma remove_ready:
  "subscriberAt z b c \<noteq> None \<Longrightarrow> set (rzReady (removeRendezvous b c z)) = set (rzReady z) - {(c, b)}"
  by (auto simp: removeRendezvous_def releaseRendezvous_def unreadyRendezvous_def subscriberAt_def Let_def
      split: option.splits)

lemma remove_ok:
  assumes ok: "rendezvousOk z"
  shows "rendezvousOk (removeRendezvous b c z)"
proof (cases "subscriberAt z b c")
  case None
  then show ?thesis using ok by (auto simp: removeRendezvous_def subscriberAt_def split: option.splits)
next
  case (Some s)
  then obtain r where r: "map_of (rzBoxes z) b = Some r" "map_of (rbSubscribers r) c = Some s"
    by (auto simp: subscriberAt_iff)
  note D = rendezvousOkD [OF ok]
  have mem: "(b, r) \<in> set (rzBoxes z)" using r(1) by (rule map_of_SomeD)
  then have dr: "distinct (map fst (rbSubscribers r))" using D(1) by (auto simp: boxesOk_def)
  let ?left = "AList.delete c (rbSubscribers r)"
  let ?boxes = "if ?left = [] then AList.delete b (rzBoxes z)
    else AList.update b (r\<lparr>rbSubscribers := ?left\<rparr>) (rzBoxes z)"
  have eq: "removeRendezvous b c z = (releaseRendezvous c (unreadyRendezvous (c, b) z))\<lparr>rzBoxes := ?boxes\<rparr>"
    using r by (simp add: removeRendezvous_def Let_def)
  have "boxPairs (b, r) = add_mset (c, b) (boxPairs (b, r\<lparr>rbSubscribers := ?left\<rparr>))"
    using mset_delete [OF dr r(2)] by (simp add: boxPairs_def)
  moreover have "boxPairs (b, r\<lparr>rbSubscribers := []\<rparr>) = {#}" by (simp add: boxPairs_def)
  ultimately have pairs: "pairsOf (rzBoxes z) = add_mset (c, b) (pairsOf ?boxes)"
    unfolding pairs_delete [OF D(9) r(1)] by (auto simp: pairs_update [OF D(9)])
  show ?thesis
  proof (rule shrink_ok [OF ok])
    show "boxesOk (rzBoxes (removeRendezvous b c z))"
      unfolding eq using D(1) dr by (simp add: boxesOk_delete boxesOk_update AList.distinct_delete)
    have "accounts (add_mset (c, b) (pairsOf ?boxes)) (unreadyRendezvous (c, b) z)"
      using accounts_cong [OF D(2)] pairs by (simp add: unreadyRendezvous_def)
    then show "accounts (pairsOf (rzBoxes (removeRendezvous b c z))) (removeRendezvous b c z)"
      unfolding eq using accounts_cong [OF release_accounts] by simp
    show "pairsOf (rzBoxes (removeRendezvous b c z)) \<subseteq># pairsOf (rzBoxes z)" unfolding eq pairs by simp
    show "queued (removeRendezvous b c z)"
      using D(3) mem by (auto simp: queued_def eq releaseRendezvous_def unreadyRendezvous_def
          set_update_distinct [OF D(9)] AList.delete_eq)
    show "owedStand (removeRendezvous b c z)"
      unfolding owedStand_def remove_subscriberAt [OF D(9)]
      using D(4) by (auto simp: owedStand_def remove_ready Some)
    show "\<exists>s0. subscriberAt z b' c' = Some s0 \<and> sameSubscription s' s0"
      if "subscriberAt (removeRendezvous b c z) b' c' = Some s'" for b' c' s'
      using that by (auto simp: remove_subscriberAt [OF D(9)] split: if_splits)
  qed simp_all
qed

section \<open>Expiry\<close>

lemma dropSubscriber_expiry_update:
  "dropSubscriber b c (z\<lparr>rzExpiry := q\<rparr>) = (dropSubscriber b c z)\<lparr>rzExpiry := q\<rparr>"
  by (simp add: dropSubscriber_def releaseRendezvous_def unreadyRendezvous_def heldOf_def)

lemma pruneOne_expiry_update: "pruneOne now entry (z\<lparr>rzExpiry := q\<rparr>) = (pruneOne now entry z)\<lparr>rzExpiry := q\<rparr>"
proof -
  have "fold (dropSubscriber b) cs (z\<lparr>rzExpiry := q\<rparr>) = (fold (dropSubscriber b) cs z)\<lparr>rzExpiry := q\<rparr>" for b cs z
    by (induction cs arbitrary: z) (auto simp: dropSubscriber_expiry_update)
  then show ?thesis by (simp add: pruneOne_def dropRendezvousBox_def split: option.split)
qed

lemma expiry_ok:
  assumes "rendezvousOk z" "isHeap reExpireTime q"
    "\<And>e. e \<in> set (rzBoxes z) \<Longrightarrow> \<lparr> reExpireTime = rbExpireTime (snd e), reBox = fst e \<rparr> \<in> set q"
  shows "rendezvousOk (z\<lparr>rzExpiry := q\<rparr>)"
  using assms
  by (auto simp: rendezvousOk_def accounts_def heldOf_def queued_def owedStand_def capped_def namedOk_def
      serialsOk_def subscriberAt_def)

lemma pruneOne_ok: "rendezvousOk z \<Longrightarrow> rendezvousOk (pruneOne now entry z)"
  by (simp add: pruneOne_def drop_ok split: option.split)

lemma pruneOne_boxes:
  assumes "distinct (map fst (rzBoxes z))"
  shows "rzBoxes (pruneOne now entry z) =
    filter (\<lambda>e. fst e \<noteq> reBox entry \<or> now < rbExpireTime (snd e)) (rzBoxes z)"
proof -
  have keep: "filter (\<lambda>e. fst e \<noteq> reBox entry \<or> now < rbExpireTime (snd e)) (rzBoxes z) = rzBoxes z"
    if "\<And>r. map_of (rzBoxes z) (reBox entry) = Some r \<Longrightarrow> now < rbExpireTime r"
    using that assms by (intro filter_True) auto
  show ?thesis
  proof (cases "map_of (rzBoxes z) (reBox entry)")
    case None
    then show ?thesis using keep by (simp add: pruneOne_def)
  next
    case (Some r)
    have one: "v = r" if "(reBox entry, v) \<in> set (rzBoxes z)" for v
      using map_of_is_SomeI [OF assms that] Some by simp
    have "filter (\<lambda>(k, _). reBox entry \<noteq> k) (rzBoxes z) =
        filter (\<lambda>e. fst e \<noteq> reBox entry \<or> now < rbExpireTime (snd e)) (rzBoxes z)" if "\<not> now < rbExpireTime r"
      using that one by (intro filter_cong) auto
    then show ?thesis using Some keep drop_effect(1) [OF Some]
      by (auto simp: pruneOne_def AList.delete_eq)
  qed
qed

text \<open>One turn of the loop: the entry popped may go, since its box was dropped or has a later entry.\<close>

lemma prune_turn:
  assumes ok: "rendezvousOk z" and ne: "rzExpiry z \<noteq> []" and due: "\<not> now < reExpireTime (rzExpiry z ! 0)"
    and pop: "heapPop reExpireTime (rzExpiry z) = (entry, rest)"
  shows "rendezvousOk (pruneOne now entry (z\<lparr>rzExpiry := rest\<rparr>))" "\<not> now < reExpireTime entry"
proof -
  note D = rendezvousOkD [OF ok]
  have heap: "isHeap reExpireTime (rzExpiry z)" using D(3) by (simp add: queued_def)
  note P = pop_heap [OF heap ne pop]
  show late: "\<not> now < reExpireTime entry" using P(3) due by simp
  have "\<lparr> reExpireTime = rbExpireTime (snd e), reBox = fst e \<rparr> \<in> set rest"
    if "e \<in> set (rzBoxes (pruneOne now entry z))" for e
  proof -
    have e: "e \<in> set (rzBoxes z)" "fst e \<noteq> reBox entry \<or> now < rbExpireTime (snd e)"
      using that by (auto simp: pruneOne_boxes [OF D(9)])
    let ?own = "\<lparr> reExpireTime = rbExpireTime (snd e), reBox = fst e \<rparr>"
    have "?own \<in> set (rzExpiry z)" using D(3) e(1) by (simp add: queued_def)
    moreover have "?own \<noteq> entry" using e(2) late by auto
    ultimately show ?thesis
      using slice_heap.pop_rest [of reExpireTime "rzExpiry z" ?own] heap ne pop by simp
  qed
  then show "rendezvousOk (pruneOne now entry (z\<lparr>rzExpiry := rest\<rparr>))"
    unfolding pruneOne_expiry_update by (intro expiry_ok pruneOne_ok ok P(1)) auto
qed

lemma prune_spec:
  "rendezvousOk z \<Longrightarrow> rendezvousOk (pruneRendezvous now z) \<and>
   rzBoxes (pruneRendezvous now z) = filter (\<lambda>e. now < rbExpireTime (snd e)) (rzBoxes z)"
proof (induction now z rule: pruneRendezvous.induct)
  case (1 now z)
  note D = rendezvousOkD [OF "1.prems"]
  show ?case
  proof (cases "rzExpiry z \<noteq> [] \<and> \<not> now < reExpireTime (rzExpiry z ! 0)")
    case True
    obtain entry rest where pop: "heapPop reExpireTime (rzExpiry z) = (entry, rest)" by fastforce
    note T = prune_turn [OF "1.prems" _ _ pop, of now]
    have step: "pruneRendezvous now z = pruneRendezvous now (pruneOne now entry (z\<lparr>rzExpiry := rest\<rparr>))"
      using True pop by (simp add: pruneRendezvous.simps [of now z])
    have "rzBoxes (pruneOne now entry (z\<lparr>rzExpiry := rest\<rparr>)) =
        filter (\<lambda>e. fst e \<noteq> reBox entry \<or> now < rbExpireTime (snd e)) (rzBoxes z)"
      using pruneOne_boxes [OF D(9), of now entry] by (simp add: pruneOne_expiry_update)
    moreover have "filter (\<lambda>e. now < rbExpireTime (snd e))
        (filter (\<lambda>e. fst e \<noteq> reBox entry \<or> now < rbExpireTime (snd e)) (rzBoxes z)) =
        filter (\<lambda>e. now < rbExpireTime (snd e)) (rzBoxes z)"
      by (auto simp: filter_filter intro: filter_cong)
    ultimately show ?thesis
      using "1.IH" [OF True pop [symmetric] refl] T(1) True by (simp add: step)
  next
    case False
    have "now < rbExpireTime (snd e)" if "e \<in> set (rzBoxes z)" for e
    proof -
      let ?own = "\<lparr> reExpireTime = rbExpireTime (snd e), reBox = fst e \<rparr>"
      have own: "?own \<in> set (rzExpiry z)" and heap: "isHeap reExpireTime (rzExpiry z)"
        using D(3) that by (auto simp: queued_def)
      then have "now < reExpireTime (rzExpiry z ! 0)" using False by force
      then show ?thesis
        using slice_heap.pop_least [OF heap, of ?own] own pop_head(1) [OF heap] by force
    qed
    moreover have "pruneRendezvous now z = z" using False by (simp only: pruneRendezvous.simps [of now z] if_False)
    ultimately show ?thesis using "1.prems" by simp
  qed
qed

lemma map_of_filter_values:
  "distinct (map fst xs) \<Longrightarrow> map_of (filter (\<lambda>e. P (snd e)) xs) k =
   (case map_of xs k of None \<Rightarrow> None | Some v \<Rightarrow> if P v then Some v else None)"
  by (induction xs) (auto simp: map_of_eq_None_iff split: option.splits)

lemma prune_map:
  assumes "rendezvousOk z"
  shows "map_of (rzBoxes (pruneRendezvous now z)) b =
    (case map_of (rzBoxes z) b of None \<Rightarrow> None | Some r \<Rightarrow> if now < rbExpireTime r then Some r else None)"
  using prune_spec [OF assms] map_of_filter_values [OF rendezvousOkD(9) [OF assms]] by simp

lemma pruneOne_fields [simp]:
  "rzNextSerial (pruneOne now e z) = rzNextSerial z" "rzMaxPerConnection (pruneOne now e z) = rzMaxPerConnection z"
  by (auto simp: pruneOne_def drop_effect split: option.split)

lemma prune_fields [simp]:
  "rzNextSerial (pruneRendezvous now z) = rzNextSerial z"
  "rzMaxPerConnection (pruneRendezvous now z) = rzMaxPerConnection z"
proof (induction now z rule: pruneRendezvous.induct)
  case (1 now z)
  { case 1 then show ?case using "1.IH"(1) by (subst pruneRendezvous.simps) (auto split: prod.splits) }
  { case 2 then show ?case using "1.IH"(2) by (subst pruneRendezvous.simps) (auto split: prod.splits) }
qed

lemma prune_subscriberAt:
  assumes "rendezvousOk z" "subscriberAt (pruneRendezvous now z) b c = Some s"
  shows "subscriberAt z b c = Some s"
  using assms(2) prune_map [OF assms(1), of now b] by (auto simp: subscriberAt_iff split: option.splits if_splits)

end
