(* ===== verification/Rendezvous_Calls.thy ===== *)
theory Rendezvous_Calls
  imports Rendezvous_Invariant
begin

text \<open>
  Every call of the rendezvous registry keeps its invariant, and with it the count of the Collects that
  hold each subscription: a call either leaves fewer subscriptions, each with its claims
  (\<open>fewerSubscribers\<close>), or changes the claims of one.
\<close>

section \<open>Subscribing\<close>

lemma endEarlier_ok: "rendezvousOk z \<Longrightarrow> rendezvousOk (endEarlier rid expire z)"
  by (simp add: endEarlier_def drop_ok split: option.split)

lemma endEarlier_fields [simp]:
  "rzNextSerial (endEarlier rid expire z) = rzNextSerial z"
  "rzMaxPerConnection (endEarlier rid expire z) = rzMaxPerConnection z"
  by (auto simp: endEarlier_def drop_effect split: option.split)

lemma endEarlier_subscriberAt:
  "subscriberAt (endEarlier rid expire z) b c =
   (if b = rid \<and> (\<exists>r. map_of (rzBoxes z) rid = Some r \<and> rbExpireTime r < expire) then None else subscriberAt z b c)"
  by (auto simp: endEarlier_def drop_subscriberAt split: option.split)

lemma endEarlier_map:
  assumes "\<And>r. map_of (rzBoxes z) rid = Some r \<Longrightarrow> \<not> expire < rbExpireTime r"
    and "map_of (rzBoxes (endEarlier rid expire z)) rid = Some r"
  shows "rbExpireTime r = expire"
  using assms
  by (fastforce simp: endEarlier_def drop_effect AList.delete_conv' split: option.splits if_splits)

definition boxOrNew :: "bytes \<Rightarrow> time \<Rightarrow> RendezvousRegistry \<Rightarrow> rendezvousBox" where
  "boxOrNew rid expire z =
     (case map_of (rzBoxes z) rid of None \<Rightarrow> \<lparr> rbExpireTime = expire, rbSubscribers = [] \<rparr> | Some r \<Rightarrow> r)"

definition newSubscriber :: "bytes \<Rightarrow> bytes \<Rightarrow> bytes \<Rightarrow> nat \<Rightarrow> rendezvousSubscription" where
  "newSubscriber client nonce rid serial =
     \<lparr> rsClientId = client, rsServerNonce = nonce, rsRendezvousId = rid, rsPending = 0, rsClaims = 1,
       rsKept = False, rsSerial = serial \<rparr>"

abbreviation subscribed :: "bytes \<Rightarrow> bytes \<Rightarrow> bytes \<Rightarrow> time \<Rightarrow> RendezvousRegistry \<Rightarrow> RendezvousRegistry" where
  "subscribed client nonce rid expire z \<equiv>
     addSubscriber client nonce rid (connectionKeyOf client nonce) (openBox rid expire z)"

lemma subscribed_fields:
  "rzBoxes (subscribed client nonce rid expire z) = AList.update rid
     ((boxOrNew rid expire z)\<lparr>rbSubscribers := AList.update (connectionKeyOf client nonce)
        (newSubscriber client nonce rid (rzNextSerial z)) (rbSubscribers (boxOrNew rid expire z))\<rparr>) (rzBoxes z)"
  "rzHeld (subscribed client nonce rid expire z) =
     AList.update (connectionKeyOf client nonce) (heldOf z (connectionKeyOf client nonce) + 1) (rzHeld z)"
  "rzCount (subscribed client nonce rid expire z) = rzCount z + 1"
  "rzNextSerial (subscribed client nonce rid expire z) = Suc (rzNextSerial z)"
  "rzMaxPerConnection (subscribed client nonce rid expire z) = rzMaxPerConnection z"
  "rzReady (subscribed client nonce rid expire z) = rzReady z"
  "rzExpiry (subscribed client nonce rid expire z) = (if map_of (rzBoxes z) rid = None
     then heapPush reExpireTime \<lparr> reExpireTime = expire, reBox = rid \<rparr> (rzExpiry z) else rzExpiry z)"
  by (auto simp: addSubscriber_def openBox_def putSubscriber_def boxOrNew_def newSubscriber_def heldOf_def
      AList.update_conv' split: option.split)

lemma subscribed_subscriberAt:
  "subscriberAt (subscribed client nonce rid expire z) b c =
   (if b = rid \<and> c = connectionKeyOf client nonce then Some (newSubscriber client nonce rid (rzNextSerial z))
    else subscriberAt z b c)"
  by (auto simp: subscriberAt_def subscribed_fields(1) boxOrNew_def AList.update_conv' split: option.splits)

lemma subscribed_pairs:
  assumes "rendezvousOk z" "subscriberAt z rid (connectionKeyOf client nonce) = None"
  shows "pairsOf (rzBoxes (subscribed client nonce rid expire z)) =
    add_mset (connectionKeyOf client nonce, rid) (pairsOf (rzBoxes z))"
proof -
  note D = rendezvousOkD [OF assms(1)]
  let ?r = "boxOrNew rid expire z"
  have absent: "map_of (rbSubscribers ?r) (connectionKeyOf client nonce) = None"
    using assms(2) by (auto simp: boxOrNew_def subscriberAt_def split: option.splits)
  have dist: "distinct (map fst (rbSubscribers ?r))"
    using D(1) by (auto simp: boxOrNew_def boxesOk_def split: option.splits dest!: map_of_SomeD)
  have "boxPairs (rid, ?r) + pairsOf (AList.delete rid (rzBoxes z)) = pairsOf (rzBoxes z)"
    using pairs_delete [OF D(9)]
    by (auto simp: boxOrNew_def boxPairs_def delete_absent split: option.split)
  then show ?thesis
    unfolding subscribed_fields pairs_update [OF D(9)]
    using mset_update [OF dist] delete_absent [OF absent] by (auto simp: boxPairs_def)
qed

lemma subscribed_accounts:
  assumes "accounts P z"
  shows "accounts (add_mset (connectionKeyOf client nonce, rid) P) (subscribed client nonce rid expire z)"
  using assms by (simp add: accounts_def heldOf_def subscribed_fields AList.update_conv' AList.distinct_update)

lemma subscribed_queued:
  assumes ok: "rendezvousOk z" and box: "\<And>r. map_of (rzBoxes z) rid = Some r \<Longrightarrow> rbExpireTime r = expire"
  shows "queued (subscribed client nonce rid expire z)"
proof -
  note D = rendezvousOkD [OF ok]
  have heap: "isHeap reExpireTime (rzExpiry z)" using D(3) by (simp add: queued_def)
  let ?new = "\<lparr> reExpireTime = expire, reBox = rid \<rparr>"
  have old: "set (rzExpiry z) \<subseteq> set (rzExpiry (subscribed client nonce rid expire z))"
    "isHeap reExpireTime (rzExpiry (subscribed client nonce rid expire z))"
    using push_heap [OF heap] heap by (auto simp: subscribed_fields simp flip: set_mset_mset)
  have new: "?new \<in> set (rzExpiry (subscribed client nonce rid expire z))"
  proof (cases "map_of (rzBoxes z) rid")
    case None
    then show ?thesis using push_heap(2) [OF heap] by (simp add: subscribed_fields flip: set_mset_mset)
  next
    case (Some r)
    then have "?new \<in> set (rzExpiry z)"
      using D(3) box [OF Some] map_of_SomeD [OF Some] by (force simp: queued_def)
    then show ?thesis using old by blast
  qed
  have "rbExpireTime (boxOrNew rid expire z) = expire"
    using box by (auto simp: boxOrNew_def split: option.split)
  then show ?thesis
    using D(3) old new
    by (auto simp: queued_def subscribed_fields(1) set_update_distinct [OF D(9)] AList.delete_eq)
qed

lemma subscribed_ok:
  assumes ok: "rendezvousOk z" and box: "\<And>r. map_of (rzBoxes z) rid = Some r \<Longrightarrow> rbExpireTime r = expire"
    and none: "subscriberAt z rid (connectionKeyOf client nonce) = None"
    and room: "heldOf z (connectionKeyOf client nonce) < rzMaxPerConnection z"
  shows "rendezvousOk (subscribed client nonce rid expire z)"
proof -
  let ?z = "subscribed client nonce rid expire z"
  note D = rendezvousOkD [OF ok] and S = subscribed_subscriberAt [of client nonce rid expire z]
  have "distinct (map fst (rbSubscribers (boxOrNew rid expire z)))"
    using D(1) by (auto simp: boxOrNew_def boxesOk_def split: option.splits dest!: map_of_SomeD)
  then have "boxesOk (rzBoxes ?z)"
    unfolding subscribed_fields by (intro boxesOk_update D(1)) (auto simp: AList.distinct_update AList.update_nonempty)
  moreover have "accounts (pairsOf (rzBoxes ?z)) ?z"
    unfolding subscribed_pairs [OF ok none] by (intro subscribed_accounts D(2))
  moreover have "owedStand ?z"
    using D(4) unfolding owedStand_def S subscribed_fields by auto
  moreover have "capped ?z"
    using D(5) room by (auto simp: capped_def heldOf_def subscribed_fields AList.update_conv')
  moreover have "namedOk ?z"
    using D(6) by (auto simp: namedOk_def S subscriberOk_def newSubscriber_def subscribed_fields less_Suc_eq)
  moreover have "serialsOk ?z"
    using D(6,7) unfolding serialsOk_def namedOk_def S subscriberOk_def newSubscriber_def
    by (auto split: if_splits) (metis less_irrefl)+
  ultimately show ?thesis
    using subscribed_queued [OF ok box] D(8) by (simp add: rendezvousOk_def subscribed_fields)
qed

section \<open>Fewer subscribers\<close>

definition sameClaims :: "rendezvousSubscription \<Rightarrow> rendezvousSubscription \<Rightarrow> bool" where
  "sameClaims s s0 \<longleftrightarrow> rsSerial s = rsSerial s0 \<and> rsClaims s = rsClaims s0 \<and> rsKept s = rsKept s0"

definition fewerSubscribers :: "RendezvousRegistry \<Rightarrow> RendezvousRegistry \<Rightarrow> bool" where
  "fewerSubscribers z' z \<longleftrightarrow> rzNextSerial z' = rzNextSerial z \<and>
     (\<forall>b c s. subscriberAt z' b c = Some s \<longrightarrow> (\<exists>s0. subscriberAt z b c = Some s0 \<and> sameClaims s s0))"

lemma fewerI:
  assumes "rzNextSerial z' = rzNextSerial z"
    and "\<And>b c s. subscriberAt z' b c = Some s \<Longrightarrow> subscriberAt z b c = Some s"
  shows "fewerSubscribers z' z"
  using assms by (auto simp: fewerSubscribers_def sameClaims_def)

lemma fewer_trans: "fewerSubscribers z1 z2 \<Longrightarrow> fewerSubscribers z2 z3 \<Longrightarrow> fewerSubscribers z1 z3"
  unfolding fewerSubscribers_def sameClaims_def by metis

lemma fewer_prune: "rendezvousOk z \<Longrightarrow> fewerSubscribers (pruneRendezvous now z) z"
  by (rule fewerI) (auto intro: prune_subscriberAt)

lemma fewer_endEarlier: "fewerSubscribers (endEarlier rid expire z) z"
  by (rule fewerI) (auto simp: endEarlier_subscriberAt split: if_splits)

lemma fewer_drop: "fewerSubscribers (dropRendezvousBox b z) z"
proof (rule fewerI)
  show "rzNextSerial (dropRendezvousBox b z) = rzNextSerial z"
    by (cases "map_of (rzBoxes z) b") (auto simp: drop_effect dropRendezvousBox_def)
qed (auto simp: drop_subscriberAt split: if_splits)

lemma fewer_remove: "rendezvousOk z \<Longrightarrow> fewerSubscribers (removeRendezvous b c z) z"
  by (rule fewerI) (auto simp: remove_subscriberAt [OF rendezvousOkD(9)] split: if_splits)

lemma fewer_counted:
  assumes "fewerSubscribers z' z"
  shows "claimsCounted cs z \<Longrightarrow> claimsCounted cs z'" "claimsNamed cs z \<Longrightarrow> claimsNamed cs z'"
  using assms unfolding fewerSubscribers_def sameClaims_def claimsCounted_def claimsNamed_def
  by (metis, metis)

section \<open>The calls\<close>

lemma subscribe_cases:
  assumes "rendezvousOk z" "subscribeRendezvous z client nonce rid expire now = (z', answer)"
  obtains (behind) "answer = Inr (None, False)" "z' = pruneRendezvous now z"
  | (present) z2 s where "rendezvousOk z2" "fewerSubscribers z2 z"
      "subscriberAt z2 rid (connectionKeyOf client nonce) = Some s" "answer = Inr (Some (rsSerial s), False)"
      "z' = putSubscriber rid (connectionKeyOf client nonce) (s\<lparr>rsClaims := rsClaims s + 1\<rparr>) z2"
  | (full) "answer = Inl ErrRendezvousSubscriptionsFull" "rendezvousOk z'" "fewerSubscribers z' z"
  | (added) z2 where "rendezvousOk z2" "fewerSubscribers z2 z" "z' = subscribed client nonce rid expire z2"
      "answer = Inr (Some (rzNextSerial z2), True)" "rendezvousOk z'"
proof -
  let ?c = "connectionKeyOf client nonce"
  define z1 where "z1 = pruneRendezvous now z"
  define z2 where "z2 = endEarlier rid expire z1"
  have ok1: "rendezvousOk z1" using prune_spec [OF assms(1)] by (simp add: z1_def)
  then have ok2: "rendezvousOk z2" by (simp add: z2_def endEarlier_ok)
  have few: "fewerSubscribers z2 z"
    using fewer_trans [OF fewer_endEarlier fewer_prune [OF assms(1)]] by (simp add: z1_def z2_def)
  show ?thesis
  proof (cases "\<exists>r. map_of (rzBoxes z1) rid = Some r \<and> expire < rbExpireTime r")
    case True
    then show ?thesis using assms(2) behind by (auto simp: subscribeRendezvous_def Let_def simp flip: z1_def)
  next
    case False
    then have box: "rbExpireTime r = expire" if "map_of (rzBoxes z2) rid = Some r" for r
      using endEarlier_map [of z1 rid expire r] that by (auto simp: z2_def)
    have eq: "(z', answer) = (case subscriberAt z2 rid ?c of
        Some present \<Rightarrow> (putSubscriber rid ?c (present\<lparr>rsClaims := rsClaims present + 1\<rparr>) z2,
                         Inr (Some (rsSerial present), False))
      | None \<Rightarrow> if rzMaxPerConnection z2 \<le> heldOf z2 ?c then (z2, Inl ErrRendezvousSubscriptionsFull)
                else (subscribed client nonce rid expire z2, Inr (Some (rzNextSerial z2), True)))"
      using assms(2) False
      by (auto simp: subscribeRendezvous_def Let_def split: option.splits simp flip: z1_def z2_def)
    show ?thesis
    proof (cases "subscriberAt z2 rid ?c")
      case (Some s)
      then show ?thesis using eq present [OF ok2 few] by simp
    next
      case None
      show ?thesis
      proof (cases "rzMaxPerConnection z2 \<le> heldOf z2 ?c")
        case True
        then show ?thesis using eq None full ok2 few by simp
      next
        case False
        then have "rendezvousOk (subscribed client nonce rid expire z2)"
          by (intro subscribed_ok [OF ok2 box None]) auto
        then show ?thesis using eq None False added [OF ok2 few] by simp
      qed
    qed
  qed
qed

lemma deposited_effect:
  assumes ok: "rendezvousOk z" and "depositedRendezvous z rid pending now = (z', marked)"
  shows "rendezvousOk z'" "fewerSubscribers z' z"
    and "subscriberAt z' b c = (case subscriberAt (pruneRendezvous now z) b c of None \<Rightarrow> None
      | Some s \<Rightarrow> Some (if b = rid then s\<lparr>rsPending := pending\<rparr> else s))"
    and "set (rzReady z') = set (rzReady (pruneRendezvous now z)) \<union>
      {(c, rid) |c. subscriberAt (pruneRendezvous now z) rid c \<noteq> None}"
proof -
  define z1 where "z1 = pruneRendezvous now z"
  have ok1: "rendezvousOk z1" using prune_spec [OF ok] by (simp add: z1_def)
  note D = rendezvousOkD [OF ok1]
  have mark: "map_of (map (\<lambda>(c, sub). (c, f sub)) xs) k = map_option f (map_of xs k)"
    for f and xs :: "(bytes \<times> rendezvousSubscription) list" and k by (induction xs) auto
  have ins: "set (fold (\<lambda>c. List.insert (c, rid)) cs R) = set R \<union> (\<lambda>c. (c, rid)) ` set cs"
    for cs :: "bytes list" and R by (induction cs arbitrary: R) auto
  have at: "subscriberAt z' b c = (case subscriberAt z1 b c of None \<Rightarrow> None
      | Some s \<Rightarrow> Some (if b = rid then s\<lparr>rsPending := pending\<rparr> else s))" for b c
    using assms(2)
    by (cases "b = rid"; cases "map_of (rzBoxes z1) rid")
      (auto simp: depositedRendezvous_def Let_def subscriberAt_def AList.update_conv' mark
        split: option.splits simp flip: z1_def)
  then show "subscriberAt z' b c = (case subscriberAt (pruneRendezvous now z) b c of None \<Rightarrow> None
      | Some s \<Rightarrow> Some (if b = rid then s\<lparr>rsPending := pending\<rparr> else s))" by (simp add: z1_def)
  have names: "{(c, rid) |c. map_of xs c \<noteq> None} = (\<lambda>c. (c, rid)) ` set (map fst xs)"
    for xs :: "(bytes \<times> rendezvousSubscription) list"
  proof -
    have "{(c, rid) |c. map_of xs c \<noteq> None} = (\<lambda>c. (c, rid)) ` dom (map_of xs)" by auto
    then show ?thesis by (simp add: dom_map_of_conv_image_fst)
  qed
  have ready: "set (rzReady z') = set (rzReady z1) \<union> {(c, rid) |c. subscriberAt z1 rid c \<noteq> None}"
  proof (cases "map_of (rzBoxes z1) rid")
    case (Some r)
    then have "subscriberAt z1 rid = map_of (rbSubscribers r)" by (auto simp: subscriberAt_def)
    moreover have "rzReady z' = fold (\<lambda>c. List.insert (c, rid)) (map fst (rbSubscribers r)) (rzReady z1)"
      using assms(2) Some by (auto simp: depositedRendezvous_def Let_def simp flip: z1_def)
    ultimately show ?thesis by (simp only: ins names)
  qed (use assms(2) in \<open>auto simp: depositedRendezvous_def Let_def subscriberAt_def simp flip: z1_def\<close>)
  then show "set (rzReady z') = set (rzReady (pruneRendezvous now z)) \<union>
      {(c, rid) |c. subscriberAt (pruneRendezvous now z) rid c \<noteq> None}" by (simp add: z1_def)
  have serial: "rzNextSerial z' = rzNextSerial z"
    using assms(2) by (auto simp: depositedRendezvous_def Let_def split: option.splits)
  show "fewerSubscribers z' z"
    using prune_subscriberAt [OF ok, of now] serial
    by (auto simp: fewerSubscribers_def sameClaims_def at z1_def split: option.splits)
  have owed: "owedStand z'"
    unfolding owedStand_def
  proof (intro allI impI)
    fix c b assume "(c, b) \<in> set (rzReady z')"
    then have "subscriberAt z1 b c \<noteq> None" using D(4) ready unfolding owedStand_def by blast
    then show "subscriberAt z' b c \<noteq> None" by (auto simp: at)
  qed
  show "rendezvousOk z'"
  proof (cases "map_of (rzBoxes z1) rid")
    case None
    then show ?thesis using assms(2) ok1 by (simp add: depositedRendezvous_def Let_def flip: z1_def)
  next
    case (Some r)
    show ?thesis
    proof (rule rewrite_ok [OF ok1 Some _ _ _ _ _ _ _ _ _ owed])
      show "rzBoxes z' = AList.update rid (r\<lparr>rbSubscribers :=
          map (\<lambda>(c, sub). (c, sub\<lparr>rsPending := pending\<rparr>)) (rbSubscribers r)\<rparr>) (rzBoxes z1)"
        using assms(2) Some by (auto simp: depositedRendezvous_def Let_def simp flip: z1_def)
    qed (use assms(2) Some in \<open>auto simp: depositedRendezvous_def Let_def mark sameSubscription_def
        case_prod_beta comp_def simp flip: z1_def\<close>)
  qed
qed

lemma settle_cases:
  assumes "settleRendezvous z client nonce rid claimed taken = z'"
  obtains (gone) "z' = z"
      "\<And>s. subscriberAt z rid (connectionKeyOf client nonce) = Some s \<Longrightarrow> rsSerial s \<noteq> claimed"
  | (kept) s s' where "subscriberAt z rid (connectionKeyOf client nonce) = Some s" "rsSerial s = claimed"
      "z' = putSubscriber rid (connectionKeyOf client nonce) s' z" "sameSubscription s' s"
      "rsClaims s' = rsClaims s - 1" "rsKept s' = (rsKept s \<or> taken)" "rsKept s' \<or> rsClaims s' \<noteq> 0"
  | (ended) s s' where "subscriberAt z rid (connectionKeyOf client nonce) = Some s" "rsSerial s = claimed"
      "sameSubscription s' s" "\<not> taken" "\<not> rsKept s" "rsClaims s = 1"
      "z' = removeRendezvous rid (connectionKeyOf client nonce)
              (putSubscriber rid (connectionKeyOf client nonce) s' z)"
proof (cases "subscriberAt z rid (connectionKeyOf client nonce)")
  case None
  then show ?thesis using assms gone by (simp add: settleRendezvous_def)
next
  case (Some s)
  let ?c = "connectionKeyOf client nonce"
  let ?s1 = "s\<lparr>rsClaims := rsClaims s - 1\<rparr>"
  have same: "sameSubscription ?s1 s" "sameSubscription (?s1\<lparr>rsKept := True\<rparr>) s"
    by (simp_all add: sameSubscription_def)
  consider "rsSerial s \<noteq> claimed" | "rsSerial s = claimed" "taken"
    | "rsSerial s = claimed" "\<not> taken" "\<not> rsKept s" "rsClaims s = 1"
    | "rsSerial s = claimed" "\<not> taken" "rsKept s \<or> rsClaims s \<noteq> 1" by blast
  then show ?thesis
  proof cases
    case 1
    then show ?thesis using assms Some gone by (simp add: settleRendezvous_def Let_def)
  next
    case 2
    then have "z' = putSubscriber rid ?c (?s1\<lparr>rsKept := True\<rparr>) z"
      using assms Some by (simp add: settleRendezvous_def Let_def)
    then show ?thesis using kept [OF Some 2(1)] same 2 by simp
  next
    case 3
    then have "z' = removeRendezvous rid ?c (putSubscriber rid ?c ?s1 z)"
      using assms Some by (simp add: settleRendezvous_def Let_def)
    then show ?thesis using ended [OF Some 3(1)] same 3 by blast
  next
    case 4
    then have "z' = putSubscriber rid ?c ?s1 z"
      using assms Some by (auto simp: settleRendezvous_def Let_def)
    then show ?thesis using kept [OF Some 4(1)] same 4 by auto
  qed
qed

lemma take_effect:
  assumes "takeRendezvous key z = (z', f)"
  shows "z' = unreadyRendezvous key z" "subscriberAt z' b c = subscriberAt z b c"
  using assms by (auto simp: takeRendezvous_def unreadyRendezvous_def subscriberAt_def)

lemma unready_ok: "rendezvousOk z \<Longrightarrow> rendezvousOk (unreadyRendezvous key z)"
  by (rule shrink_ok)
    (auto simp: rendezvousOk_def unreadyRendezvous_def accounts_def heldOf_def queued_def owedStand_def subscriberAt_def)

lemma counters_ok:
  "rendezvousOk (z\<lparr>rzPushed := n\<rparr>) = rendezvousOk z" "rendezvousOk (z\<lparr>rzDropped := n\<rparr>) = rendezvousOk z"
  "fewerSubscribers (z\<lparr>rzPushed := n\<rparr>) z0 = fewerSubscribers z z0"
  "fewerSubscribers (z\<lparr>rzDropped := n\<rparr>) z0 = fewerSubscribers z z0"
  by (simp_all add: rendezvousOk_def accounts_def heldOf_def queued_def owedStand_def capped_def
      namedOk_def serialsOk_def subscriberAt_def fewerSubscribers_def)

lemma finish_ok:
  assumes "rendezvousOk z"
  shows "rendezvousOk (finishRendezvous z f delivered)" "fewerSubscribers (finishRendezvous z f delivered) z"
proof -
  have "fewerSubscribers z z" by (rule fewerI) simp_all
  then show "rendezvousOk (finishRendezvous z f delivered)" "fewerSubscribers (finishRendezvous z f delivered) z"
    using assms remove_ok [OF assms] fewer_remove [OF assms]
    by (auto simp: finishRendezvous_def counters_ok split: option.split)
qed

section \<open>The system\<close>

lemma claimsOn_remove:
  "c \<in> set cs \<Longrightarrow> claimsOn (remove1 c cs) n = claimsOn cs n - (if clClaimed c = n then 1 else 0)"
  by (induction cs) (auto simp: claimsOn_def)

lemma claimsOn_Cons: "claimsOn (c # cs) n = claimsOn cs n + (if clClaimed c = n then 1 else 0)"
  by (simp add: claimsOn_def)

lemma claimsCountedD:
  assumes "claimsCounted cs z" "subscriberAt z b c = Some s"
  shows "rsClaims s = claimsOn cs (rsSerial s)" "rsKept s \<or> 0 < rsClaims s"
  using assms unfolding claimsCounted_def by blast+

lemma claimsNamedD:
  assumes "claimsNamed cs z" "k \<in> set cs"
  shows "clClaimed k < rzNextSerial z"
    "subscriberAt z b c = Some s \<Longrightarrow> rsSerial s = clClaimed k \<Longrightarrow>
     b = clRendezvousId k \<and> c = connectionKeyOf (clClientId k) (clServerNonce k)"
  using assms unfolding claimsNamed_def by blast+

lemma claimsNamed_sub:
  assumes "claimsNamed cs z" "rzNextSerial z' = rzNextSerial z"
    and sub: "\<And>b c s. subscriberAt z' b c = Some s \<Longrightarrow> \<exists>s0. subscriberAt z b c = Some s0 \<and> rsSerial s = rsSerial s0"
  shows "claimsNamed cs z'"
  unfolding claimsNamed_def
proof (intro ballI conjI allI impI)
  fix k assume k: "k \<in> set cs"
  show "clClaimed k < rzNextSerial z'" using claimsNamedD(1) [OF assms(1) k] assms(2) by simp
  fix b c s assume s: "subscriberAt z' b c = Some s" "rsSerial s = clClaimed k"
  obtain s0 where "subscriberAt z b c = Some s0" "rsSerial s = rsSerial s0" using sub [OF s(1)] by blast
  then show "b = clRendezvousId k" "c = connectionKeyOf (clClientId k) (clServerNonce k)"
    using claimsNamedD(2) [OF assms(1) k, of b c s0] s(2) by auto
qed

lemma claim_present:
  assumes ok: "rendezvousOk z2" and cc: "claimsCounted cs z2" and cn: "claimsNamed cs z2"
    and s: "subscriberAt z2 rid (connectionKeyOf client nonce) = Some s"
    and z: "z = putSubscriber rid (connectionKeyOf client nonce) (s\<lparr>rsClaims := rsClaims s + 1\<rparr>) z2"
    and k: "k = \<lparr> clClientId = client, clServerNonce = nonce, clRendezvousId = rid, clClaimed = rsSerial s \<rparr>"
  shows "claimsCounted (k # cs) z" and "claimsNamed (k # cs) z"
proof -
  let ?c = "connectionKeyOf client nonce"
  note D = rendezvousOkD [OF ok]
  have at: "subscriberAt z b c = (if b = rid \<and> c = ?c then Some (s\<lparr>rsClaims := rsClaims s + 1\<rparr>)
      else subscriberAt z2 b c)" for b c
    using s z by (simp add: put_subscriberAt)
  have diff: "rsSerial s' \<noteq> rsSerial s" if "subscriberAt z2 b c = Some s'" "b \<noteq> rid \<or> c \<noteq> ?c" for b c s'
    using D(7) that s unfolding serialsOk_def by metis
  show "claimsCounted (k # cs) z"
    unfolding claimsCounted_def
  proof (intro allI impI)
    fix b c s' assume s': "subscriberAt z b c = Some s'"
    show "rsClaims s' = claimsOn (k # cs) (rsSerial s') \<and> (rsKept s' \<or> 0 < rsClaims s')"
    proof (cases "b = rid \<and> c = ?c")
      case True
      then show ?thesis using s' at claimsCountedD [OF cc s] k by (auto simp: claimsOn_Cons claimsOn_def)
    next
      case False
      then show ?thesis using s' at claimsCountedD [OF cc, of b c s'] diff [of b c s'] k
        by (auto simp: claimsOn_Cons)
    qed
  qed
  show "claimsNamed (k # cs) z"
    unfolding claimsNamed_def
  proof (intro ballI conjI allI impI)
    fix l assume l: "l \<in> set (k # cs)"
    have nz: "rzNextSerial z = rzNextSerial z2" using z by simp
    show "clClaimed l < rzNextSerial z"
      using l claimsNamedD(1) [OF cn, of l] D(6) s k nz by (auto simp: namedOk_def subscriberOk_def)
    fix b c s' assume s': "subscriberAt z b c = Some s'" "rsSerial s' = clClaimed l"
    then obtain s0 where s0: "subscriberAt z2 b c = Some s0" "rsSerial s0 = clClaimed l"
      using s by (auto simp: at split: if_splits)
    have "l = k \<Longrightarrow> b = rid \<and> c = ?c" using diff [OF s0(1)] s0(2) k by fastforce
    then show "b = clRendezvousId l" "c = connectionKeyOf (clClientId l) (clServerNonce l)"
      using l k claimsNamedD(2) [OF cn _ s0] by auto
  qed
qed

lemma claim_added:
  assumes ok: "rendezvousOk z2" and cc: "claimsCounted cs z2" and cn: "claimsNamed cs z2"
    and z: "z = subscribed client nonce rid expire z2"
    and k: "k = \<lparr> clClientId = client, clServerNonce = nonce, clRendezvousId = rid, clClaimed = rzNextSerial z2 \<rparr>"
  shows "claimsCounted (k # cs) z" and "claimsNamed (k # cs) z"
proof -
  let ?c = "connectionKeyOf client nonce"
  have fresh: "claimsOn cs (rzNextSerial z2) = 0"
    using cn by (auto simp: claimsNamed_def claimsOn_def filter_empty_conv)
  have below: "rsSerial s < rzNextSerial z2" if "subscriberAt z2 b c = Some s" for b c s
    using rendezvousOkD(6) [OF ok] that by (auto simp: namedOk_def subscriberOk_def)
  have at: "subscriberAt z b c = (if b = rid \<and> c = ?c then Some (newSubscriber client nonce rid (rzNextSerial z2))
      else subscriberAt z2 b c)" for b c
    using z by (simp add: subscribed_subscriberAt)
  show "claimsCounted (k # cs) z"
    unfolding claimsCounted_def
  proof (intro allI impI)
    fix b c s' assume s': "subscriberAt z b c = Some s'"
    show "rsClaims s' = claimsOn (k # cs) (rsSerial s') \<and> (rsKept s' \<or> 0 < rsClaims s')"
    proof (cases "b = rid \<and> c = ?c")
      case True
      then show ?thesis using s' at fresh k by (auto simp: claimsOn_Cons newSubscriber_def)
    next
      case False
      then have s2: "subscriberAt z2 b c = Some s'" using s' at by auto
      show ?thesis using claimsCountedD [OF cc s2] below [OF s2] k by (auto simp: claimsOn_Cons)
    qed
  qed
  show "claimsNamed (k # cs) z"
    unfolding claimsNamed_def
  proof (intro ballI conjI allI impI)
    fix l assume l: "l \<in> set (k # cs)"
    show "clClaimed l < rzNextSerial z"
      using l claimsNamedD(1) [OF cn, of l] k z by (auto simp: subscribed_fields)
    fix b c s' assume s': "subscriberAt z b c = Some s'" "rsSerial s' = clClaimed l"
    show "b = clRendezvousId l" "c = connectionKeyOf (clClientId l) (clServerNonce l)"
      using l s' at [of b c] claimsNamedD [OF cn, of l] below [of b c s'] k
      by (auto simp: newSubscriber_def split: if_splits)
  qed
qed

lemma claim_ok:
  assumes ok: "rendezvousSystemOk y"
    and sub: "subscribeRendezvous (ryReg y) client nonce rid expire now = (z, Inr (Some serial, added))"
  shows "rendezvousSystemOk (y\<lparr>ryReg := z, ryClaims :=
    \<lparr> clClientId = client, clServerNonce = nonce, clRendezvousId = rid, clClaimed = serial \<rparr> # ryClaims y\<rparr>)"
proof -
  have reg: "rendezvousOk (ryReg y)" and cc: "claimsCounted (ryClaims y) (ryReg y)"
    and cn: "claimsNamed (ryClaims y) (ryReg y)" using ok by (auto simp: rendezvousSystemOk_def)
  show ?thesis
    using reg sub
  proof (cases rule: subscribe_cases)
    case (present z2 s)
    note few = fewer_counted [OF present(2)]
    have "rendezvousOk z" using put_ok [OF present(1,3)] present(5) by (simp add: sameSubscription_def)
    moreover note claim_present [OF present(1) few(1) [OF cc] few(2) [OF cn] present(3,5) refl]
    ultimately show ?thesis using present(4) by (simp add: rendezvousSystemOk_def)
  next
    case (added z2)
    note few = fewer_counted [OF added(2)]
    note claim_added [OF added(1) few(1) [OF cc] few(2) [OF cn] added(3) refl]
    then show ?thesis using added(4,5) by (simp add: rendezvousSystemOk_def)
  qed auto
qed

lemma settle_ok:
  assumes ok: "rendezvousSystemOk y" and k: "k \<in> set (ryClaims y)"
  shows "rendezvousSystemOk (y\<lparr>ryReg := settleRendezvous (ryReg y) (clClientId k) (clServerNonce k)
    (clRendezvousId k) (clClaimed k) taken, ryClaims := remove1 k (ryClaims y)\<rparr>)"
proof -
  let ?z = "ryReg y" and ?c = "connectionKeyOf (clClientId k) (clServerNonce k)" and ?b = "clRendezvousId k"
  define z' where "z' = settleRendezvous ?z (clClientId k) (clServerNonce k) ?b (clClaimed k) taken"
  have reg: "rendezvousOk ?z" and cc: "claimsCounted (ryClaims y) ?z"
    and cn: "claimsNamed (ryClaims y) ?z" using ok by (auto simp: rendezvousSystemOk_def)
  note D = rendezvousOkD [OF reg]
  have own: "b = ?b \<and> c = ?c" if "subscriberAt ?z b c = Some s" "rsSerial s = clClaimed k" for b c s
    using cn k that unfolding claimsNamed_def by blast
  have others: "rsClaims s = claimsOn (remove1 k (ryClaims y)) (rsSerial s)"
    "rsKept s \<or> 0 < rsClaims s" if "subscriberAt ?z b c = Some s" "rsSerial s \<noteq> clClaimed k" for b c s
    using claimsCountedD [OF cc that(1)] that(2) claimsOn_remove [OF k, of "rsSerial s"] by auto
  have named: "claimsNamed (remove1 k (ryClaims y)) ?z"
    using cn set_remove1_subset [of k "ryClaims y"] by (auto simp: claimsNamed_def)
  have "rendezvousOk z' \<and> claimsCounted (remove1 k (ryClaims y)) z' \<and> claimsNamed (remove1 k (ryClaims y)) z'"
    using z'_def [symmetric]
  proof (cases rule: settle_cases)
    case gone
    then have "rsSerial s \<noteq> clClaimed k" if "subscriberAt ?z b c = Some s" for b c s
      using own [OF that] that by metis
    then show ?thesis using gone(1) reg named others by (auto simp: claimsCounted_def)
  next
    case (kept s s')
    have at: "subscriberAt z' b c = (if b = ?b \<and> c = ?c then Some s' else subscriberAt ?z b c)" for b c
      using kept(1,3) by (simp add: put_subscriberAt)
    have diff: "rsSerial s0 \<noteq> clClaimed k" if "subscriberAt ?z b c = Some s0" "\<not> (b = ?b \<and> c = ?c)" for b c s0
      using own [OF that(1)] that(2) by blast
    have cnt: "rsClaims s' = claimsOn (remove1 k (ryClaims y)) (rsSerial s')"
      using cc kept(1,2,4,5) claimsOn_remove [OF k, of "rsSerial s"]
      by (auto simp: claimsCounted_def sameSubscription_def)
    then have "rsKept s' \<or> 0 < rsClaims s'" using kept(7) by (auto simp: claimsOn_def)
    then have "claimsCounted (remove1 k (ryClaims y)) z'"
      using cnt others diff unfolding claimsCounted_def at by (auto split: if_splits)
    moreover have "claimsNamed (remove1 k (ryClaims y)) z'"
    proof (rule claimsNamed_sub [OF named])
      show "rzNextSerial z' = rzNextSerial ?z" using kept(3) by simp
    qed (use kept(1,4) in \<open>auto simp: at sameSubscription_def split: if_splits\<close>)
    ultimately show ?thesis using put_ok [OF reg kept(1,4)] kept(3) by simp
  next
    case (ended s s')
    let ?p = "putSubscriber ?b ?c s' ?z"
    have okp: "rendezvousOk ?p" by (rule put_ok [OF reg ended(1,3)])
    have at: "subscriberAt z' b c = (if b = ?b \<and> c = ?c then None else subscriberAt ?z b c)" for b c
      using ended(1) by (auto simp: ended(7) remove_subscriberAt [OF rendezvousOkD(9) [OF okp]] put_subscriberAt)
    have diff: "rsSerial s0 \<noteq> clClaimed k" if "subscriberAt ?z b c = Some s0" "\<not> (b = ?b \<and> c = ?c)" for b c s0
      using own [OF that(1)] that(2) by blast
    have "claimsCounted (remove1 k (ryClaims y)) z'"
      using others diff unfolding claimsCounted_def at by (auto split: if_splits)
    moreover have "claimsNamed (remove1 k (ryClaims y)) z'"
    proof (rule claimsNamed_sub [OF named])
      show "rzNextSerial z' = rzNextSerial ?z" using ended(7) by simp
    qed (auto simp: at split: if_splits)
    ultimately show ?thesis using remove_ok [OF okp] ended(7) by simp
  qed
  then show ?thesis by (simp add: rendezvousSystemOk_def z'_def)
qed

lemma fewer_system:
  assumes "rendezvousSystemOk y" "rendezvousOk z" "fewerSubscribers z (ryReg y)"
  shows "rendezvousSystemOk (y\<lparr>ryReg := z\<rparr>)" "rendezvousSystemOk (y\<lparr>ryReg := z, ryFlight := f\<rparr>)"
  using assms fewer_counted [OF assms(3)] by (auto simp: rendezvousSystemOk_def)

lemma rendezvous_step_ok:
  assumes "rendezvousSystemOk y" "rendezvous_step y y'"
  shows "rendezvousSystemOk y'"
  using assms(2,1)
proof cases
  case (claim client nonce rid expire now z serial added)
  then show ?thesis using claim_ok [OF assms(1)] by simp
next
  case (behind client nonce rid expire now z added)
  then have reg: "rendezvousOk (ryReg y)" using assms(1) by (simp add: rendezvousSystemOk_def)
  have "rendezvousOk z \<and> fewerSubscribers z (ryReg y)"
    using reg behind(2) prune_spec [OF reg] fewer_prune [OF reg] by (cases rule: subscribe_cases) auto
  then show ?thesis using fewer_system(1) [OF assms(1)] behind(1) by simp
next
  case (full client nonce rid expire now z e)
  then have reg: "rendezvousOk (ryReg y)" using assms(1) by (simp add: rendezvousSystemOk_def)
  have "rendezvousOk z \<and> fewerSubscribers z (ryReg y)"
    using reg full(2) by (cases rule: subscribe_cases) auto
  then show ?thesis using fewer_system(1) [OF assms(1)] full(1) by simp
next
  case (settle c taken)
  then show ?thesis using settle_ok [OF assms(1)] by simp
next
  case (deposit rid pending now z marked)
  then have "rendezvousOk (ryReg y)" using assms(1) by (simp add: rendezvousSystemOk_def)
  then show ?thesis using fewer_system(1) [OF assms(1)] deposited_effect(1,2) deposit by metis
next
  case (retire rid)
  then show ?thesis using fewer_system(1) [OF assms(1)] assms(1) drop_ok fewer_drop
    by (simp add: retiredRendezvous_def rendezvousSystemOk_def)
next
  case (take key z f)
  have "fewerSubscribers z (ryReg y)"
    using take_effect [OF take(4)] by (intro fewerI) (auto simp: unreadyRendezvous_def)
  then show ?thesis using take fewer_system(2) [OF assms(1)] assms(1) unready_ok take_effect(1) [OF take(4)]
    by (simp add: rendezvousSystemOk_def)
next
  case (finish f delivered)
  then show ?thesis using fewer_system(2) [OF assms(1) finish_ok] assms(1) by (simp add: rendezvousSystemOk_def)
qed

lemma startRendezvous_ok: "rendezvousSystemOk startRendezvous"
  by (simp add: rendezvousSystemOk_def startRendezvous_def NewRendezvousRegistry_def rendezvousOk_def boxesOk_def
      accounts_def heldOf_def pairsOf_def heldIn_def queued_def heapOrdered_def owedStand_def capped_def namedOk_def
      serialsOk_def subscriberAt_def claimsCounted_def claimsNamed_def
      DefaultMaxRendezvousSubscriptionsPerConnection_def DefaultMaxSubscriptionsPerConnection_def)

interpretation rendezvous: transition_system "\<lambda>y. y = startRendezvous" rendezvous_step rendezvousSystemOk
  by unfold_locales (auto intro: startRendezvous_ok rendezvous_step_ok)

lemma rendezvous_reachable: "rendezvous_step\<^sup>*\<^sup>* startRendezvous y \<Longrightarrow> rendezvousSystemOk y"
  by (rule rendezvous.inv_reachable) simp

end
