(* ===== verification/Rendezvous_Properties.thy ===== *)
theory Rendezvous_Properties
  imports Rendezvous_Calls
begin

text \<open>
  What the rendezvous registry promises: its counts are those of the subscriptions that stand, its
  expiry queue drops exactly the boxes a scan would drop, and a subscription a Collect kept ends only
  for the reasons the code names. The calls are a datatype here so that a statement can range over them.
\<close>

section \<open>Definitions of the statements\<close>

datatype rendezvousCall =
    SubscribeCall bytes bytes bytes time time
  | SettleCall bytes bytes bytes nat bool
  | DepositCall bytes u32 time
  | RetireCall bytes
  | FinishCall rendezvousFlight bool

fun runCall :: "rendezvousCall \<Rightarrow> RendezvousRegistry \<Rightarrow> RendezvousRegistry" where
  "runCall (SubscribeCall client nonce rid expire now) z = fst (subscribeRendezvous z client nonce rid expire now)"
| "runCall (SettleCall client nonce rid serial taken) z = settleRendezvous z client nonce rid serial taken"
| "runCall (DepositCall rid pending now) z = fst (depositedRendezvous z rid pending now)"
| "runCall (RetireCall rid) z = retiredRendezvous z rid"
| "runCall (FinishCall f delivered) z = finishRendezvous z f delivered"

text \<open>
  What ends a kept subscription of connection \<open>c\<close> on box \<open>b\<close>, whose expiry is \<open>e\<close>: a call that finds the
  box past its expiry, a Collect of a later box at the id, a retire, or its own push refused.
\<close>

fun endsKept :: "rendezvousCall \<Rightarrow> bytes \<Rightarrow> bytes \<Rightarrow> nat \<Rightarrow> time \<Rightarrow> bool" where
  "endsKept (SubscribeCall client nonce rid expire now) b c serial e \<longleftrightarrow> e \<le> now \<or> (rid = b \<and> e < expire)"
| "endsKept (SettleCall client nonce rid claimed taken) b c serial e \<longleftrightarrow> False"
| "endsKept (DepositCall rid pending now) b c serial e \<longleftrightarrow> e \<le> now"
| "endsKept (RetireCall rid) b c serial e \<longleftrightarrow> rid = b"
| "endsKept (FinishCall f delivered) b c serial e \<longleftrightarrow> \<not> delivered \<and> rfKey f = (c, b) \<and> rfSerial f = serial"

definition demoY :: RendezvousSystem where
  "demoY = startRendezvous\<lparr>ryReg := fst (subscribeRendezvous NewRendezvousRegistry [1] [2] [3] 900 100),
     ryClaims := [\<lparr> clClientId = [1], clServerNonce = [2], clRendezvousId = [3], clClaimed = 0 \<rparr>]\<rparr>"

definition demoKept :: RendezvousSystem where
  "demoKept = demoY\<lparr>ryReg := settleRendezvous (ryReg demoY) [1] [2] [3] 0 True, ryClaims := []\<rparr>"

section \<open>Counting standing subscriptions\<close>

definition pairList :: "(bytes \<times> rendezvousBox) list \<Rightarrow> rendezvousKey list" where
  "pairList boxes = concat (map (\<lambda>e. map (\<lambda>s. (fst s, fst e)) (rbSubscribers (snd e))) boxes)"

lemma pairList_mset: "mset (pairList boxes) = pairsOf boxes"
  by (induction boxes) (simp_all add: pairList_def pairsOf_def boxPairs_def)

lemma pairList_distinct: "boxesOk boxes \<Longrightarrow> distinct (pairList boxes)"
proof (induction boxes)
  case (Cons e es)
  then have "distinct (map (\<lambda>s. (fst s, fst e)) (rbSubscribers (snd e)))" "fst e \<notin> fst ` set es" "boxesOk es"
    by (auto simp: boxesOk_def distinct_map inj_on_def)
  then show ?case using Cons.IH by (auto simp: pairList_def)
qed (simp add: pairList_def)

lemma pairList_set:
  assumes "boxesOk (rzBoxes z)"
  shows "(c, b) \<in> set (pairList (rzBoxes z)) \<longleftrightarrow> subscriberAt z b c \<noteq> None"
proof -
  have "distinct (map fst (rzBoxes z))" using assms by (simp add: boxesOk_def)
  then have box: "(b, r) \<in> set (rzBoxes z) \<longleftrightarrow> map_of (rzBoxes z) b = Some r" for r
    by (simp add: map_of_eq_Some_iff)
  have name: "c \<in> fst ` set xs \<longleftrightarrow> map_of xs c \<noteq> None" for xs :: "(bytes \<times> rendezvousSubscription) list"
    by (simp add: map_of_eq_None_iff)
  have "(c, b) \<in> set (pairList (rzBoxes z)) \<longleftrightarrow> (\<exists>r. (b, r) \<in> set (rzBoxes z) \<and> c \<in> fst ` set (rbSubscribers r))"
    by (force simp: pairList_def)
  then show ?thesis unfolding box name by (auto simp: subscriberAt_def split: option.splits)
qed

lemma standing_counts:
  assumes ok: "rendezvousOk z"
  shows "rzCount z = int (card {p. subscriberAt z (snd p) (fst p) \<noteq> None})"
    and "heldOf z c = int (card {b. subscriberAt z b c \<noteq> None})"
proof -
  note D = rendezvousOkD [OF ok]
  let ?L = "pairList (rzBoxes z)"
  have set: "set ?L = {p. subscriberAt z (snd p) (fst p) \<noteq> None}" using pairList_set [OF D(1)] by auto
  note dist = pairList_distinct [OF D(1)]
  have "rzCount z = int (length ?L)"
    using D(2) by (simp add: accounts_def flip: pairList_mset)
  then show "rzCount z = int (card {p. subscriberAt z (snd p) (fst p) \<noteq> None})"
    using distinct_card [OF dist] set by simp
  have "heldOf z c = int (length (filter (\<lambda>p. fst p = c) ?L))"
    using D(2) by (simp add: accounts_def heldIn_def flip: pairList_mset mset_filter)
  also have "\<dots> = int (card ({p. fst p = c} \<inter> set ?L))"
    using distinct_length_filter [OF dist, of "\<lambda>p. fst p = c"] by simp
  also have "{p. fst p = c} \<inter> set ?L = Pair c ` {b. subscriberAt z b c \<noteq> None}" unfolding set by force
  also have "card \<dots> = card {b. subscriberAt z b c \<noteq> None}" by (rule card_image) (simp add: inj_on_def)
  finally show "heldOf z c = int (card {b. subscriberAt z b c \<noteq> None})" .
qed

section \<open>How a kept subscription ends\<close>

lemma prune_subscriberAt_iff:
  assumes "rendezvousOk z" "map_of (rzBoxes z) b = Some r"
  shows "subscriberAt (pruneRendezvous now z) b c = (if now < rbExpireTime r then subscriberAt z b c else None)"
  using prune_map [OF assms(1), of now b] assms(2) by (simp add: subscriberAt_def)

lemma below_next: "rendezvousOk z \<Longrightarrow> subscriberAt z b c = Some s \<Longrightarrow> rsSerial s < rzNextSerial z"
  using rendezvousOkD(6) [of z] by (auto simp: namedOk_def subscriberOk_def)

lemma subscribe_keeps:
  assumes ok: "rendezvousOk z" and r: "map_of (rzBoxes z) b = Some r" and s: "subscriberAt z b c = Some s"
  shows "(\<exists>s'. subscriberAt (fst (subscribeRendezvous z client nonce rid expire now)) b c = Some s' \<and>
      rsSerial s' = rsSerial s \<and> rsKept s' = rsKept s) \<longleftrightarrow>
    now < rbExpireTime r \<and> (rid = b \<longrightarrow> \<not> rbExpireTime r < expire)"
proof -
  define z1 where "z1 = pruneRendezvous now z"
  define z2 where "z2 = endEarlier rid expire z1"
  have ok1: "rendezvousOk z1" using prune_spec [OF ok] by (simp add: z1_def)
  have m1: "map_of (rzBoxes z1) b = (if now < rbExpireTime r then Some r else None)"
    using prune_map [OF ok, of now b] r by (simp add: z1_def)
  have at1: "subscriberAt z1 b c = (if now < rbExpireTime r then Some s else None)"
    using prune_subscriberAt_iff [OF ok r, of now c] s by (simp add: z1_def)
  have at2: "subscriberAt z2 b c =
      (if now < rbExpireTime r \<and> (rid = b \<longrightarrow> \<not> rbExpireTime r < expire) then Some s else None)"
    using at1 m1 by (auto simp: z2_def endEarlier_subscriberAt)
  have fresh: "rsSerial s < rzNextSerial z2" using below_next [OF ok s] by (simp add: z1_def z2_def)
  let ?c = "connectionKeyOf client nonce"
  let ?later = "case map_of (rzBoxes z1) rid of None \<Rightarrow> False | Some q \<Rightarrow> expire < rbExpireTime q"
  consider "?later" | q where "\<not> ?later" "subscriberAt z2 rid ?c = Some q"
    | "\<not> ?later" "subscriberAt z2 rid ?c = None" "rzMaxPerConnection z2 \<le> heldOf z2 ?c"
    | "\<not> ?later" "subscriberAt z2 rid ?c = None" "\<not> rzMaxPerConnection z2 \<le> heldOf z2 ?c" by blast
  then show ?thesis
  proof cases
    case 1
    then have "fst (subscribeRendezvous z client nonce rid expire now) = z1"
      by (simp add: subscribeRendezvous_def Let_def flip: z1_def)
    then show ?thesis using at1 m1 1 by (auto split: if_splits)
  next
    case (2 q)
    then have "fst (subscribeRendezvous z client nonce rid expire now) =
        putSubscriber rid ?c (q\<lparr>rsClaims := rsClaims q + 1\<rparr>) z2"
      by (simp add: subscribeRendezvous_def Let_def flip: z1_def z2_def)
    then show ?thesis using at2 2(2) by (auto simp: put_subscriberAt)
  next
    case 3
    then have "fst (subscribeRendezvous z client nonce rid expire now) = z2"
      by (simp add: subscribeRendezvous_def Let_def flip: z1_def z2_def)
    then show ?thesis using at2 by auto
  next
    case 4
    then have "fst (subscribeRendezvous z client nonce rid expire now) = subscribed client nonce rid expire z2"
      by (simp add: subscribeRendezvous_def Let_def flip: z1_def z2_def)
    then show ?thesis using at2 4(2) fresh by (auto simp: subscribed_subscriberAt newSubscriber_def)
  qed
qed

lemma settle_keeps:
  assumes ok: "rendezvousOk z" and s: "subscriberAt z b c = Some s" "rsKept s"
  shows "\<exists>s'. subscriberAt (settleRendezvous z client nonce rid serial taken) b c = Some s' \<and>
    rsSerial s' = rsSerial s \<and> rsKept s'"
  using refl
proof (cases rule: settle_cases [where z = z and client = client and nonce = nonce and rid = rid
      and claimed = serial and taken = taken])
  case gone
  then show ?thesis using s by simp
next
  case (kept q q')
  then show ?thesis using s by (auto simp: put_subscriberAt sameSubscription_def)
next
  case (ended q q')
  then show ?thesis
    using s rendezvousOkD(9) [OF put_ok [OF ok ended(1,3)]] by (auto simp: remove_subscriberAt put_subscriberAt)
qed

lemma deposit_keeps_subscriber:
  assumes ok: "rendezvousOk z" and r: "map_of (rzBoxes z) b = Some r" and s: "subscriberAt z b c = Some s"
  shows "(\<exists>s'. subscriberAt (fst (depositedRendezvous z rid pending now)) b c = Some s' \<and>
      rsSerial s' = rsSerial s \<and> rsKept s' = rsKept s) \<longleftrightarrow> now < rbExpireTime r"
proof -
  obtain z' marked where d: "depositedRendezvous z rid pending now = (z', marked)" by fastforce
  show ?thesis
    using deposited_effect(3) [OF ok d, of b c] prune_subscriberAt_iff [OF ok r, of now c] s d by auto
qed

lemma finish_keeps:
  assumes ok: "rendezvousOk z" and s: "subscriberAt z b c = Some s"
  shows "(\<exists>s'. subscriberAt (finishRendezvous z f delivered) b c = Some s' \<and> rsSerial s' = rsSerial s \<and>
      rsKept s' = rsKept s) \<longleftrightarrow> \<not> (\<not> delivered \<and> rfKey f = (c, b) \<and> rfSerial f = rsSerial s)"
proof -
  have drop: "subscriberAt (q\<lparr>rzPushed := n\<rparr>) b' c' = subscriberAt q b' c'"
    "subscriberAt (q\<lparr>rzDropped := n\<rparr>) b' c' = subscriberAt q b' c'" for q n b' c'
    by (simp_all add: subscriberAt_def)
  obtain c0 b0 where key: "rfKey f = (c0, b0)" by fastforce
  have "subscriberAt (finishRendezvous z f delivered) b c =
      (if \<not> delivered \<and> c0 = c \<and> b0 = b \<and> rfSerial f = rsSerial s then None else Some s)"
    using s key
    by (cases "c0 = c \<and> b0 = b")
      (auto simp: finishRendezvous_def drop remove_subscriberAt [OF rendezvousOkD(9) [OF ok]] split: option.split)
  then show ?thesis using key by auto
qed

section \<open>Properties\<close>

lemma demo_rendezvous_reachable: "rendezvous_step\<^sup>*\<^sup>* startRendezvous demoY" "rendezvous_step\<^sup>*\<^sup>* startRendezvous demoKept"
proof -
  have "subscribeRendezvous (ryReg startRendezvous) [1] [2] [3] 900 100 =
      (ryReg demoY, Inr (Some 0, True))"
    by (simp add: demoY_def startRendezvous_def NewRendezvousRegistry_def subscribeRendezvous_def
        pruneRendezvous.simps endEarlier_def subscriberAt_def heldOf_def Let_def
        DefaultMaxRendezvousSubscriptionsPerConnection_def DefaultMaxSubscriptionsPerConnection_def)
  from rendezvous_step.claim [OF this] have 1: "rendezvous_step startRendezvous demoY"
    by (simp add: demoY_def startRendezvous_def)
  have "rendezvous_step demoY demoKept"
    using rendezvous_step.settle [of _ demoY True] by (force simp: demoY_def demoKept_def)
  with 1 show "rendezvous_step\<^sup>*\<^sup>* startRendezvous demoY" "rendezvous_step\<^sup>*\<^sup>* startRendezvous demoKept"
    by auto
qed

lemma demoKept_reg:
  "map_of (rzBoxes (ryReg demoKept)) [3] = Some \<lparr> rbExpireTime = 900, rbSubscribers =
     [([1, 0, 2], \<lparr> rsClientId = [1], rsServerNonce = [2], rsRendezvousId = [3], rsPending = 0, rsClaims = 0,
        rsKept = True, rsSerial = 0 \<rparr>)] \<rparr>"
  by (simp add: demoKept_def demoY_def NewRendezvousRegistry_def subscribeRendezvous_def connectionKeyOf_def
      pruneRendezvous.simps endEarlier_def subscriberAt_def heldOf_def Let_def openBox_def addSubscriber_def
      putSubscriber_def settleRendezvous_def
      DefaultMaxRendezvousSubscriptionsPerConnection_def DefaultMaxSubscriptionsPerConnection_def)

text \<open>
  C39: The rendezvous registry counts exactly what it holds. After any sequence of Collects, deposits,
  retires, expiries and pushes, a connection's count is the number of boxes it is subscribed to and is
  at most 32, the total is the number of subscriptions that stand, and each of those is kept by a
  Collect whose write took or held by one that has not settled, so that no failed Collect leaves one
  behind.
\<close>
theorem rendezvous_registry_exact:
  assumes "rendezvous_step\<^sup>*\<^sup>* startRendezvous y"
  shows "heldOf (ryReg y) c = int (card {b. subscriberAt (ryReg y) b c \<noteq> None}) \<and>
    heldOf (ryReg y) c \<le> 32 \<and>
    RendezvousSubscriptions (ryReg y) = int (card {p. subscriberAt (ryReg y) (snd p) (fst p) \<noteq> None}) \<and>
    (subscriberAt (ryReg y) b c = Some s \<longrightarrow>
       rsKept s \<or> (\<exists>k \<in> set (ryClaims y). clClaimed k = rsSerial s))"
proof -
  have ok: "rendezvousOk (ryReg y)" and cc: "claimsCounted (ryClaims y) (ryReg y)"
    using rendezvous_reachable [OF assms] by (auto simp: rendezvousSystemOk_def)
  note D = rendezvousOkD [OF ok]
  have "heldOf (ryReg y) c \<le> 32"
    using D(5,8) unfolding capped_def
    by (simp add: DefaultMaxRendezvousSubscriptionsPerConnection_def DefaultMaxSubscriptionsPerConnection_def)
  moreover have "rsKept s \<or> (\<exists>k \<in> set (ryClaims y). clClaimed k = rsSerial s)"
    if "subscriberAt (ryReg y) b c = Some s"
    using claimsCountedD [OF cc that] by (auto simp: claimsOn_def filter_empty_conv)
  ultimately show ?thesis using standing_counts [OF ok] by (simp add: RendezvousSubscriptions_def)
qed

text \<open>
  Expiry in queue order is expiry by scan. In every reachable state, dropping what has expired by
  popping the expiry heap leaves exactly the boxes whose expiry is still ahead, each as it was, and no
  subscription or owed push of any other box.
\<close>
theorem prune_equals_scan:
  assumes "rendezvous_step\<^sup>*\<^sup>* startRendezvous y"
  shows "rzBoxes (pruneRendezvous now (ryReg y)) = filter (\<lambda>e. now < rbExpireTime (snd e)) (rzBoxes (ryReg y)) \<and>
    (\<forall>(c, b) \<in> set (rzReady (pruneRendezvous now (ryReg y))).
       subscriberAt (pruneRendezvous now (ryReg y)) b c \<noteq> None)"
proof -
  have ok: "rendezvousOk (ryReg y)" using rendezvous_reachable [OF assms] by (simp add: rendezvousSystemOk_def)
  note P = prune_spec [OF ok, of now]
  have "owedStand (pruneRendezvous now (ryReg y))" using rendezvousOkD(4) [OF conjunct1 [OF P]] .
  then have "subscriberAt (pruneRendezvous now (ryReg y)) b c \<noteq> None"
    if "(c, b) \<in> set (rzReady (pruneRendezvous now (ryReg y)))" for b c
    using that by (simp add: owedStand_def)
  then show ?thesis using conjunct2 [OF P] by (auto simp del: not_None_eq)
qed

text \<open>
  C29: A subscription a Collect kept ends for one of four reasons. In every reachable state, a call of
  the registry ends a subscription that a Collect whose write took has kept exactly when it finds the
  box past its expiry, subscribes to a later box at the same id, retires the box, or refuses a push of
  that very subscription; no other Collect's failed write, no deposit and no other connection ends it.
\<close>
theorem kept_subscription_life:
  assumes "rendezvous_step\<^sup>*\<^sup>* startRendezvous y" and "map_of (rzBoxes (ryReg y)) b = Some r"
    and "subscriberAt (ryReg y) b c = Some s" and "rsKept s"
  shows "(\<exists>s'. subscriberAt (runCall call (ryReg y)) b c = Some s' \<and> rsSerial s' = rsSerial s \<and> rsKept s') \<longleftrightarrow>
    \<not> endsKept call b c (rsSerial s) (rbExpireTime r)"
proof -
  have ok: "rendezvousOk (ryReg y)" using rendezvous_reachable [OF assms(1)] by (simp add: rendezvousSystemOk_def)
  show ?thesis
  proof (cases call)
    case (SubscribeCall client nonce rid expire now)
    then show ?thesis using subscribe_keeps [OF ok assms(2,3), of client nonce rid expire now] assms(4)
      by (auto simp: not_le)
  next
    case (SettleCall client nonce rid serial taken)
    then show ?thesis using settle_keeps [OF ok assms(3,4), of client nonce rid serial taken] by simp
  next
    case (DepositCall rid pending now)
    then show ?thesis using deposit_keeps_subscriber [OF ok assms(2,3), of rid pending now] assms(4)
      by (simp add: not_le)
  next
    case (RetireCall rid)
    then show ?thesis using assms(3,4) by (auto simp: retiredRendezvous_def drop_subscriberAt)
  next
    case (FinishCall f delivered)
    then show ?thesis using finish_keeps [OF ok assms(3), of f delivered] assms(4) by simp
  qed
qed

theorem rendezvous_registry_exact_witness:
  "heldOf (ryReg demoKept) [1, 0, 2] = int (card {b. subscriberAt (ryReg demoKept) b [1, 0, 2] \<noteq> None}) \<and>
   subscriberAt (ryReg demoKept) [3] [1, 0, 2] \<noteq> None"
  using rendezvous_registry_exact [OF demo_rendezvous_reachable(2)] by (simp add: subscriberAt_def demoKept_reg)

theorem prune_equals_scan_witness:
  "rzBoxes (pruneRendezvous 900 (ryReg demoKept)) = [] \<and> rzBoxes (ryReg demoKept) \<noteq> []"
proof -
  have "map fst (rzBoxes (ryReg demoKept)) = [[3]] \<and> map (rbExpireTime \<circ> snd) (rzBoxes (ryReg demoKept)) = [900]"
    by (simp add: demoKept_def demoY_def NewRendezvousRegistry_def subscribeRendezvous_def connectionKeyOf_def
      pruneRendezvous.simps endEarlier_def subscriberAt_def heldOf_def Let_def openBox_def addSubscriber_def
      putSubscriber_def settleRendezvous_def
      DefaultMaxRendezvousSubscriptionsPerConnection_def DefaultMaxSubscriptionsPerConnection_def)
  then obtain e where "rzBoxes (ryReg demoKept) = [e]" "rbExpireTime (snd e) = 900" by auto
  then show ?thesis using prune_equals_scan [OF demo_rendezvous_reachable(2), of 900] by simp
qed

theorem kept_subscription_life_witness:
  "(\<exists>s'. subscriberAt (runCall (SettleCall [1] [2] [3] 0 False) (ryReg demoKept)) [3] [1, 0, 2] = Some s' \<and>
      rsSerial s' = 0 \<and> rsKept s') \<and>
   \<not> (\<exists>s'. subscriberAt (runCall (RetireCall [3]) (ryReg demoKept)) [3] [1, 0, 2] = Some s' \<and>
      rsSerial s' = 0 \<and> rsKept s')"
proof -
  let ?s = "\<lparr> rsClientId = [1], rsServerNonce = [2], rsRendezvousId = [3], rsPending = 0, rsClaims = 0,
      rsKept = True, rsSerial = 0 \<rparr>"
  have at: "subscriberAt (ryReg demoKept) [3] [1, 0, 2] = Some ?s" by (simp add: subscriberAt_def demoKept_reg)
  note life = kept_subscription_life [OF demo_rendezvous_reachable(2) demoKept_reg at]
  show ?thesis
    using life [of "SettleCall [1] [2] [3] 0 False"] life [of "RetireCall [3]"] by simp
qed

end
