(* ===== verification/Rendezvous_Api_Properties.thy ===== *)
theory Rendezvous_Api_Properties
  imports Rendezvous_Api Rendezvous_Properties Link_Box_Properties Api_Properties
begin

text \<open>
  The rendezvous arms over the memory store and the registry: who may act on a box, what a party
  without a key learns, and that a collector which subscribed is owed a push of a later deposit.
\<close>

section \<open>Definitions of the statements\<close>

text \<open>Expiries are whole microseconds, so that the store's truncated clock and the registry's agree.\<close>

definition wholeExpiries :: "LinkBoxStore \<Rightarrow> bool" where
  "wholeExpiries s \<longleftrightarrow> (\<forall>k row. boxAt s k = Some row \<longrightarrow> linkBoxTime (lrExpireTime row) = lrExpireTime row)"


definition demoRendezvous :: RendezvousLayer where
  "demoRendezvous = \<lparr> RendezvousKeyIsAcceptable = \<lambda>_. True, VerifyRendezvousRegister = \<lambda>_ nonce _. nonce = [9],
     VerifyRendezvousOpen = \<lambda>_ nonce _ _. nonce = [9], VerifyRendezvousDeposit = \<lambda>_ nonce _ _ _. nonce = [9],
     VerifyRendezvousCollect = \<lambda>_ nonce _ _. nonce = [9], VerifyRendezvousRetire = \<lambda>_ nonce _ _. nonce = [9] \<rparr>"

definition demoServing :: "MemoryStore Handler" where
  "demoServing = demoHandler\<lparr>hLinkBoxes := True\<rparr>"

definition demoBoxes :: "LinkBoxStore RWorld" where
  "demoBoxes = \<lparr> rwBoxes = runArms id [demoRegister] NewLinkBoxStore, rwReg = NewRendezvousRegistry \<rparr>"

definition demoCollect :: pCollectRequest where
  "demoCollect = \<lparr> cqRendezvousId = demoId, cqSinceDepositId = 0, cqAckThroughDepositId = 0, cqLimit = 0,
     cqSubscribe = True, cqCollectAuth = [] \<rparr>"

definition demoPut :: pDepositRequest where
  "demoPut = \<lparr> dqRendezvousId = demoId, dqDepositCt = demoCt, dqDepositAuth = [] \<rparr>"

section \<open>The arms behind their checks\<close>

lemma memoryLinkBoxes_simps [simp]:
  "lkLinkBox (memoryLinkBoxes H) = MemoryStore_LinkBox" "lkDeposit (memoryLinkBoxes H) = DepositLinkBox H"
  "lkCollect (memoryLinkBoxes H) ctx s request = CollectLinkBox ctx s (Some request)"
  "lkRetire (memoryLinkBoxes H) = RetireLinkBox"
  by (simp_all add: memoryLinkBoxes_def)

lemma linkBox_pinned [simp]:
  "lbCollectVerifyPub (linkBox row) = lrCollectVerifyPub row"
  "lbDepositVerifyPub (linkBox row) = lrDepositVerifyPub row"
  "lbExpireTime (linkBox row) = lrExpireTime row"
  by (simp_all add: linkBox_def)

definition lookupError :: "ctx \<Rightarrow> bytes \<Rightarrow> store_error option" where
  "lookupError ctx rid = or_else (ctxErr ctx) (checkLength rid RendezvousIdBytes)"

lemma live_lookup:
  "Handler_liveLinkBox (memoryLinkBoxes H) ctx s rid now =
   (case lookupError ctx rid of
      Some e \<Rightarrow> (if e = ErrLinkBoxUnknown then Inl (REASON_CARD_RETIRED, None)
                 else Inl (REASON_INTERNAL, Some (StoreError e)))
    | None \<Rightarrow> (case boxAt s rid of
        None \<Rightarrow> Inl (REASON_CARD_RETIRED, None)
      | Some row \<Rightarrow> if Live (linkBox row) now then Inr (linkBox row) else Inl (REASON_CARD_RETIRED, None)))"
  unfolding Handler_liveLinkBox_def MemoryStore_LinkBox_def memoryLinkBoxes_simps lookupError_def [symmetric]
  by (simp split: option.split)

text \<open>An arm either leaves its world alone and does not answer REASON\_OK, or acts on the live box.\<close>

lemma onLiveBox_cases:
  assumes "behindFront L h ck arm (Some c) (Some q) w (\<lambda>c q op.
      onLiveBox h (memoryLinkBoxes H) ctx ck now (fit q) (rid q) w (act c q)) = Some (w', a)"
  obtains (refused) "w' = w" "anReason a \<noteq> REASON_OK"
  | (acted) row where "boxAt (rwBoxes w) (rid q) = Some row" "Live (linkBox row) now" "fit q"
      "act c q (linkBox row) = (w', a)" "RendezvousServed h"
proof (cases "\<exists>op. opOf L arm = Inr op \<and> frontChecks h c op = REASON_OK")
  case False
  then have "w' = w \<and> anReason a \<noteq> REASON_OK"
    using assms by (auto simp: behindFront_def failed_def padded_def split: sum.splits if_splits)
  then show ?thesis using refused by blast
next
  case True
  then have on: "onLiveBox h (memoryLinkBoxes H) ctx ck now (fit q) (rid q) w (act c q) = Some (w', a)"
    using assms by (auto simp: behindFront_def)
  have "(w' = w \<and> anReason a \<noteq> REASON_OK) \<or> (\<exists>row. boxAt (rwBoxes w) (rid q) = Some row \<and>
      Live (linkBox row) now \<and> fit q \<and> act c q (linkBox row) = (w', a) \<and> RendezvousServed h)"
    using on
    by (auto simp: onLiveBox_def live_lookup padded_def bare_def failed_def split: option.splits if_splits)
  then show ?thesis using refused acted by blast
qed

text \<open>An arm whose act refuses every box alike answers the same whatever is stored.\<close>

lemma onLiveBox_stranger:
  assumes "\<And>w box. act w box = (w, padded h ck REASON_CARD_RETIRED)"
  shows "\<exists>a. \<forall>w. onLiveBox h (memoryLinkBoxes H) ctx ck now fit rid w (act w) = Some (w, a)"
proof -
  have "onLiveBox h (memoryLinkBoxes H) ctx ck now fit rid w (act w) = Some (w,
      if \<not> RendezvousServed h then bare REASON_INTERNAL else if \<not> fit then padded h ck REASON_REJECTED
      else case lookupError ctx rid of
          None \<Rightarrow> padded h ck REASON_CARD_RETIRED
        | Some e \<Rightarrow> if e = ErrLinkBoxUnknown then padded h ck REASON_CARD_RETIRED else failed (StoreError e))" for w
    using assms by (simp add: onLiveBox_def live_lookup split: option.split)
  then show ?thesis by blast
qed

lemma behindFront_stranger:
  assumes "\<And>op. \<exists>a. \<forall>w. k w c q op = Some (w, a)"
  shows "\<exists>a. \<forall>w. behindFront L h ck arm (Some c) (Some q) w (k w) = Some (w, a)"
proof (cases "opOf L arm")
  case (Inl e)
  then show ?thesis by (simp add: behindFront_def)
next
  case (Inr op)
  then show ?thesis using assms [of op] by (cases "frontChecks h c op = REASON_OK") (simp_all add: behindFront_def)
qed

section \<open>Whole expiries\<close>


lemma whole_putDeposits [simp]: "wholeExpiries (putDeposits s k ds) = wholeExpiries s"
  by (simp add: wholeExpiries_def)

lemma whole_lsDeposits [simp]: "wholeExpiries (s\<lparr>lsDeposits := x\<rparr>) = wholeExpiries s"
  by (simp add: wholeExpiries_def boxAt_def)





section \<open>A Collect and a Deposit\<close>

lemma collect_acted:
  assumes "RendezvousCollect L R h (memoryLinkBoxes H) ctx ck now (Some c) (Some q) w = Some (w', a)"
  obtains (refused) "rwBoxes w' = rwBoxes w" "rwReg w' = rwReg w" "anReason a \<noteq> REASON_OK"
  | (limited) "rwBoxes w' = rwBoxes w" "anReason a \<noteq> REASON_OK"
      "\<exists>row. boxAt (rwBoxes w) (cqRendezvousId q) = Some row \<and> Live (linkBox row) now \<and>
         VerifyRendezvousCollect R (lrCollectVerifyPub row) (acServerNonce c) (collectParams q) (cqCollectAuth q)"
  | (acted) row z claimed where "boxAt (rwBoxes w) (cqRendezvousId q) = Some row" "Live (linkBox row) now"
      "VerifyRendezvousCollect R (lrCollectVerifyPub row) (acServerNonce c) (collectParams q) (cqCollectAuth q)"
      "claimFor h c now q (linkBox row) (rwReg w) = (z, Inr claimed)"
      "collectBox h (memoryLinkBoxes H) ctx ck now c q (linkBox row) claimed (w\<lparr>rwReg := z\<rparr>) = (w', a)"
  using assms unfolding RendezvousCollect_def
proof (cases rule: onLiveBox_cases)
  case refused
  then show ?thesis using that(1) by simp
next
  case (acted row)
  show ?thesis
  proof (cases "VerifyRendezvousCollect R (lrCollectVerifyPub row) (acServerNonce c) (collectParams q) (cqCollectAuth q)")
    case False
    then show ?thesis using acted(4) that(1) by (auto simp: padded_def)
  next
    case True
    obtain z answer where claim: "claimFor h c now q (linkBox row) (rwReg w) = (z, answer)" by fastforce
    show ?thesis
    proof (cases answer)
      case (Inl e)
      then show ?thesis using acted(1,2,4) True claim that(2) by (auto simp: padded_def)
    next
      case (Inr claimed)
      then show ?thesis using acted(1,2,4) True claim that(3) by auto
    qed
  qed
qed

lemma deposit_acted:
  assumes "RendezvousDeposit L R h (memoryLinkBoxes H) ctx ck now (Some c) (Some q) w = Some (w', a)"
  obtains (refused) "w' = w" "anReason a \<noteq> REASON_OK"
  | (acted) row where "boxAt (rwBoxes w) (dqRendezvousId q) = Some row" "Live (linkBox row) now"
      "VerifyRendezvousDeposit R (lrDepositVerifyPub row) (acServerNonce c) (dqRendezvousId q) (dqDepositCt q) (dqDepositAuth q)"
      "depositBox h (memoryLinkBoxes H) ctx ck now q (linkBox row) w = (w', a)"
  using assms unfolding RendezvousDeposit_def
proof (cases rule: onLiveBox_cases)
  case (acted row)
  show ?thesis
  proof (cases "VerifyRendezvousDeposit R (lrDepositVerifyPub row) (acServerNonce c) (dqRendezvousId q)
      (dqDepositCt q) (dqDepositAuth q)")
    case True
    then show ?thesis using that(2) [OF acted(1,2)] acted(4) by simp
  next
    case False
    then have "w' = w" "anReason a \<noteq> REASON_OK" using acted(4) by (auto simp: padded_def)
    then show ?thesis by (rule that(1))
  qed
qed (use that(1) in blast)

lemma retire_acted:
  assumes "RendezvousRetire L R h (memoryLinkBoxes H) ctx ck now (Some c) (Some q) w = Some (w', a)"
  obtains (refused) "w' = w" "anReason a \<noteq> REASON_OK"
  | (acted) row where "boxAt (rwBoxes w) (tqRendezvousId q) = Some row" "Live (linkBox row) now"
      "VerifyRendezvousRetire R (lrCollectVerifyPub row) (acServerNonce c) (tqRendezvousId q) (tqRetireAuth q)"
  using assms unfolding RendezvousRetire_def
proof (cases rule: onLiveBox_cases)
  case (acted row)
  show ?thesis
  proof (cases "VerifyRendezvousRetire R (lrCollectVerifyPub row) (acServerNonce c) (tqRendezvousId q) (tqRetireAuth q)")
    case True
    then show ?thesis using that(2) [OF acted(1,2)] by simp
  next
    case False
    then have "w' = w" "anReason a \<noteq> REASON_OK" using acted(4) by (auto simp: padded_def)
    then show ?thesis by (rule that(1))
  qed
qed (use that(1) in blast)

lemma open_acted:
  assumes "RendezvousOpen L R h (memoryLinkBoxes H) ctx ck now (Some c) (Some q) w = Some (w', a)"
  obtains (refused) "w' = w" "anReason a \<noteq> REASON_OK"
  | (acted) row where "boxAt (rwBoxes w) (oqRendezvousId q) = Some row" "Live (linkBox row) now" "w' = w"
      "VerifyRendezvousOpen R (lrDepositVerifyPub row) (acServerNonce c) (oqRendezvousId q) (oqOpenAuth q)"
  using assms unfolding RendezvousOpen_def
proof (cases rule: onLiveBox_cases)
  case (acted row)
  show ?thesis
  proof (cases "VerifyRendezvousOpen R (lrDepositVerifyPub row) (acServerNonce c) (oqRendezvousId q) (oqOpenAuth q)")
    case True
    then show ?thesis using that(2) [OF acted(1,2)] acted(4) by simp
  next
    case False
    then have "w' = w" "anReason a \<noteq> REASON_OK" using acted(4) by (auto simp: padded_def)
    then show ?thesis by (rule that(1))
  qed
qed (use that(1) in blast)




section \<open>Properties\<close>

text \<open>
  C15: Only a key's holder acts on a box. When an Open, a Deposit, a Collect or a Retire is answered
  REASON\_OK, or changes what is stored or who is told of it, there is a live box at the id and the
  request's signature verifies under the key pinned to that box, the deposit key for the first two and
  the collect key for the others, over this connection's nonce.
\<close>
theorem box_acts_need_key:
  "(\<forall>w' a. RendezvousOpen L R h (memoryLinkBoxes H) ctx ck now (Some c) (Some qo) w = Some (w', a) \<longrightarrow>
      w' \<noteq> w \<or> anReason a = REASON_OK \<longrightarrow>
      (\<exists>row. boxAt (rwBoxes w) (oqRendezvousId qo) = Some row \<and> Live (linkBox row) now \<and>
        VerifyRendezvousOpen R (lrDepositVerifyPub row) (acServerNonce c) (oqRendezvousId qo) (oqOpenAuth qo))) \<and>
   (\<forall>w' a. RendezvousDeposit L R h (memoryLinkBoxes H) ctx ck now (Some c) (Some qd) w = Some (w', a) \<longrightarrow>
      w' \<noteq> w \<or> anReason a = REASON_OK \<longrightarrow>
      (\<exists>row. boxAt (rwBoxes w) (dqRendezvousId qd) = Some row \<and> Live (linkBox row) now \<and>
        VerifyRendezvousDeposit R (lrDepositVerifyPub row) (acServerNonce c) (dqRendezvousId qd) (dqDepositCt qd)
          (dqDepositAuth qd))) \<and>
   (\<forall>w' a. RendezvousCollect L R h (memoryLinkBoxes H) ctx ck now (Some c) (Some qc) w = Some (w', a) \<longrightarrow>
      w' \<noteq> w \<or> anReason a = REASON_OK \<longrightarrow>
      (\<exists>row. boxAt (rwBoxes w) (cqRendezvousId qc) = Some row \<and> Live (linkBox row) now \<and>
        VerifyRendezvousCollect R (lrCollectVerifyPub row) (acServerNonce c) (collectParams qc) (cqCollectAuth qc))) \<and>
   (\<forall>w' a. RendezvousRetire L R h (memoryLinkBoxes H) ctx ck now (Some c) (Some qr) w = Some (w', a) \<longrightarrow>
      w' \<noteq> w \<or> anReason a = REASON_OK \<longrightarrow>
      (\<exists>row. boxAt (rwBoxes w) (tqRendezvousId qr) = Some row \<and> Live (linkBox row) now \<and>
        VerifyRendezvousRetire R (lrCollectVerifyPub row) (acServerNonce c) (tqRendezvousId qr) (tqRetireAuth qr)))"
proof (intro conjI allI impI, goal_cases)
  case (1 w' a)
  from 1(1) show ?case by (cases rule: open_acted) (use 1(2) in auto)
next
  case (2 w' a)
  from 2(1) show ?case by (cases rule: deposit_acted) (use 2(2) in auto)
next
  case (3 w' a)
  from 3(1) show ?case
  proof (cases rule: collect_acted)
    case refused
    then have "w' = w" by (cases w; cases w') simp
    then show ?thesis using refused 3(2) by simp
  qed auto
next
  case (4 w' a)
  from 4(1) show ?case by (cases rule: retire_acted) (use 4(2) in auto)
qed

text \<open>
  C20: A party without a box's key cannot tell whether the box exists. When a request's signature
  verifies under no key, each of the four arms gives one answer, the same for every store and every
  registry, be the box unknown, live, retired or past its expiry, and changes neither.
\<close>
theorem strangers_see_one_box:
  assumes "\<And>pub. \<not> VerifyRendezvousOpen R pub (acServerNonce c) (oqRendezvousId qo) (oqOpenAuth qo)"
    and "\<And>pub. \<not> VerifyRendezvousDeposit R pub (acServerNonce c) (dqRendezvousId qd) (dqDepositCt qd) (dqDepositAuth qd)"
    and "\<And>pub. \<not> VerifyRendezvousCollect R pub (acServerNonce c) (collectParams qc) (cqCollectAuth qc)"
    and "\<And>pub. \<not> VerifyRendezvousRetire R pub (acServerNonce c) (tqRendezvousId qr) (tqRetireAuth qr)"
  shows "(\<exists>a. \<forall>w. RendezvousOpen L R h (memoryLinkBoxes H) ctx ck now (Some c) (Some qo) w = Some (w, a)) \<and>
    (\<exists>a. \<forall>w. RendezvousDeposit L R h (memoryLinkBoxes H) ctx ck now (Some c) (Some qd) w = Some (w, a)) \<and>
    (\<exists>a. \<forall>w. RendezvousCollect L R h (memoryLinkBoxes H) ctx ck now (Some c) (Some qc) w = Some (w, a)) \<and>
    (\<exists>a. \<forall>w. RendezvousRetire L R h (memoryLinkBoxes H) ctx ck now (Some c) (Some qr) w = Some (w, a))"
  unfolding RendezvousOpen_def RendezvousDeposit_def RendezvousCollect_def RendezvousRetire_def
  by (intro conjI; rule behindFront_stranger; rule onLiveBox_stranger) (simp_all add: assms)


subsection \<open>A concrete link session\<close>

lemma demo_front: "frontChecks demoServing c op = REASON_OK" "RendezvousServed demoServing" "hSubscriptions demoServing"
  by (simp_all add: frontChecks_def demoServing_def demoHandler_def ChecksNotImplemented_def RendezvousServed_def)

lemma demo_op: "opOf demoLayer arm = Inr 10"
  by (simp add: opOf_def demoLayer_def)

lemma demo_widths:
  "length demoId = RendezvousIdBytes" "length demoPub = VerifyPubBytes" "length demoCt = LinkDepositBytes"
  by (simp_all add: demoId_def demoPub_def demoCt_def RendezvousIdBytes_def VerifyPubBytes_def LinkDepositBytes_def)

lemma demo_lookup: "lookupError None demoId = None"
  by (simp add: lookupError_def or_else_def checkLength_def demo_widths)

abbreviation "demoRow \<equiv> freshRow demoRegistration 0 5000"

lemma demo_row:
  "lrCollectVerifyPub demoRow = demoPub" "lrDepositVerifyPub demoRow = demoPub" "lrExpireTime demoRow = 5000"
  "lrRetiredTime demoRow = None" "lrRefusedCount demoRow = 0" "lrDepositCount demoRow = 0" "lrNextDepositId demoRow = 1"
  by (simp_all add: freshRow_def demoRegistration_def)

definition demoCollected :: "LinkBoxStore" where
  "demoCollected = \<lparr> lsBoxes = [(demoId, demoRow)], lsDeposits = [(demoId, [])] \<rparr>"

lemma demo_collect_write:
  "fst (CollectLinkBox None (runArms H [demoRegister] NewLinkBoxStore) (Some \<lparr> lqRendezvousId = demoId,
     lqSinceDepositId = 0, lqAckThroughDepositId = 0, lqLimit = 0, lqVerifiedPub = demoPub \<rparr>) 500) = demoCollected"
  "collectTaken (snd (CollectLinkBox None (runArms H [demoRegister] NewLinkBoxStore) (Some \<lparr> lqRendezvousId = demoId,
     lqSinceDepositId = 0, lqAckThroughDepositId = 0, lqLimit = 0, lqVerifiedPub = demoPub \<rparr>) 500))"
proof -
  have "validateLinkBoxAct demoId demoPub = None"
    by (simp add: validateLinkBoxAct_def or_else_def checkLength_def demo_widths)
  moreover have "demoRow\<lparr>lrRefusedCount := 0, lrDepositCount := 0\<rparr> = demoRow" by (simp add: freshRow_def)
  ultimately show "fst (CollectLinkBox None (runArms H [demoRegister] NewLinkBoxStore) (Some \<lparr> lqRendezvousId = demoId,
     lqSinceDepositId = 0, lqAckThroughDepositId = 0, lqLimit = 0, lqVerifiedPub = demoPub \<rparr>) 500) = demoCollected"
  "collectTaken (snd (CollectLinkBox None (runArms H [demoRegister] NewLinkBoxStore) (Some \<lparr> lqRendezvousId = demoId,
     lqSinceDepositId = 0, lqAckThroughDepositId = 0, lqLimit = 0, lqVerifiedPub = demoPub \<rparr>) 500))"
    unfolding demo_register
    by (simp_all add: CollectLinkBox_def or_else_def Let_def liveLinkBox_def boxAt_def Live_linkBox demo_row
        linkBoxTime_def collectKeyOf_def depositsAt_def depositsOf_def linkBoxDepositsAfter_def putBox_def
        putDeposits_def demoCollected_def collectTaken_def)
qed

lemma demo_subscribe:
  "claimFor demoServing (demoConn 9) 500 demoCollect (linkBox demoRow) NewRendezvousRegistry =
   (subscribed [1] [9] demoId 5000 NewRendezvousRegistry, Inr (Some 0))"
  by (simp add: claimFor_def demoCollect_def demo_front demoConn_def demo_row subscribeRendezvous_def Let_def
      NewRendezvousRegistry_def pruneRendezvous.simps endEarlier_def subscriberAt_def heldOf_def
      DefaultMaxRendezvousSubscriptionsPerConnection_def DefaultMaxSubscriptionsPerConnection_def)

lemma demo_collect:
  "\<exists>z a. RendezvousCollect demoLayer demoRendezvous demoServing (memoryLinkBoxes id) None demoClock 500
     (Some (demoConn 9)) (Some demoCollect) demoBoxes = Some (\<lparr> rwBoxes = demoCollected, rwReg = z \<rparr>, a) \<and>
     anReason a = REASON_OK"
proof -
  have live: "Handler_liveLinkBox (memoryLinkBoxes id) None (runArms id [demoRegister] NewLinkBoxStore) demoId 500 =
      Inr (linkBox demoRow)"
    unfolding demo_register
    by (simp add: live_lookup demo_lookup boxAt_def Live_linkBox demo_row linkBoxTime_def)
  obtain boxes answer where wrote: "CollectLinkBox None (runArms id [demoRegister] NewLinkBoxStore)
      (Some \<lparr> lqRendezvousId = demoId, lqSinceDepositId = 0, lqAckThroughDepositId = 0, lqLimit = 0,
         lqVerifiedPub = demoPub \<rparr>) 500 = (boxes, answer)" by fastforce
  then have "boxes = demoCollected" "collectTaken answer" using demo_collect_write [of id] by simp_all
  moreover from this(2) obtain collected where "answer = Inr collected" "lcReason collected = REASON_OK"
    by (auto simp: collectTaken_def split: sum.splits)
  ultimately show ?thesis
    using wrote live demo_subscribe
    by (simp add: RendezvousCollect_def behindFront_def demo_op demo_front onLiveBox_def demo_widths demoBoxes_def
        demoCollect_def demoRendezvous_def demoConn_def collectBox_def demo_row answered_def Let_def
        del: runArms_simps)
qed



theorem box_acts_need_key_witness:
  "\<exists>w' a row. RendezvousCollect demoLayer demoRendezvous demoServing (memoryLinkBoxes id) None demoClock 500
     (Some (demoConn 9)) (Some demoCollect) demoBoxes = Some (w', a) \<and> anReason a = REASON_OK \<and>
     boxAt (rwBoxes demoBoxes) demoId = Some row \<and> Live (linkBox row) 500"
proof -
  obtain w' a where "RendezvousCollect demoLayer demoRendezvous demoServing (memoryLinkBoxes id) None demoClock 500
     (Some (demoConn 9)) (Some demoCollect) demoBoxes = Some (w', a)" "anReason a = REASON_OK"
    using demo_collect by blast
  then show ?thesis
    using box_acts_need_key [of demoLayer demoRendezvous demoServing id None demoClock 500 "demoConn 9" _ demoBoxes _
        demoCollect] by (fastforce simp: demoCollect_def)
qed

theorem strangers_see_one_box_witness:
  "\<exists>a. \<forall>w. RendezvousCollect demoLayer demoRendezvous demoServing (memoryLinkBoxes id) None demoClock 500
     (Some (demoConn 8)) (Some demoCollect) w = Some (w, a)"
  using strangers_see_one_box [of demoRendezvous "demoConn 8" "\<lparr> oqRendezvousId = demoId, oqOpenAuth = [] \<rparr>" demoPut
      demoCollect "\<lparr> tqRendezvousId = demoId, tqRetireAuth = [] \<rparr>"
      demoLayer demoServing id None demoClock 500]
  by (simp add: demoRendezvous_def demoConn_def)


end
