(* ===== verification/Peer_Dispatch.thy ===== *)
theory Peer_Dispatch
  imports Api_Read Rendezvous_Api
begin

text \<open>
  The frame binding (\<open>src/peer/peer.go\<close>): building a peer, decoding a frame, the dispatch of a
  request to its handler, the size bound and the sending of a response, and the push path.

  The handler is \<open>api.Handler\<close>, the interface's one implementation; its front checks are the peer's
  own \<open>Checks\<close>, which read the connection registry and what the context says of the request
  (\<open>inbound\<close>). Request and response bodies are the arms of the two oneofs; \<open>OtherBody\<close> is an arm the
  descriptor has and this build serves with nothing. The generated protobuf code is the parameter
  record \<open>Wire\<close>. A nil dereference of a handler is \<open>None\<close>.

  Workers run in parallel, so \<open>answer\<close> is in two steps, with other workers' steps between them:
  \<open>admit\<close>, everything up to the lookup of the connection, and \<open>serve\<close>, from the handler on.
\<close>

section \<open>Requests and responses\<close>

datatype RequestBody =
    HelloBody "u32 list"
  | CreateGroupBody pCreateGroupRequest
  | SubmitBody pSubmitRequest
  | FetchBody pFetchRequest
  | SubscribeBody pSubscribeRequest
  | UnsubscribeBody pUnsubscribeRequest
  | RegisterBody pRegisterRequest
  | OpenBody pOpenRequest
  | DepositBody pDepositRequest
  | CollectBody pCollectRequest
  | RetireBody pRetireRequest
  | OtherBody nat

record pRequest =
  rqRequestId :: u64
  rqProtocolVersion :: u32
  rqBody :: "RequestBody option"

record 'x Capabilities =
  cpMaxRequestBytes :: nat
  cpMaxResponseBytes :: nat
  cpRest :: 'x

datatype 'x ResponseBody =
    HelloAnswer "'x Capabilities HelloResponse"
  | CreateGroupAnswer pCreateGroupResponse
  | SubmitAnswer "pSubmitResult list"
  | FetchAnswer pFetchResponse
  | SubscribeAnswer "pSubscriptionAck list"
  | RegisterAnswer pRegisterResponse
  | OpenAnswer pOpenResponse
  | DepositAnswer pDepositResponse
  | CollectAnswer pCollectResponse
  | RetireAnswer pRetireResponse

record 'x pResponse =
  rsRequestId :: u64
  rsReason :: reason
  rsBody :: "'x ResponseBody option"

text \<open>
  The protobuf code: the decoders, the encoders, the encoded size, and whether the type of a body is
  an arm of the response's oneof.
\<close>

record 'x Wire =
  wrUnmarshalRequest :: "bytes \<Rightarrow> pRequest option"
  wrUnmarshalFragment :: "bytes \<Rightarrow> Fragment option"
  wrMarshalResponse :: "'x pResponse \<Rightarrow> bytes option"
  wrMarshalFragment :: "Fragment \<Rightarrow> bytes option"
  wrSize :: "'x pResponse \<Rightarrow> nat"
  wrResponseArm :: "'x ResponseBody \<Rightarrow> bool"

section \<open>Building a peer\<close>

definition DefaultMaxRequestBytes :: nat where "DefaultMaxRequestBytes = 131072"
definition DefaultMaxResponseBytes :: nat where "DefaultMaxResponseBytes = 1048576"
definition DefaultReassembliesPerClient :: int where "DefaultReassembliesPerClient = 16"
definition DefaultReassemblyIdle :: duration where "DefaultReassemblyIdle = 30 * 1000000000"
definition DefaultMaxReassemblies :: int where "DefaultMaxReassemblies = 1024"
definition DefaultMaxDeferredAnswers :: int where "DefaultMaxDeferredAnswers = 1024"
definition DefaultMaxDeferredBytes :: int where "DefaultMaxDeferredBytes = 8 * 2 ^ 20"
definition DefaultSendTimeout :: duration where "DefaultSendTimeout = 30 * 1000000000"

datatype peer_error =
    ErrNoClient
  | ErrNoHandler
  | ErrNoConnections
  | ErrNoChecks
  | ErrCheckedElsewhere
  | ErrNoCapabilities
  | ErrNoRequestBytes
  | ErrCapMismatch

text \<open>
  A pointer to a registry is a number. \<open>kfClient\<close> and \<open>kfHandler\<close> say whether there is a client and
  a handler.
\<close>

record Checks =
  xkConnections :: nat
  xkMaxRequestBytes :: int

definition NewChecks :: "nat option \<Rightarrow> int \<Rightarrow> peer_error + Checks" where
  "NewChecks connections maxRequestBytes =
     (case connections of
        None \<Rightarrow> Inl ErrNoConnections
      | Some c \<Rightarrow>
         (if maxRequestBytes \<le> 0 then Inl ErrNoRequestBytes
          else Inr \<lparr> xkConnections = c, xkMaxRequestBytes = maxRequestBytes \<rparr>))"

record 'x PeerConfig =
  kfClient :: bool
  kfHandler :: bool
  kfConnections :: "nat option"
  kfChecks :: "Checks option"
  kfCapabilities :: "'x Capabilities option"
  kfServerId :: bytes
  kfProtocolVersion :: u32
  kfFragmentPartBytes :: int
  kfWorkers :: int
  kfQueueDepth :: int
  kfMaxDeferredAnswers :: int
  kfMaxDeferredBytes :: int
  kfReassemblyIdle :: duration
  kfReassembliesPerClient :: int
  kfMaxReassemblies :: int
  kfSendTimeout :: duration

record 'x Peer =
  prCapabilities :: "'x Capabilities"
  prServerId :: bytes
  prProtocolVersion :: u32
  prMaxRequestBytes :: int
  prMaxResponseBytes :: int
  prFragmentPartBytes :: int
  prSendTimeout :: duration
  prReassembly :: reassembly
  prSweepPeriod :: duration
  prWorkers :: int
  prQueueDepth :: int
  prMaxDeferred :: int
  prMaxDeferredBytes :: int

definition sweepPeriod :: "duration \<Rightarrow> duration" where
  "sweepPeriod idle = max (idle div 2) 1000000"

definition positiveOr :: "int \<Rightarrow> int \<Rightarrow> int" where
  "positiveOr given default_value = (if given \<le> 0 then default_value else given)"

definition advertised :: "'x Capabilities \<Rightarrow> 'x Capabilities" where
  "advertised given =
     (let c1 = (if cpMaxRequestBytes given = 0 then given\<lparr>cpMaxRequestBytes := DefaultMaxRequestBytes\<rparr> else given)
      in if cpMaxResponseBytes c1 = 0 then c1\<lparr>cpMaxResponseBytes := DefaultMaxResponseBytes\<rparr> else c1)"

definition newPeer :: "'x PeerConfig \<Rightarrow> peer_error + 'x Peer" where
  "newPeer config =
     (if \<not> kfClient config then Inl ErrNoClient
      else if \<not> kfHandler config then Inl ErrNoHandler
      else case (kfConnections config, kfChecks config, kfCapabilities config) of
          (None, _, _) \<Rightarrow> Inl ErrNoConnections
        | (Some _, None, _) \<Rightarrow> Inl ErrNoChecks
        | (Some connections, Some checks, given) \<Rightarrow>
           (if xkConnections checks \<noteq> connections then Inl ErrCheckedElsewhere
            else case given of
                None \<Rightarrow> Inl ErrNoCapabilities
              | Some caps \<Rightarrow>
                 (let capabilities = advertised caps;
                      idle = positiveOr (kfReassemblyIdle config) DefaultReassemblyIdle
                  in if int (cpMaxRequestBytes capabilities) \<noteq> xkMaxRequestBytes checks then Inl ErrCapMismatch
                     else Inr
                       \<lparr> prCapabilities = capabilities, prServerId = kfServerId config,
                         prProtocolVersion = kfProtocolVersion config,
                         prMaxRequestBytes = int (cpMaxRequestBytes capabilities),
                         prMaxResponseBytes = int (cpMaxResponseBytes capabilities),
                         prFragmentPartBytes = partSize (kfFragmentPartBytes config),
                         prSendTimeout = positiveOr (kfSendTimeout config) DefaultSendTimeout,
                         prReassembly = newReassembly (int (cpMaxRequestBytes capabilities))
                           (positiveOr (kfReassembliesPerClient config) DefaultReassembliesPerClient)
                           (positiveOr (kfMaxReassemblies config) DefaultMaxReassemblies) idle,
                         prSweepPeriod = sweepPeriod idle,
                         prWorkers = positiveOr (kfWorkers config) 8,
                         prQueueDepth = positiveOr (kfQueueDepth config) 64,
                         prMaxDeferred = positiveOr (kfMaxDeferredAnswers config) DefaultMaxDeferredAnswers,
                         prMaxDeferredBytes = positiveOr (kfMaxDeferredBytes config) DefaultMaxDeferredBytes \<rparr>)))"

section \<open>Decoding a frame\<close>

datatype frameKind = RequestFrame | FragmentFrame | OtherFrame

record Frame =
  fmType :: frameKind
  fmRaw :: bool
  fmBytes :: bytes

definition decodeRequest :: "'x Wire \<Rightarrow> clientId \<Rightarrow> Frame \<Rightarrow> (inbound \<times> pRequest) option" where
  "decodeRequest W clientId frame =
     (if fmRaw frame then None
      else case wrUnmarshalRequest W (fmBytes frame) of
          None \<Rightarrow> None
        | Some request \<Rightarrow>
            Some (\<lparr> ibClientId = clientId, ibConnection = None, ibBytes = int (length (fmBytes frame)) \<rparr>, request))"

definition decodeFragment :: "'x Wire \<Rightarrow> Frame \<Rightarrow> Fragment option" where
  "decodeFragment W frame = (if fmRaw frame then None else wrUnmarshalFragment W (fmBytes frame))"

section \<open>The dispatch\<close>

text \<open>What the handlers read and change: the registry of connections and the two worlds of \<open>api\<close>.\<close>

record ('s, 'b) Server =
  svConns :: Connections
  svWorld :: "'s World"
  svRendezvous :: "'b RWorld"

text \<open>
  The readings one request makes: the clock at the front check, the handler's own clocks, the three
  of Hello, and what the random source has to give.
\<close>

record Readings =
  rdChecked :: time
  rdClock :: Clock
  rdNow :: time
  rdSwept :: time
  rdOpened :: time
  rdAnswered :: time
  rdRandom :: bytes

definition served :: "'s Handler \<Rightarrow> RequestBody \<Rightarrow> bool" where
  "served h body =
     (case body of
        HelloBody _ \<Rightarrow> True | CreateGroupBody _ \<Rightarrow> True | SubmitBody _ \<Rightarrow> True | FetchBody _ \<Rightarrow> True
      | SubscribeBody _ \<Rightarrow> True | UnsubscribeBody _ \<Rightarrow> True
      | RegisterBody _ \<Rightarrow> RendezvousServed h | OpenBody _ \<Rightarrow> RendezvousServed h
      | DepositBody _ \<Rightarrow> RendezvousServed h | CollectBody _ \<Rightarrow> RendezvousServed h
      | RetireBody _ \<Rightarrow> RendezvousServed h
      | OtherBody _ \<Rightarrow> False)"

definition pipeline :: "RequestBody \<Rightarrow> bool" where
  "pipeline body = (case body of HelloBody _ \<Rightarrow> False | _ \<Rightarrow> True)"

definition refusalOf :: "pRequest \<Rightarrow> reason \<Rightarrow> 'x pResponse" where
  "refusalOf request reason = \<lparr> rsRequestId = rqRequestId request, rsReason = reason, rsBody = None \<rparr>"

text \<open>
  Up to the lookup: the refusal, or the inbound, with its connection, and the body to serve.
  \<open>now\<close> is the clock at the lookup.
\<close>

definition admit ::
  "'x Peer \<Rightarrow> 's Handler \<Rightarrow> time \<Rightarrow> inbound \<Rightarrow> pRequest \<Rightarrow> Connections \<Rightarrow>
   Connections \<times> (reason + inbound \<times> RequestBody)" where
  "admit p h now arrived request conns =
     (case rqBody request of
        None \<Rightarrow> (conns, Inl REASON_REJECTED)
      | Some body \<Rightarrow>
         (if \<not> served h body then (conns, Inl REASON_INTERNAL)
          else if \<not> pipeline body
          then (conns, if withinLimits (ibBytes arrived) (prMaxRequestBytes p) \<noteq> REASON_OK
                       then Inl (withinLimits (ibBytes arrived) (prMaxRequestBytes p))
                       else Inr (arrived, body))
          else if rqProtocolVersion request \<noteq> 0 \<and> rqProtocolVersion request \<noteq> prProtocolVersion p
          then (conns, Inl REASON_UNSUPPORTED_VERSION)
          else case Lookup conns (ibClientId arrived) now of
              (conns', None) \<Rightarrow> (conns', Inl REASON_REJECTED)
            | (conns', Some connection) \<Rightarrow> (conns', Inr (arrived\<lparr>ibConnection := Some connection\<rparr>, body))))"

text \<open>The peer's checks: the two of its own and the rest as \<open>ChecksNotImplemented\<close> has them.\<close>

definition peerChecks :: "'x Peer \<Rightarrow> Connections \<Rightarrow> inbound \<Rightarrow> time \<Rightarrow> FrontChecks" where
  "peerChecks p conns arrived now =
     ChecksNotImplemented
       \<lparr> fcFrameWithinLimits := \<lambda>_. FrameWithinLimits (prMaxRequestBytes p) (Some arrived),
         fcConnectionAuthenticated := \<lambda>conn. ConnectionAuthenticated conns (Some arrived) (Some conn) now \<rparr>"

text \<open>
  What a route's \<open>run\<close> returns, with the state after it: the reason, the body, whether there was an
  error, and what the handler left in the deferral.
\<close>

record 'x ran =
  rnReason :: reason
  rnBody :: "'x ResponseBody option"
  rnFailed :: bool
  rnDeferral :: "duration option"

definition ranOf :: "('r \<Rightarrow> 'x ResponseBody) \<Rightarrow> 'r Answer \<Rightarrow> 'x ran" where
  "ranOf wrap a = \<lparr> rnReason = anReason a, rnBody = map_option wrap (anBody a),
                     rnFailed = (anErr a \<noteq> None), rnDeferral = anPad a \<rparr>"

definition onWorld ::
  "('s, 'b) Server \<Rightarrow> ('r \<Rightarrow> 'x ResponseBody) \<Rightarrow> ('s World \<times> 'r Answer) option \<Rightarrow> (('s, 'b) Server \<times> 'x ran) option" where
  "onWorld sv wrap result = map_option (\<lambda>(w, a). (sv\<lparr>svWorld := w\<rparr>, ranOf wrap a)) result"

definition onRendezvous ::
  "('s, 'b) Server \<Rightarrow> ('r \<Rightarrow> 'x ResponseBody) \<Rightarrow> ('b RWorld \<times> 'r Answer) option \<Rightarrow> (('s, 'b) Server \<times> 'x ran) option" where
  "onRendezvous sv wrap result = map_option (\<lambda>(w, a). (sv\<lparr>svRendezvous := w\<rparr>, ranOf wrap a)) result"

definition runRoute ::
  "RecordLayer \<Rightarrow> RendezvousLayer \<Rightarrow> 'x Peer \<Rightarrow> 's Handler \<Rightarrow> 'b LinkBoxes \<Rightarrow> ctx \<Rightarrow> Readings \<Rightarrow> inbound \<Rightarrow>
   RequestBody \<Rightarrow> ('s, 'b) Server \<Rightarrow> (('s, 'b) Server \<times> 'x ran) option" where
  "runRoute L R p h0 ops ctx rd arrived body sv =
     (let h = h0\<lparr>hFront := peerChecks p (svConns sv) arrived (rdChecked rd)\<rparr>;
          ck = rdClock rd;
          conn = map_option (toApiConnection (svConns sv)) (ibConnection arrived)
      in case body of
          HelloBody versions \<Rightarrow>
            (case hello \<lparr> hcProtocolVersion = prProtocolVersion p, hcServerId = prServerId p,
                          hcCapabilities = prCapabilities p \<rparr> (svConns sv) arrived versions
                        (rdRandom rd) (rdSwept rd) (rdOpened rd) (rdAnswered rd) of
               (conns, _, reason, greeting) \<Rightarrow>
                 Some (sv\<lparr>svConns := conns\<rparr>,
                       \<lparr> rnReason = reason, rnBody = map_option HelloAnswer greeting,
                         rnFailed = False, rnDeferral = None \<rparr>))
        | CreateGroupBody q \<Rightarrow> onWorld sv CreateGroupAnswer (Handler_CreateGroup L h ctx ck conn (Some q) (svWorld sv))
        | SubmitBody q \<Rightarrow> onWorld sv SubmitAnswer (Handler_Submit L h ctx ck conn (Some q) (svWorld sv))
        | FetchBody q \<Rightarrow> onWorld sv FetchAnswer (Handler_Fetch L h ctx ck conn (Some q) (svWorld sv))
        | SubscribeBody q \<Rightarrow> onWorld sv SubscribeAnswer (Handler_Subscribe L h ctx ck conn (Some q) (svWorld sv))
        | UnsubscribeBody q \<Rightarrow>
            (case Handler_Unsubscribe L h conn (Some q) (svWorld sv) of
               (w, reason, err) \<Rightarrow>
                 Some (sv\<lparr>svWorld := w\<rparr>,
                       \<lparr> rnReason = reason, rnBody = None, rnFailed = (err \<noteq> None), rnDeferral = None \<rparr>))
        | RegisterBody q \<Rightarrow>
            onRendezvous sv RegisterAnswer (RendezvousRegister L R h ops ctx ck (rdNow rd) conn (Some q) (svRendezvous sv))
        | OpenBody q \<Rightarrow>
            onRendezvous sv OpenAnswer (RendezvousOpen L R h ops ctx ck (rdNow rd) conn (Some q) (svRendezvous sv))
        | DepositBody q \<Rightarrow>
            onRendezvous sv DepositAnswer (RendezvousDeposit L R h ops ctx ck (rdNow rd) conn (Some q) (svRendezvous sv))
        | CollectBody q \<Rightarrow>
            onRendezvous sv CollectAnswer (RendezvousCollect L R h ops ctx ck (rdNow rd) conn (Some q) (svRendezvous sv))
        | RetireBody q \<Rightarrow>
            onRendezvous sv RetireAnswer (RendezvousRetire L R h ops ctx ck (rdNow rd) conn (Some q) (svRendezvous sv))
        | OtherBody _ \<Rightarrow> None)"

definition setResponseBody ::
  "'x Wire \<Rightarrow> 'x pResponse \<Rightarrow> 'x ResponseBody option \<Rightarrow> 'x pResponse option" where
  "setResponseBody W response body =
     (case body of
        None \<Rightarrow> Some response
      | Some b \<Rightarrow> if wrResponseArm W b then Some (response\<lparr>rsBody := Some b\<rparr>) else None)"

definition envelope :: "'x Wire \<Rightarrow> pRequest \<Rightarrow> 'x ran \<Rightarrow> 'x pResponse" where
  "envelope W request r =
     (if rnFailed r then refusalOf request REASON_INTERNAL
      else case setResponseBody W (refusalOf request (rnReason r)) (rnBody r) of
          None \<Rightarrow> refusalOf request REASON_INTERNAL
        | Some response \<Rightarrow> response)"

text \<open>From the handler on: the response, and the wait of a padded refusal.\<close>

definition serve ::
  "'x Wire \<Rightarrow> RecordLayer \<Rightarrow> RendezvousLayer \<Rightarrow> 'x Peer \<Rightarrow> 's Handler \<Rightarrow> 'b LinkBoxes \<Rightarrow> ctx \<Rightarrow> Readings \<Rightarrow>
   inbound \<Rightarrow> pRequest \<Rightarrow> RequestBody \<Rightarrow> ('s, 'b) Server \<Rightarrow> (('s, 'b) Server \<times> 'x pResponse \<times> duration option) option" where
  "serve W L R p h ops ctx rd arrived request body sv =
     map_option (\<lambda>(sv', r). (sv', envelope W request r, rnDeferral r))
       (runRoute L R p h ops ctx rd arrived body sv)"

section \<open>Sending\<close>

definition bounded :: "'x Wire \<Rightarrow> 'x Peer \<Rightarrow> 'x pResponse \<Rightarrow> 'x pResponse" where
  "bounded W p response =
     (if prMaxResponseBytes p < int (wrSize W response)
      then \<lparr> rsRequestId = rsRequestId response, rsReason = REASON_OVERSIZE, rsBody = None \<rparr>
      else response)"

record stats =
  saFramesReceived :: u64
  saFramesDropped :: u64
  saRequestsServed :: u64
  saResponsesSent :: u64
  saResponsesFailed :: u64
  saRefusalsDropped :: u64
  saPushesSent :: u64
  saPushesRefused :: u64
  saAnswersDeferred :: u64

definition noStats :: stats where
  "noStats = \<lparr> saFramesReceived = 0, saFramesDropped = 0, saRequestsServed = 0, saResponsesSent = 0,
     saResponsesFailed = 0, saRefusalsDropped = 0, saPushesSent = 0, saPushesRefused = 0,
     saAnswersDeferred = 0 \<rparr>"

text \<open>
  \<open>taken index\<close> says whether the transport takes the frame at that index. The loop stops at the first
  it does not; what it leaves behind is the frames that went out.
\<close>

fun sendLoop :: "(nat \<Rightarrow> bool) \<Rightarrow> nat \<Rightarrow> (FrameType \<times> bytes) list \<Rightarrow> stats \<Rightarrow> (FrameType \<times> bytes) list \<times> stats" where
  "sendLoop taken index [] st = ([], st)"
| "sendLoop taken index (frame # frames) st =
     (if \<not> taken index then ([], st\<lparr>saResponsesFailed := saResponsesFailed st + 1\<rparr>)
      else case sendLoop taken (Suc index) frames (st\<lparr>saResponsesSent := saResponsesSent st + 1\<rparr>) of
          (out, st') \<Rightarrow> (frame # out, st'))"

definition send ::
  "'x Wire \<Rightarrow> 'x Peer \<Rightarrow> (nat \<Rightarrow> bool) \<Rightarrow> 'x pResponse \<Rightarrow> stats \<Rightarrow> (FrameType \<times> bytes) list \<times> stats" where
  "send W p taken response0 st =
     (let response = bounded W p response0
      in case responseFrames (wrMarshalFragment W) (rsRequestId response) (wrMarshalResponse W response)
                (prFragmentPartBytes p) of
           None \<Rightarrow> ([], st\<lparr>saResponsesFailed := saResponsesFailed st + 1\<rparr>)
         | Some frames \<Rightarrow> sendLoop taken 0 frames st)"

definition acked :: "bool \<Rightarrow> stats \<Rightarrow> stats" where
  "acked err st = (if err then st\<lparr>saResponsesFailed := saResponsesFailed st + 1\<rparr> else st)"

section \<open>Pushing\<close>

text \<open>
  \<open>idFromBytes\<close> is \<open>connect.IdFromBytes\<close>, \<open>None\<close> its error; \<open>marshalled\<close> the encoded push; \<open>taken\<close>
  whether the transport takes the frame.
\<close>

definition Push ::
  "(bytes \<Rightarrow> clientId option) \<Rightarrow> Connections \<Rightarrow> bytes \<Rightarrow> bytes \<Rightarrow> time \<Rightarrow> bytes option \<Rightarrow> bool \<Rightarrow> stats \<Rightarrow>
   bytes option \<times> bool \<times> stats" where
  "Push idFromBytes conns clientId serverNonce now marshalled taken st =
     (let refused = (None, False, st\<lparr>saPushesRefused := saPushesRefused st + 1\<rparr>)
      in case idFromBytes clientId of
           None \<Rightarrow> refused
         | Some client \<Rightarrow>
            (case Peek conns client now of
               None \<Rightarrow> refused
             | Some current \<Rightarrow>
                (if \<not> Holds conns current serverNonce then refused
                 else case marshalled of
                     None \<Rightarrow> refused
                   | Some body \<Rightarrow>
                      (if \<not> taken then refused
                       else (Some body, True, st\<lparr>saPushesSent := saPushesSent st + 1\<rparr>)))))"

end
