(* ===== verification/Peer_Queues.thy ===== *)
theory Peer_Queues
  imports Peer_Dispatch "HOL-Library.Multiset"
begin

text \<open>
  The peer's goroutines (\<open>src/peer/peer.go\<close>): the receive callback, the workers, the answers waiting
  out their floor, the one sender of refusals, the sweep of the reassembly, and \<open>Close\<close>. A step is
  what one goroutine does between two points at which it can block, and \<open>None\<close> is a step that cannot
  be made: a blocked one, or, of \<open>Serve\<close>, a handler that panics.

  A request moves from \<open>qsJobs\<close> to a worker (\<open>qsWorking\<close>, its handler not yet run), and its answer
  is sent, or the worker holds it until there is a slot (\<open>qsParked\<close>) and then until there is room for
  its bytes (\<open>qsSlotted\<close>), after which it waits on its timer and the worker is free (\<open>qsWaiting\<close>).
  \<open>deferredBytes\<close> is \<open>semaphore.Weighted\<close> of \<open>golang.org/x/sync\<close>: what is acquired never
  exceeds its size. In which order it admits waiters is left open, as is which worker goes next.

  \<open>qsArrived\<close>, \<open>qsAnswered\<close> and \<open>qsOut\<close> are observations: the requests the queue took, the answers
  handed to \<open>send\<close> with the time, and the frames the transport took. An answer carries when its
  handler started (\<open>ogStarted\<close>), again as an observation. \<open>qsNow\<close> is the process's clock, which does
  not go back. A send is one step; how long it blocks is not modelled.
\<close>

section \<open>The state\<close>

record 'x outgoing =
  ogClient :: clientId
  ogResponse :: "'x pResponse"
  ogWait :: "duration option"
  ogStarted :: time

record ('s, 'b, 'x) PeerState =
  qsServer :: "('s, 'b) Server"
  qsReassembly :: reassembly
  qsJobs :: "(inbound \<times> pRequest) list"
  qsWorking :: "(inbound \<times> pRequest \<times> RequestBody) list"
  qsParked :: "'x outgoing list"
  qsSlotted :: "'x outgoing list"
  qsWaiting :: "('x outgoing \<times> int \<times> time) list"
  qsRefusals :: "(clientId \<times> 'x pResponse) list"
  qsClosed :: bool
  qsNow :: time
  qsStats :: stats
  qsArrived :: "(clientId \<times> u64) list"
  qsAnswered :: "('x outgoing \<times> time) list"
  qsOut :: "(clientId \<times> FrameType \<times> bytes) list"

definition startPeer :: "'x Peer \<Rightarrow> ('s, 'b) Server \<Rightarrow> time \<Rightarrow> ('s, 'b, 'x) PeerState" where
  "startPeer p sv now =
     \<lparr> qsServer = sv, qsReassembly = prReassembly p, qsJobs = [], qsWorking = [], qsParked = [],
       qsSlotted = [], qsWaiting = [], qsRefusals = [], qsClosed = False, qsNow = now, qsStats = noStats,
       qsArrived = [], qsAnswered = [], qsOut = [] \<rparr>"

text \<open>What the deployment fixes: the protobuf code, the two cryptographic layers, the peer and the handler.\<close>

record ('s, 'b, 'x) Deployment =
  dyWire :: "'x Wire"
  dyRecords :: RecordLayer
  dyRendezvous :: RendezvousLayer
  dyPeer :: "'x Peer"
  dyHandler :: "'s Handler"
  dyBoxes :: "'b LinkBoxes"

definition remove_at :: "nat \<Rightarrow> 'a list \<Rightarrow> 'a list" where
  "remove_at i xs = take i xs @ drop (Suc i) xs"

definition tick :: "time \<Rightarrow> ('s, 'b, 'x) PeerState \<Rightarrow> ('s, 'b, 'x) PeerState option" where
  "tick now st = (if qsNow st \<le> now then Some (st\<lparr>qsNow := now\<rparr>) else None)"

section \<open>The receive callback\<close>

definition countFrame :: "('s, 'b, 'x) PeerState \<Rightarrow> ('s, 'b, 'x) PeerState" where
  "countFrame st = st\<lparr>qsStats := (qsStats st)\<lparr>saFramesReceived := saFramesReceived (qsStats st) + 1\<rparr>\<rparr>"

definition dropFrame :: "('s, 'b, 'x) PeerState \<Rightarrow> ('s, 'b, 'x) PeerState" where
  "dropFrame st = st\<lparr>qsStats := (qsStats st)\<lparr>saFramesDropped := saFramesDropped (qsStats st) + 1\<rparr>\<rparr>"

text \<open>The queue takes the job, or the callback blocks until it does; closing the peer releases it.\<close>

definition enqueue ::
  "'x Peer \<Rightarrow> inbound \<times> pRequest \<Rightarrow> ('s, 'b, 'x) PeerState \<Rightarrow> ('s, 'b, 'x) PeerState option" where
  "enqueue p job st =
     (if int (length (qsJobs st)) < prQueueDepth p
      then Some (st\<lparr>qsJobs := qsJobs st @ [job],
                    qsArrived := qsArrived st @ [(ibClientId (fst job), rqRequestId (snd job))]\<rparr>)
      else if qsClosed st then Some st
      else None)"

definition Peer_refuse ::
  "'x Peer \<Rightarrow> clientId \<Rightarrow> u64 \<Rightarrow> reason \<Rightarrow> ('s, 'b, 'x) PeerState \<Rightarrow> ('s, 'b, 'x) PeerState" where
  "Peer_refuse p clientId requestId reason st =
     (if int (length (qsRefusals st)) < prQueueDepth p
      then st\<lparr>qsRefusals := qsRefusals st @
               [(clientId, \<lparr> rsRequestId = requestId, rsReason = reason, rsBody = None \<rparr>)]\<rparr>
      else st\<lparr>qsStats := (qsStats st)\<lparr>saRefusalsDropped := saRefusalsDropped (qsStats st) + 1\<rparr>\<rparr>)"

definition Peer_arrived ::
  "('s, 'b, 'x) Deployment \<Rightarrow> clientId \<Rightarrow> Frame \<Rightarrow> ('s, 'b, 'x) PeerState \<Rightarrow> ('s, 'b, 'x) PeerState option" where
  "Peer_arrived d clientId frame st =
     (case decodeRequest (dyWire d) clientId frame of
        None \<Rightarrow> Some (dropFrame st)
      | Some job \<Rightarrow> enqueue (dyPeer d) job st)"

definition arrivedFragment ::
  "('s, 'b, 'x) Deployment \<Rightarrow> clientId \<Rightarrow> Frame \<Rightarrow> time \<Rightarrow> time \<Rightarrow> ('s, 'b, 'x) PeerState \<Rightarrow>
   ('s, 'b, 'x) PeerState option" where
  "arrivedFragment d clientId frame now1 now2 st =
     (case decodeFragment (dyWire d) frame of
        None \<Rightarrow> Some (dropFrame st)
      | Some fragment \<Rightarrow>
         (case accept (qsReassembly st) clientId fragment now1 now2 of
            (r, assembled, complete, reason) \<Rightarrow>
              (let st1 = st\<lparr>qsReassembly := r\<rparr>
               in if reason \<noteq> REASON_OK then Some (Peer_refuse (dyPeer d) clientId (fRequestId fragment) reason st1)
                  else if \<not> complete then Some st1
                  else case wrUnmarshalRequest (dyWire d) assembled of
                      None \<Rightarrow> Some (Peer_refuse (dyPeer d) clientId (fRequestId fragment) REASON_REJECTED st1)
                    | Some request \<Rightarrow>
                        enqueue (dyPeer d)
                          (\<lparr> ibClientId = clientId, ibConnection = None, ibBytes = int (length assembled) \<rparr>, request)
                          st1)))"

definition receive ::
  "('s, 'b, 'x) Deployment \<Rightarrow> clientId \<Rightarrow> Frame \<Rightarrow> time \<Rightarrow> time \<Rightarrow> ('s, 'b, 'x) PeerState \<Rightarrow>
   ('s, 'b, 'x) PeerState option" where
  "receive d clientId frame now1 now2 st =
     (case fmType frame of
        RequestFrame \<Rightarrow> Peer_arrived d clientId frame (countFrame st)
      | FragmentFrame \<Rightarrow> arrivedFragment d clientId frame now1 now2 (countFrame st)
      | OtherFrame \<Rightarrow> Some st)"

section \<open>Sending\<close>

definition sendTo ::
  "('s, 'b, 'x) Deployment \<Rightarrow> (nat \<Rightarrow> bool) \<Rightarrow> clientId \<Rightarrow> 'x pResponse \<Rightarrow> ('s, 'b, 'x) PeerState \<Rightarrow>
   ('s, 'b, 'x) PeerState" where
  "sendTo d taken clientId response st =
     (case send (dyWire d) (dyPeer d) taken response (qsStats st) of
        (frames, stats) \<Rightarrow> st\<lparr>qsStats := stats, qsOut := qsOut st @ map (Pair clientId) frames\<rparr>)"

definition sendAnswer ::
  "('s, 'b, 'x) Deployment \<Rightarrow> (nat \<Rightarrow> bool) \<Rightarrow> 'x outgoing \<Rightarrow> ('s, 'b, 'x) PeerState \<Rightarrow> ('s, 'b, 'x) PeerState" where
  "sendAnswer d taken a st =
     sendTo d taken (ogClient a) (ogResponse a) (st\<lparr>qsAnswered := qsAnswered st @ [(a, qsNow st)]\<rparr>)"

section \<open>The workers\<close>

text \<open>A worker is busy with a handler, or held by an answer that has no room yet.\<close>

definition busy :: "('s, 'b, 'x) PeerState \<Rightarrow> nat" where
  "busy st = length (qsWorking st) + length (qsParked st) + length (qsSlotted st)"

text \<open>A free worker takes the next job, and what \<open>admit\<close> refuses is answered at once.\<close>

definition workTake ::
  "('s, 'b, 'x) Deployment \<Rightarrow> time \<Rightarrow> (nat \<Rightarrow> bool) \<Rightarrow> ('s, 'b, 'x) PeerState \<Rightarrow> ('s, 'b, 'x) PeerState option" where
  "workTake d now taken st =
     (case qsJobs st of
        [] \<Rightarrow> None
      | (a, request) # rest \<Rightarrow>
         (if \<not> int (busy st) < prWorkers (dyPeer d) then None
          else case admit (dyPeer d) (dyHandler d) now a request (svConns (qsServer st)) of
              (conns, outcome) \<Rightarrow>
                (let st1 = st\<lparr>qsJobs := rest, qsServer := (qsServer st)\<lparr>svConns := conns\<rparr>,
                              qsStats := (qsStats st)\<lparr>saRequestsServed := saRequestsServed (qsStats st) + 1\<rparr>\<rparr>
                 in case outcome of
                      Inl reason \<Rightarrow>
                        Some (sendAnswer d taken
                          \<lparr> ogClient = ibClientId a, ogResponse = refusalOf request reason,
                            ogWait = None, ogStarted = qsNow st \<rparr> st1)
                    | Inr (a', body) \<Rightarrow> Some (st1\<lparr>qsWorking := qsWorking st @ [(a', request, body)]\<rparr>))))"

definition deferred :: "duration option \<Rightarrow> bool" where
  "deferred wait = (case wait of None \<Rightarrow> False | Some w \<Rightarrow> 0 < w)"

text \<open>The handler runs, and its answer is sent or, if its floor asks for more time, held.\<close>

definition workServe ::
  "('s, 'b, 'x) Deployment \<Rightarrow> ctx \<Rightarrow> nat \<Rightarrow> Readings \<Rightarrow> (nat \<Rightarrow> bool) \<Rightarrow> ('s, 'b, 'x) PeerState \<Rightarrow>
   ('s, 'b, 'x) PeerState option" where
  "workServe d ctx i rd taken st =
     (if \<not> i < length (qsWorking st) then None
      else case qsWorking st ! i of (a, request, body) \<Rightarrow>
        (case serve (dyWire d) (dyRecords d) (dyRendezvous d) (dyPeer d) (dyHandler d) (dyBoxes d) ctx rd
                a request body (qsServer st) of
           None \<Rightarrow> None
         | Some (sv, response, wait) \<Rightarrow>
            (let st1 = st\<lparr>qsWorking := remove_at i (qsWorking st), qsServer := sv\<rparr>;
                 answer = \<lparr> ogClient = ibClientId a, ogResponse = response, ogWait = wait,
                            ogStarted = ckStarted (rdClock rd) \<rparr>
             in Some (if deferred wait then st1\<lparr>qsParked := qsParked st @ [answer]\<rparr>
                      else sendAnswer d taken answer st1))))"

section \<open>Answers waiting out their floor\<close>

definition slots :: "('s, 'b, 'x) PeerState \<Rightarrow> nat" where
  "slots st = length (qsSlotted st) + length (qsWaiting st)"

definition heldBytes :: "('s, 'b, 'x) PeerState \<Rightarrow> int" where
  "heldBytes st = sum_list (map (\<lambda>(_, held, _). held) (qsWaiting st))"

definition takeSlot ::
  "('s, 'b, 'x) Deployment \<Rightarrow> nat \<Rightarrow> ('s, 'b, 'x) PeerState \<Rightarrow> ('s, 'b, 'x) PeerState option" where
  "takeSlot d i st =
     (if i < length (qsParked st) \<and> int (slots st) < prMaxDeferred (dyPeer d)
      then (let a = qsParked st ! i
            in Some (st\<lparr>qsParked := remove_at i (qsParked st),
                        qsSlotted := qsSlotted st @
                          [a\<lparr>ogResponse := bounded (dyWire d) (dyPeer d) (ogResponse a)\<rparr>]\<rparr>))
      else None)"

definition heldBy :: "('s, 'b, 'x) Deployment \<Rightarrow> 'x outgoing \<Rightarrow> int" where
  "heldBy d a = min (int (wrSize (dyWire d) (ogResponse a))) (prMaxDeferredBytes (dyPeer d))"

definition acquireBytes ::
  "('s, 'b, 'x) Deployment \<Rightarrow> nat \<Rightarrow> ('s, 'b, 'x) PeerState \<Rightarrow> ('s, 'b, 'x) PeerState option" where
  "acquireBytes d i st =
     (if i < length (qsSlotted st) \<and>
         heldBytes st + heldBy d (qsSlotted st ! i) \<le> prMaxDeferredBytes (dyPeer d)
      then (let a = qsSlotted st ! i
            in Some (st\<lparr>qsSlotted := remove_at i (qsSlotted st),
                        qsWaiting := qsWaiting st @
                          [(a, heldBy d a, qsNow st + (case ogWait a of None \<Rightarrow> 0 | Some w \<Rightarrow> w))],
                        qsStats := (qsStats st)\<lparr>saAnswersDeferred := saAnswersDeferred (qsStats st) + 1\<rparr>\<rparr>))
      else None)"

definition fire ::
  "('s, 'b, 'x) Deployment \<Rightarrow> nat \<Rightarrow> (nat \<Rightarrow> bool) \<Rightarrow> ('s, 'b, 'x) PeerState \<Rightarrow> ('s, 'b, 'x) PeerState option" where
  "fire d i taken st =
     (if \<not> i < length (qsWaiting st) then None
      else case qsWaiting st ! i of (a, held, due) \<Rightarrow>
        (if qsNow st < due then None
         else Some (sendAnswer d taken a (st\<lparr>qsWaiting := remove_at i (qsWaiting st)\<rparr>))))"

section \<open>Refusals, the sweep and closing\<close>

definition refuseNext ::
  "('s, 'b, 'x) Deployment \<Rightarrow> (nat \<Rightarrow> bool) \<Rightarrow> ('s, 'b, 'x) PeerState \<Rightarrow> ('s, 'b, 'x) PeerState option" where
  "refuseNext d taken st =
     (case qsRefusals st of
        [] \<Rightarrow> None
      | (clientId, response) # rest \<Rightarrow> Some (sendTo d taken clientId response (st\<lparr>qsRefusals := rest\<rparr>)))"

definition sweepTick :: "time \<Rightarrow> ('s, 'b, 'x) PeerState \<Rightarrow> ('s, 'b, 'x) PeerState" where
  [simp]: "sweepTick now st = st\<lparr>qsReassembly := fst (sweepReassembly now (qsReassembly st))\<rparr>"

definition Close :: "('s, 'b, 'x) PeerState \<Rightarrow> ('s, 'b, 'x) PeerState" where
  [simp]: "Close st = st\<lparr>qsClosed := True\<rparr>"

text \<open>Once the peer is closed, an answer that is still held or still waiting is given up.\<close>

datatype heldAt = AtPark nat | AtSlot nat | AtTimer nat

definition abandon :: "heldAt \<Rightarrow> ('s, 'b, 'x) PeerState \<Rightarrow> ('s, 'b, 'x) PeerState option" where
  "abandon k st =
     (if \<not> qsClosed st then None
      else case k of
          AtPark i \<Rightarrow> if i < length (qsParked st) then Some (st\<lparr>qsParked := remove_at i (qsParked st)\<rparr>) else None
        | AtSlot i \<Rightarrow> if i < length (qsSlotted st) then Some (st\<lparr>qsSlotted := remove_at i (qsSlotted st)\<rparr>) else None
        | AtTimer i \<Rightarrow> if i < length (qsWaiting st) then Some (st\<lparr>qsWaiting := remove_at i (qsWaiting st)\<rparr>) else None)"

section \<open>Steps\<close>

datatype peerOp =
    Receive clientId Frame time time
  | WorkTake time "nat \<Rightarrow> bool"
  | WorkServe ctx nat Readings "nat \<Rightarrow> bool"
  | TakeSlot nat
  | AcquireBytes nat
  | Fire nat "nat \<Rightarrow> bool"
  | RefuseNext "nat \<Rightarrow> bool"
  | SweepTick time
  | Elapse time
  | Abandon heldAt
  | ClosePeer

text \<open>
  A handler starts no earlier than the clock stands and measures its floor no later than the clock
  then stands.
\<close>

fun peerStep ::
  "('s, 'b, 'x) Deployment \<Rightarrow> peerOp \<Rightarrow> ('s, 'b, 'x) PeerState \<Rightarrow> ('s, 'b, 'x) PeerState option" where
  "peerStep d (Receive clientId frame now1 now2) st =
     receive d clientId frame now1 now2 st"
| "peerStep d (WorkTake now taken) st = Option.bind (tick now st) (workTake d now taken)"
| "peerStep d (WorkServe ctx i rd taken) st =
     (if \<not> qsNow st \<le> ckStarted (rdClock rd) \<or> \<not> ckStarted (rdClock rd) \<le> ckPad (rdClock rd) then None
      else Option.bind (tick (ckPad (rdClock rd)) st) (workServe d ctx i rd taken))"
| "peerStep d (TakeSlot i) st = takeSlot d i st"
| "peerStep d (AcquireBytes i) st = acquireBytes d i st"
| "peerStep d (Fire i taken) st = fire d i taken st"
| "peerStep d (RefuseNext taken) st = refuseNext d taken st"
| "peerStep d (SweepTick now) st = Some (sweepTick now st)"
| "peerStep d (Elapse now) st = tick now st"
| "peerStep d (Abandon k) st = abandon k st"
| "peerStep d ClosePeer st = Some (Close st)"

fun peerRun ::
  "('s, 'b, 'x) Deployment \<Rightarrow> peerOp list \<Rightarrow> ('s, 'b, 'x) PeerState \<Rightarrow> ('s, 'b, 'x) PeerState option" where
  "peerRun d [] st = Some st"
| "peerRun d (x # xs) st = Option.bind (peerStep d x st) (peerRun d xs)"

end
