(* ===== verification/Peer_Invariant.thy ===== *)
theory Peer_Invariant
  imports Peer_Queues
begin

text \<open>
  What the dispatch keeps of a request, which the peer's invariant rests on: the connection it was
  admitted on, the id its response carries, the connections a handler leaves, and the wait a handler
  asks for when it pads an answer.
\<close>

section \<open>The dispatch\<close>

lemma admit_conns:
  assumes "admit p h now a request conns = (conns', outcome)" and "conn_inv conns"
  shows "conn_inv conns'" and "conn_later conns conns'"
proof -
  note step = conn_step [OF assms(2), of "DoLookup (ibClientId a) now", simplified]
  have "conns' = conns \<or> conns' = fst (Lookup conns (ibClientId a) now)"
    using assms(1) by (auto simp: admit_def split: option.splits if_splits prod.splits)
  with step assms(2) show "conn_inv conns'" "conn_later conns conns'" by (auto simp: conn_later_def)
qed

text \<open>What a request waiting for its handler has been found to be.\<close>

definition admitted_ok :: "'x Peer \<Rightarrow> 's Handler \<Rightarrow> Connections \<Rightarrow> inbound \<times> pRequest \<times> RequestBody \<Rightarrow> bool" where
  "admitted_ok p h conns = (\<lambda>(a, request, body).
     rqBody request = Some body \<and> served h body \<and>
     (if pipeline body
      then (rqProtocolVersion request = 0 \<or> rqProtocolVersion request = prProtocolVersion p) \<and>
        (\<exists>c. ibConnection a = Some c \<and> c < csNext conns \<and> cnClientId (deref conns c) = ibClientId a)
      else ibBytes a \<le> prMaxRequestBytes p))"

lemma Lookup_found:
  assumes "Lookup conns k now = (conns', Some c)" and "conn_inv conns"
  shows "c < csNext conns' \<and> cnClientId (deref conns' c) = k"
  using assms by (auto simp: Lookup_def touch_def deref_def conn_inv_def split: option.splits if_splits)

lemma admit_ok:
  assumes "admit p h now a request conns = (conns', Inr (a', body))" and "conn_inv conns"
  shows "admitted_ok p h conns' (a', request, body)" and "ibClientId a' = ibClientId a"
  using assms Lookup_found [OF _ assms(2)]
  by (auto simp: admit_def admitted_ok_def withinLimits_def split: option.splits if_splits prod.splits)

lemma admitted_later:
  "admitted_ok p h conns e \<Longrightarrow> conn_later conns conns' \<Longrightarrow> admitted_ok p h conns' e"
  by (fastforce simp: admitted_ok_def conn_later_def split: if_splits)

lemma refusalOf_id [simp]: "rsRequestId (refusalOf request reason) = rqRequestId request"
  by (simp add: refusalOf_def)

lemma envelope_id [simp]: "rsRequestId (envelope W request r) = rqRequestId request"
  by (auto simp: envelope_def setResponseBody_def split: option.split)

lemma bounded_id [simp]: "rsRequestId (bounded W p response) = rsRequestId response"
  by (simp add: bounded_def)

lemma serve_id:
  "serve W L R p h ops ctx rd a request body sv = Some (sv', response, wait) \<Longrightarrow>
     rsRequestId response = rqRequestId request"
  by (auto simp: serve_def)

text \<open>A handler changes no connection; only Hello opens one.\<close>

lemma on_conns:
  "onWorld sv wrap result = Some (sv', r) \<Longrightarrow> svConns sv' = svConns sv"
  "onRendezvous sv wrap result' = Some (sv', r) \<Longrightarrow> svConns sv' = svConns sv"
  by (auto simp: onWorld_def onRendezvous_def)

lemma hello_conns:
  "fst (hello config conns a versions random now1 now2 now3) \<in> {conns, fst (Open conns (ibClientId a) random now1 now2)}"
  by (auto simp: hello_def split: prod.split sum.split)

lemma runRoute_conns:
  assumes "runRoute L R p h ops ctx rd a body sv = Some (sv', r)"
  shows "svConns sv' \<in> {svConns sv, fst (Open (svConns sv) (ibClientId a) (rdRandom rd) (rdSwept rd) (rdOpened rd))}"
proof (cases body)
  case (HelloBody versions)
  note h = hello_conns [of "\<lparr> hcProtocolVersion = prProtocolVersion p, hcServerId = prServerId p,
      hcCapabilities = prCapabilities p \<rparr>" "svConns sv" a versions "rdRandom rd" "rdSwept rd" "rdOpened rd" "rdAnswered rd"]
  with HelloBody assms show ?thesis by (auto simp: runRoute_def Let_def split: prod.splits)
qed (use assms in \<open>auto simp: runRoute_def Let_def dest: on_conns split: prod.splits\<close>)

lemma serve_conns:
  assumes "serve W L R p h ops ctx rd a request body sv = Some (sv', response, wait)" and "conn_inv (svConns sv)"
  shows "conn_inv (svConns sv')" and "conn_later (svConns sv) (svConns sv')"
proof -
  from assms(1) obtain r where "runRoute L R p h ops ctx rd a body sv = Some (sv', r)" by (auto simp: serve_def)
  note runRoute_conns [OF this]
  moreover note conn_step [OF assms(2), of "DoOpen (ibClientId a) (rdRandom rd) (rdSwept rd) (rdOpened rd)", simplified]
  ultimately show "conn_inv (svConns sv')" "conn_later (svConns sv) (svConns sv')"
    using assms(2) by (auto simp: conn_later_def)
qed

section \<open>What padding leaves\<close>

definition pad_ok :: "'s Handler \<Rightarrow> Clock \<Rightarrow> ('w \<times> 'r Answer) option \<Rightarrow> bool" where
  "pad_ok h ck result \<longleftrightarrow> (\<forall>w answer. result = Some (w, answer) \<longrightarrow> anPad answer \<in> {None, pad h ck})"

lemmas answers = failed_def bare_def padded_def answered_def

lemma behindFront_pad:
  "(\<And>c q op. pad_ok h ck (k c q op)) \<Longrightarrow> pad_ok h ck (behindFront L h ck arm conn request w k)"
  by (auto simp: behindFront_def pad_ok_def answers split: option.splits sum.splits if_splits)

lemma onLiveBox_pad:
  "(\<And>box. pad_ok h ck (Some (act box))) \<Longrightarrow> pad_ok h ck (onLiveBox h ops ctx ck now ok gid w act)"
  by (auto simp: onLiveBox_def pad_ok_def answers split: option.splits sum.splits if_splits prod.splits)

lemma answerSubmit_pad: "pad_ok h ck (map_option (answerSubmit h ck) result)"
  by (auto simp: pad_ok_def answerSubmit_def answers split: option.splits if_splits)

lemma Submit_pad: "pad_ok h ck (Handler_Submit L h ctx ck conn request w)"
  unfolding Handler_Submit_def by (intro behindFront_pad answerSubmit_pad)

lemma Fetch_pad: "pad_ok h ck (Handler_Fetch L h ctx ck conn request w)"
  unfolding Handler_Fetch_def
  by (rule behindFront_pad) (auto simp: pad_ok_def servePage_def answers Let_def split: sum.splits if_splits prod.splits)

lemma Subscribe_pad: "pad_ok h ck (Handler_Subscribe L h ctx ck conn request w)"
  unfolding Handler_Subscribe_def
  by (rule behindFront_pad)
    (auto simp: pad_ok_def register_def answers Let_def split: sum.splits if_splits prod.splits option.splits list.splits)

lemma foundingChecks_pad: "foundingChecks L h ck c q = Inl answer \<Longrightarrow> anPad answer \<in> {None, pad h ck}"
  by (auto simp: foundingChecks_def answers Let_def split: sum.splits if_splits prod.splits option.splits)

lemma CreateGroup_pad: "pad_ok h ck (Handler_CreateGroup L h ctx ck conn request w)"
  unfolding Handler_CreateGroup_def
  by (rule behindFront_pad)
    (auto simp: pad_ok_def answers Let_def dest: foundingChecks_pad
      split: sum.splits if_splits prod.splits option.splits bind_splits)

lemma Register_pad: "pad_ok h ck (RendezvousRegister L R h ops ctx ck now conn request w)"
  unfolding RendezvousRegister_def
  by (rule behindFront_pad)
    (auto simp: pad_ok_def registerBox_def answers Let_def split: sum.splits if_splits prod.splits)

lemma Open_pad: "pad_ok h ck (RendezvousOpen L R h ops ctx ck now conn request w)"
  unfolding RendezvousOpen_def
  by (intro behindFront_pad onLiveBox_pad) (auto simp: pad_ok_def answers split: if_splits)

lemma Deposit_pad: "pad_ok h ck (RendezvousDeposit L R h ops ctx ck now conn request w)"
  unfolding RendezvousDeposit_def
  by (intro behindFront_pad onLiveBox_pad)
    (auto simp: pad_ok_def depositBox_def answers Let_def split: sum.splits if_splits prod.splits)

lemma Collect_pad: "pad_ok h ck (RendezvousCollect L R h ops ctx ck now conn request w)"
  unfolding RendezvousCollect_def
  by (intro behindFront_pad onLiveBox_pad)
    (auto simp: pad_ok_def collectBox_def answers Let_def split: sum.splits if_splits prod.splits)

lemma Retire_pad: "pad_ok h ck (RendezvousRetire L R h ops ctx ck now conn request w)"
  unfolding RendezvousRetire_def
  by (intro behindFront_pad onLiveBox_pad)
    (auto simp: pad_ok_def retireBox_def answers Let_def split: sum.splits if_splits prod.splits)

lemma pad_front [simp]: "pad (h\<lparr>hFront := f\<rparr>) ck = pad h ck"
  by (simp add: pad_def)

lemma pad_ok_front: "pad_ok (h\<lparr>hFront := f\<rparr>) = pad_ok h"
  by (intro ext) (simp add: pad_ok_def)

lemmas handlers_pad = Submit_pad Fetch_pad Subscribe_pad CreateGroup_pad Register_pad Open_pad Deposit_pad Collect_pad
  Retire_pad

lemmas routes_pad = handlers_pad [where h = "h\<lparr>hFront := f\<rparr>" for h f, unfolded pad_ok_front]

definition deferral_ok :: "'s Handler \<Rightarrow> Clock \<Rightarrow> 'x ran \<Rightarrow> bool" where
  "deferral_ok h ck r \<longleftrightarrow> rnDeferral r \<in> {None, pad h ck}"

lemma deferral_ok_None: "deferral_ok h ck \<lparr> rnReason = a, rnBody = b, rnFailed = c, rnDeferral = None \<rparr>"
  by (simp add: deferral_ok_def)

lemma on_pad:
  "onWorld sv wrap result = Some (sv', r) \<Longrightarrow> pad_ok h ck result \<Longrightarrow> deferral_ok h ck r"
  "onRendezvous sv wrap result' = Some (sv', r) \<Longrightarrow> pad_ok h ck result' \<Longrightarrow> deferral_ok h ck r"
  by (auto simp: onWorld_def onRendezvous_def pad_ok_def ranOf_def deferral_ok_def)

lemma runRoute_pad:
  assumes "runRoute L R p h ops ctx rd a body sv = Some (sv', r)"
  shows "deferral_ok h (rdClock rd) r"
  using assms unfolding runRoute_def Let_def
  by (cases body) (auto split: prod.splits intro: on_pad(1) [OF _ routes_pad(1)] on_pad(1) [OF _ routes_pad(2)]
      on_pad(1) [OF _ routes_pad(3)] on_pad(1) [OF _ routes_pad(4)] on_pad(2) [OF _ routes_pad(5)]
      on_pad(2) [OF _ routes_pad(6)] on_pad(2) [OF _ routes_pad(7)] on_pad(2) [OF _ routes_pad(8)]
      on_pad(2) [OF _ routes_pad(9)] simp: deferral_ok_None)

end
