(* ===== verification/Peer_Steps.thy ===== *)
theory Peer_Steps
  imports Peer_Invariant
begin

text \<open>
  The invariant of the peer's goroutines (\<open>peer_inv\<close>): its bounds, where every request it took is,
  what its connections are, and how long a padded answer has waited; every step keeps it.
\<close>

section \<open>Taking one out of a list\<close>

lemma remove_at_facts:
  assumes "i < length xs"
  shows "length xs = Suc (length (remove_at i xs))"
    and "mset (map f xs) = add_mset (f (xs ! i)) (mset (map f (remove_at i xs)))"
    and "sum_list (map g xs) = (g (xs ! i) :: int) + sum_list (map g (remove_at i xs))"
proof -
  have xs: "xs = take i xs @ xs ! i # drop (Suc i) xs" using assms by (rule id_take_nth_drop)
  show "length xs = Suc (length (remove_at i xs))" using assms by (simp add: remove_at_def)
  show "mset (map f xs) = add_mset (f (xs ! i)) (mset (map f (remove_at i xs)))"
    by (subst xs) (simp add: remove_at_def del: id_take_nth_drop)
  show "sum_list (map g xs) = g (xs ! i) + sum_list (map g (remove_at i xs))"
    by (subst xs) (simp add: remove_at_def)
qed

lemma in_remove_at [dest]: "x \<in> set (remove_at i xs) \<Longrightarrow> x \<in> set xs"
  by (auto simp: remove_at_def dest: in_set_takeD in_set_dropD)

lemma add_mset_drop: "add_mset e A \<subseteq># B \<Longrightarrow> A \<subseteq># B"
  by (drule mset_subset_eq_insertD) (simp add: subset_mset.less_imp_le)

section \<open>The invariant\<close>

definition peer_ok :: "'x Peer \<Rightarrow> bool" where
  "peer_ok p \<longleftrightarrow> 0 < prWorkers p \<and> 0 < prQueueDepth p \<and> 0 < prMaxDeferred p \<and> 0 < prMaxDeferredBytes p"

lemma positiveOr_pos: "0 < default_value \<Longrightarrow> 0 < positiveOr given default_value"
  by (simp add: positiveOr_def)

lemma newPeer_ok: "newPeer config = Inr p \<Longrightarrow> peer_ok p"
  by (auto simp: newPeer_def peer_ok_def DefaultMaxDeferredAnswers_def DefaultMaxDeferredBytes_def Let_def
      positiveOr_pos split: option.splits if_splits)

definition bounds_ok :: "('s, 'b, 'x) Deployment \<Rightarrow> ('s, 'b, 'x) PeerState \<Rightarrow> bool" where
  "bounds_ok d st \<longleftrightarrow> int (length (qsJobs st)) \<le> prQueueDepth (dyPeer d) \<and>
     int (length (qsRefusals st)) \<le> prQueueDepth (dyPeer d) \<and> int (busy st) \<le> prWorkers (dyPeer d) \<and>
     int (slots st) \<le> prMaxDeferred (dyPeer d) \<and> heldBytes st \<le> prMaxDeferredBytes (dyPeer d)"

definition keyOf :: "'x outgoing \<Rightarrow> clientId \<times> u64" where
  "keyOf a = (ogClient a, rsRequestId (ogResponse a))"

definition jobKey :: "inbound \<times> pRequest \<Rightarrow> clientId \<times> u64" where
  "jobKey = (\<lambda>(a, request). (ibClientId a, rqRequestId request))"

definition workKey :: "inbound \<times> pRequest \<times> RequestBody \<Rightarrow> clientId \<times> u64" where
  "workKey = (\<lambda>(a, request, _). (ibClientId a, rqRequestId request))"

text \<open>The requests that have been taken and not answered, and those that have been answered.\<close>

definition pendingOf :: "('s, 'b, 'x) PeerState \<Rightarrow> (clientId \<times> u64) multiset" where
  "pendingOf st = mset (map jobKey (qsJobs st)) + mset (map workKey (qsWorking st)) +
     mset (map keyOf (qsParked st)) + mset (map keyOf (qsSlotted st)) + mset (map (keyOf \<circ> fst) (qsWaiting st))"

definition answeredOf :: "('s, 'b, 'x) PeerState \<Rightarrow> (clientId \<times> u64) multiset" where
  "answeredOf st = mset (map (keyOf \<circ> fst) (qsAnswered st))"

definition ledger_ok :: "('s, 'b, 'x) PeerState \<Rightarrow> bool" where
  "ledger_ok st \<longleftrightarrow> pendingOf st + answeredOf st \<subseteq># mset (qsArrived st) \<and>
     (\<not> qsClosed st \<longrightarrow> pendingOf st + answeredOf st = mset (qsArrived st))"

definition conns_ok :: "('s, 'b, 'x) Deployment \<Rightarrow> ('s, 'b, 'x) PeerState \<Rightarrow> bool" where
  "conns_ok d st \<longleftrightarrow> conn_inv (svConns (qsServer st)) \<and>
     (\<forall>e \<in> set (qsWorking st). admitted_ok (dyPeer d) (dyHandler d) (svConns (qsServer st)) e)"

definition floorOf :: "('s, 'b, 'x) Deployment \<Rightarrow> 'x outgoing \<Rightarrow> time" where
  "floorOf d a = ogStarted a + hRejectFloor (dyHandler d)"

definition held_ok :: "('s, 'b, 'x) Deployment \<Rightarrow> time \<Rightarrow> 'x outgoing \<Rightarrow> bool" where
  "held_ok d now a \<longleftrightarrow> (\<exists>w. ogWait a = Some w \<and> floorOf d a \<le> now + w)"

text \<open>The answer is as \<open>send\<close> will send it.\<close>

definition cut :: "('s, 'b, 'x) Deployment \<Rightarrow> 'x outgoing \<Rightarrow> bool" where
  "cut d a \<longleftrightarrow> bounded (dyWire d) (dyPeer d) (ogResponse a) = ogResponse a"

definition timer_ok :: "('s, 'b, 'x) Deployment \<Rightarrow> 'x outgoing \<times> int \<times> time \<Rightarrow> bool" where
  "timer_ok d = (\<lambda>(a, held, due). 0 \<le> held \<and> held = heldBy d a \<and> cut d a \<and> floorOf d a \<le> due)"

definition sent_ok :: "('s, 'b, 'x) Deployment \<Rightarrow> 'x outgoing \<times> time \<Rightarrow> bool" where
  "sent_ok d = (\<lambda>(a, at). ogWait a \<noteq> None \<longrightarrow> floorOf d a \<le> at)"

definition floor_ok :: "('s, 'b, 'x) Deployment \<Rightarrow> ('s, 'b, 'x) PeerState \<Rightarrow> bool" where
  "floor_ok d st \<longleftrightarrow>
     (\<forall>a \<in> set (qsParked st). held_ok d (qsNow st) a) \<and> (\<forall>a \<in> set (qsSlotted st). held_ok d (qsNow st) a \<and> cut d a) \<and>
     (\<forall>t \<in> set (qsWaiting st). timer_ok d t) \<and> (\<forall>t \<in> set (qsAnswered st). sent_ok d t)"

definition peer_inv :: "('s, 'b, 'x) Deployment \<Rightarrow> ('s, 'b, 'x) PeerState \<Rightarrow> bool" where
  "peer_inv d st \<longleftrightarrow> bounds_ok d st \<and> ledger_ok st \<and> conns_ok d st \<and> floor_ok d st"

lemmas ledger_defs = ledger_ok_def pendingOf_def answeredOf_def
lemmas bounds_defs = bounds_ok_def busy_def slots_def heldBytes_def
lemmas peer_invs = peer_inv_def bounds_defs ledger_defs conns_ok_def floor_ok_def

lemma startPeer_inv:
  "peer_ok (dyPeer d) \<Longrightarrow> conn_inv (svConns sv) \<Longrightarrow> peer_inv d (startPeer (dyPeer d) sv now)"
  by (simp add: peer_invs startPeer_def peer_ok_def)

text \<open>A step that moves requests on takes what it adds to the ledger from what arrived.\<close>

lemma ledger_step:
  assumes "ledger_ok st" and "pendingOf st' + answeredOf st' = pendingOf st + answeredOf st + mset new"
    and "qsArrived st' = qsArrived st @ new" and "qsClosed st' = qsClosed st"
  shows "ledger_ok st'"
  using assms by (simp add: ledger_ok_def)

section \<open>What a step leaves alone\<close>

lemma sendTo_fields [simp]:
  "qsServer (sendTo d t c r st) = qsServer st" "qsReassembly (sendTo d t c r st) = qsReassembly st"
  "qsJobs (sendTo d t c r st) = qsJobs st" "qsWorking (sendTo d t c r st) = qsWorking st"
  "qsParked (sendTo d t c r st) = qsParked st" "qsSlotted (sendTo d t c r st) = qsSlotted st"
  "qsWaiting (sendTo d t c r st) = qsWaiting st" "qsRefusals (sendTo d t c r st) = qsRefusals st"
  "qsClosed (sendTo d t c r st) = qsClosed st" "qsNow (sendTo d t c r st) = qsNow st"
  "qsArrived (sendTo d t c r st) = qsArrived st" "qsAnswered (sendTo d t c r st) = qsAnswered st"
  by (simp_all add: sendTo_def split: prod.split)

text \<open>The observations of frames and counters, and the reassembly, are in no part of the invariant.\<close>

lemma peer_inv_unseen [simp]:
  "peer_inv d (sendTo d' t c r st) = peer_inv d st"
  "peer_inv d (st\<lparr>qsStats := stats\<rparr>) = peer_inv d st"
  "peer_inv d (st\<lparr>qsReassembly := ra\<rparr>) = peer_inv d st"
  by (simp_all add: peer_invs)

lemma held_later: "held_ok d now a \<Longrightarrow> now \<le> now' \<Longrightarrow> held_ok d now' a"
  by (auto simp: held_ok_def)

lemma tick_inv: "tick now st = Some st' \<Longrightarrow> peer_inv d st \<Longrightarrow> peer_inv d st'"
  using held_later [of d "qsNow st" _ now] by (simp add: tick_def peer_invs split: if_splits) auto

lemma close_inv: "peer_inv d st \<Longrightarrow> peer_inv d (st\<lparr>qsClosed := True\<rparr>)"
  by (simp add: peer_invs)

section \<open>Receiving\<close>

lemma enqueue_inv:
  assumes "enqueue (dyPeer d) job st = Some st'" and "peer_inv d st"
  shows "peer_inv d st'"
proof (cases "int (length (qsJobs st)) < prQueueDepth (dyPeer d)")
  case True
  with assms(1) have st': "st' = st\<lparr>qsJobs := qsJobs st @ [job], qsArrived := qsArrived st @ [jobKey job]\<rparr>"
    by (simp add: enqueue_def jobKey_def case_prod_unfold)
  have "ledger_ok st'"
    by (rule ledger_step [of st _ "[jobKey job]"]) (use assms(2) in \<open>simp_all add: peer_inv_def st' pendingOf_def answeredOf_def\<close>)
  with assms(2) True show ?thesis by (simp add: peer_inv_def bounds_defs conns_ok_def floor_ok_def st')
qed (use assms in \<open>simp add: enqueue_def split: if_splits\<close>)

lemma refuse_inv: "peer_inv d st \<Longrightarrow> peer_inv d (Peer_refuse (dyPeer d) c rid reason st)"
  by (simp add: Peer_refuse_def peer_invs)

lemma receive_inv:
  assumes "receive d c frame now1 now2 st = Some st'" and "peer_inv d st"
  shows "peer_inv d st'"
  using assms
  by (auto simp: receive_def Peer_arrived_def arrivedFragment_def countFrame_def dropFrame_def Let_def
      intro: refuse_inv enqueue_inv split: frameKind.splits option.splits prod.splits if_splits)

section \<open>Sending and the workers\<close>

lemma sendAnswer_fields [simp]:
  "qsServer (sendAnswer d t a st) = qsServer st" "qsClosed (sendAnswer d t a st) = qsClosed st"
  "qsArrived (sendAnswer d t a st) = qsArrived st" "qsNow (sendAnswer d t a st) = qsNow st"
  "pendingOf (sendAnswer d t a st) = pendingOf st"
  "answeredOf (sendAnswer d t a st) = add_mset (keyOf a) (answeredOf st)"
  "bounds_ok d' (sendAnswer d t a st) = bounds_ok d' st" "conns_ok d' (sendAnswer d t a st) = conns_ok d' st"
  "floor_ok d' (sendAnswer d t a st) \<longleftrightarrow> floor_ok d' st \<and> sent_ok d' (a, qsNow st)"
  by (auto simp: sendAnswer_def pendingOf_def answeredOf_def bounds_defs conns_ok_def floor_ok_def)

text \<open>An answer sent for a request that leaves what was pending keeps the invariant.\<close>

lemma sendAnswer_inv:
  assumes "peer_inv d st" and "pendingOf st = add_mset (keyOf a) (pendingOf st1)"
    and "answeredOf st1 = answeredOf st" "qsArrived st1 = qsArrived st" "qsClosed st1 = qsClosed st"
    and "bounds_ok d st1" "conns_ok d st1" "floor_ok d st1" "sent_ok d (a, qsNow st1)"
  shows "peer_inv d (sendAnswer d t a st1)"
proof -
  have "ledger_ok (sendAnswer d t a st1)"
    by (rule ledger_step [of st _ "[]"]) (use assms in \<open>simp_all add: peer_inv_def\<close>)
  with assms show ?thesis by (simp add: peer_inv_def)
qed

lemma conns_ok_step:
  assumes "conns_ok d st" and "conn_inv conns" and "conn_later (svConns (qsServer st)) conns"
    and "qsWorking st' = ws" "svConns (qsServer st') = conns" "set ws \<subseteq> set (qsWorking st) \<union> new"
    and "\<forall>e \<in> new. admitted_ok (dyPeer d) (dyHandler d) conns e"
  shows "conns_ok d st'"
  using assms admitted_later [OF _ assms(3)] unfolding conns_ok_def by blast

lemma workTake_inv:
  assumes "workTake d now taken st = Some st'" and inv: "peer_inv d st"
  shows "peer_inv d st'"
proof -
  from assms(1) obtain a request rest where jobs: "qsJobs st = (a, request) # rest"
    and free: "int (busy st) < prWorkers (dyPeer d)"
    by (auto simp: workTake_def split: list.splits if_splits)
  obtain conns outcome where adm: "admit (dyPeer d) (dyHandler d) now a request (svConns (qsServer st)) = (conns, outcome)"
    by fastforce
  let ?st1 = "st\<lparr>qsJobs := rest, qsServer := (qsServer st)\<lparr>svConns := conns\<rparr>,
    qsStats := (qsStats st)\<lparr>saRequestsServed := saRequestsServed (qsStats st) + 1\<rparr>\<rparr>"
  have ci: "conn_inv (svConns (qsServer st))" using inv by (simp add: peer_inv_def conns_ok_def)
  note ac = admit_conns [OF adm ci]
  have key: "pendingOf st = add_mset (jobKey (a, request)) (pendingOf ?st1)" using jobs by (simp add: pendingOf_def)
  have ok1: "bounds_ok d ?st1" "floor_ok d ?st1" "answeredOf ?st1 = answeredOf st"
    using inv jobs by (auto simp: peer_inv_def bounds_defs floor_ok_def answeredOf_def)
  show ?thesis
  proof (cases outcome)
    case (Inl reason)
    have "conns_ok d ?st1"
      by (rule conns_ok_step [OF _ ac refl, where new = "{}"]) (use inv in \<open>simp_all add: peer_inv_def\<close>)
    then have "peer_inv d (sendAnswer d taken \<lparr> ogClient = ibClientId a, ogResponse = refusalOf request reason,
        ogWait = None, ogStarted = qsNow st \<rparr> ?st1)"
      by (intro sendAnswer_inv [OF inv]) (use key ok1 in \<open>simp_all add: keyOf_def jobKey_def sent_ok_def\<close>)
    with assms(1) jobs free adm Inl show ?thesis by (simp add: workTake_def)
  next
    case (Inr e)
    obtain a' body where e: "e = (a', body)" by fastforce
    note ao = admit_ok [OF adm [unfolded Inr e] ci]
    from assms(1) jobs free adm Inr e
    have st': "st' = ?st1\<lparr>qsWorking := qsWorking st @ [(a', request, body)]\<rparr>" by (simp add: workTake_def)
    have "conns_ok d st'"
      by (rule conns_ok_step [OF _ ac, where new = "{(a', request, body)}"]) (use inv ao in \<open>auto simp: peer_inv_def st'\<close>)
    moreover have "ledger_ok st'"
      by (rule ledger_step [of st _ "[]"])
        (use inv key ao in \<open>simp_all add: peer_inv_def st' pendingOf_def answeredOf_def jobKey_def workKey_def\<close>)
    ultimately show ?thesis using inv ok1 free jobs by (simp add: peer_inv_def st' bounds_defs floor_ok_def)
  qed
qed

lemma workServe_inv:
  assumes "workServe d ctx i rd taken st = Some st'" and inv: "peer_inv d st"
    and "ckPad (rdClock rd) = qsNow st"
  shows "peer_inv d st'"
proof -
  from assms(1) obtain a request body where i: "i < length (qsWorking st)" "qsWorking st ! i = (a, request, body)"
    by (auto simp: workServe_def split: if_splits prod.splits)
  with assms(1) obtain sv response wait where run: "serve (dyWire d) (dyRecords d) (dyRendezvous d) (dyPeer d)
      (dyHandler d) (dyBoxes d) ctx rd a request body (qsServer st) = Some (sv, response, wait)"
    by (auto simp: workServe_def split: option.splits)
  have ci: "conn_inv (svConns (qsServer st))" using inv by (simp add: peer_inv_def conns_ok_def)
  note rm = remove_at_facts [OF i(1)]
  let ?st1 = "st\<lparr>qsWorking := remove_at i (qsWorking st), qsServer := sv\<rparr>"
  let ?answer = "\<lparr> ogClient = ibClientId a, ogResponse = response, ogWait = wait, ogStarted = ckStarted (rdClock rd) \<rparr>"
  have key: "pendingOf st = add_mset (keyOf ?answer) (pendingOf ?st1)"
    using rm(2) [of workKey] i(2) serve_id [OF run] by (simp add: pendingOf_def workKey_def keyOf_def)
  have ok1: "bounds_ok d ?st1" "floor_ok d ?st1" "answeredOf ?st1 = answeredOf st"
    using inv rm(1) by (auto simp: peer_inv_def bounds_defs floor_ok_def answeredOf_def)
  have conns: "conns_ok d ?st1"
    by (rule conns_ok_step [OF _ serve_conns [OF run ci], where new = "{}"])
      (use inv in \<open>auto simp: peer_inv_def\<close>)
  have pad: "wait = None \<or> wait = Some (hRejectFloor (dyHandler d) - (qsNow st - ckStarted (rdClock rd)))"
    using run runRoute_pad assms(3) by (fastforce simp: serve_def deferral_ok_def pad_def split: if_splits)
  show ?thesis
  proof (cases "deferred wait")
    case True
    with assms(1) i run have st': "st' = ?st1\<lparr>qsParked := qsParked st @ [?answer]\<rparr>"
      by (simp add: workServe_def Let_def)
    have "ledger_ok st'"
      by (rule ledger_step [of st _ "[]"])
        (use inv key in \<open>simp_all add: peer_inv_def st' pendingOf_def answeredOf_def\<close>)
    moreover have "floor_ok d st'" using ok1(2) pad True
      by (auto simp: st' floor_ok_def held_ok_def floorOf_def deferred_def)
    ultimately show ?thesis using inv rm(1) conns by (simp add: peer_inv_def st' bounds_defs conns_ok_def)
  next
    case False
    then have "sent_ok d (?answer, qsNow st)"
      using pad by (auto simp: sent_ok_def floorOf_def deferred_def)
    then have "peer_inv d (sendAnswer d taken ?answer ?st1)"
      by (intro sendAnswer_inv [OF inv]) (use key ok1 conns in simp_all)
    with assms(1) i run False show ?thesis by (simp add: workServe_def Let_def)
  qed
qed

section \<open>Waiting, refusing and closing\<close>

lemma takeSlot_inv:
  assumes "takeSlot d i st = Some st'" and inv: "peer_inv d st"
  shows "peer_inv d st'"
proof -
  let ?a = "qsParked st ! i"
  let ?b = "?a\<lparr>ogResponse := bounded (dyWire d) (dyPeer d) (ogResponse ?a)\<rparr>"
  from assms(1) have i: "i < length (qsParked st)" "int (slots st) < prMaxDeferred (dyPeer d)"
    and st': "st' = st\<lparr>qsParked := remove_at i (qsParked st), qsSlotted := qsSlotted st @ [?b]\<rparr>"
    by (auto simp: takeSlot_def Let_def split: if_splits)
  note rm = remove_at_facts [OF i(1)]
  have key: "keyOf ?b = keyOf ?a" by (simp add: keyOf_def)
  have "ledger_ok st'"
    by (rule ledger_step [of st _ "[]"])
      (use inv key rm(2) [of keyOf] in \<open>simp_all add: peer_inv_def st' pendingOf_def answeredOf_def\<close>)
  moreover have "held_ok d (qsNow st) ?b \<and> cut d ?b"
    using inv nth_mem [OF i(1)] by (auto simp: peer_inv_def floor_ok_def held_ok_def floorOf_def cut_def bounded_def)
  ultimately show ?thesis using inv i(2) rm(1)
    by (simp add: peer_inv_def bounds_defs conns_ok_def floor_ok_def st') blast
qed

lemma acquireBytes_inv:
  assumes "acquireBytes d i st = Some st'" and inv: "peer_inv d st" and "peer_ok (dyPeer d)"
  shows "peer_inv d st'"
proof -
  let ?a = "qsSlotted st ! i"
  let ?w = "(?a, heldBy d ?a, qsNow st + (case ogWait ?a of None \<Rightarrow> 0 | Some w \<Rightarrow> w))"
  from assms(1) obtain stats where i: "i < length (qsSlotted st)" "heldBytes st + heldBy d ?a \<le> prMaxDeferredBytes (dyPeer d)"
    and st': "st' = st\<lparr>qsSlotted := remove_at i (qsSlotted st), qsWaiting := qsWaiting st @ [?w], qsStats := stats\<rparr>"
    by (auto simp: acquireBytes_def Let_def split: if_splits)
  note rm = remove_at_facts [OF i(1)]
  have "ledger_ok st'"
    by (rule ledger_step [of st _ "[]"])
      (use inv rm(2) [of keyOf] in \<open>simp_all add: peer_inv_def st' pendingOf_def answeredOf_def\<close>)
  moreover have "timer_ok d ?w"
    using inv nth_mem [OF i(1)] assms(3)
    by (auto simp: peer_inv_def floor_ok_def held_ok_def timer_ok_def heldBy_def peer_ok_def split: option.split)
  ultimately show ?thesis using inv i(2) rm(1)
    by (simp add: peer_inv_def bounds_defs conns_ok_def floor_ok_def st') blast
qed

text \<open>An answer that leaves its timer gives its bytes back.\<close>

lemma unwait_bounds:
  assumes "i < length (qsWaiting st)" and "bounds_ok d st" and "floor_ok d st"
  shows "bounds_ok d (st\<lparr>qsWaiting := remove_at i (qsWaiting st)\<rparr>)"
    and "floor_ok d (st\<lparr>qsWaiting := remove_at i (qsWaiting st)\<rparr>)"
proof -
  note rm = remove_at_facts [OF assms(1)]
  have "timer_ok d (qsWaiting st ! i)" using assms(1,3) by (simp add: floor_ok_def)
  then have "heldBytes (st\<lparr>qsWaiting := remove_at i (qsWaiting st)\<rparr>) \<le> heldBytes st"
    using rm(3) [of "\<lambda>(_, held, _). held"] by (auto simp: heldBytes_def timer_ok_def)
  then show "bounds_ok d (st\<lparr>qsWaiting := remove_at i (qsWaiting st)\<rparr>)"
    using assms(2) rm(1) by (simp add: bounds_ok_def busy_def slots_def)
  show "floor_ok d (st\<lparr>qsWaiting := remove_at i (qsWaiting st)\<rparr>)"
    using assms(3) by (auto simp: floor_ok_def)
qed

lemma fire_inv:
  assumes "fire d i taken st = Some st'" and inv: "peer_inv d st"
  shows "peer_inv d st'"
proof -
  from assms(1) obtain a held due where i: "i < length (qsWaiting st)" "qsWaiting st ! i = (a, held, due)" "due \<le> qsNow st"
    by (auto simp: fire_def split: if_splits prod.splits)
  let ?st1 = "st\<lparr>qsWaiting := remove_at i (qsWaiting st)\<rparr>"
  have "timer_ok d (a, held, due)" using inv nth_mem [OF i(1)] i(2) by (auto simp: peer_inv_def floor_ok_def)
  with i(3) have "sent_ok d (a, qsNow st)" by (auto simp: timer_ok_def sent_ok_def)
  moreover have "pendingOf st = add_mset (keyOf a) (pendingOf ?st1)"
    using remove_at_facts(2) [OF i(1), of "keyOf \<circ> fst"] i(2) by (simp add: pendingOf_def)
  ultimately have "peer_inv d (sendAnswer d taken a ?st1)"
    by (intro sendAnswer_inv [OF inv])
      (use inv unwait_bounds [OF i(1)] in \<open>simp_all add: peer_inv_def answeredOf_def conns_ok_def\<close>)
  with assms(1) i show ?thesis by (simp add: fire_def)
qed

lemma refuseNext_inv: "refuseNext d taken st = Some st' \<Longrightarrow> peer_inv d st \<Longrightarrow> peer_inv d st'"
  by (auto simp: refuseNext_def peer_invs split: list.splits)

lemma abandon_inv:
  assumes "abandon k st = Some st'" and inv: "peer_inv d st"
  shows "peer_inv d st'"
proof -
  have c: "qsClosed st" using assms(1) by (simp add: abandon_def split: if_splits)
  have ledger: "ledger_ok st'" if "pendingOf st = add_mset e (pendingOf st')" "answeredOf st' = answeredOf st"
    "qsArrived st' = qsArrived st" "qsClosed st'" for e
    using inv that add_mset_drop [of e "pendingOf st' + answeredOf st'" "mset (qsArrived st')"]
    by (simp add: peer_inv_def ledger_ok_def)
  show ?thesis
  proof (cases k)
    case (AtPark i)
    with assms(1) c have i: "i < length (qsParked st)" and st': "st' = st\<lparr>qsParked := remove_at i (qsParked st)\<rparr>"
      by (simp_all add: abandon_def split: if_splits)
    note rm = remove_at_facts [OF i]
    have "ledger_ok st'"
      by (rule ledger) (use c rm(2) [of keyOf] in \<open>simp_all add: st' pendingOf_def answeredOf_def\<close>)
    with inv rm(1) show ?thesis
      by (simp add: st' peer_inv_def bounds_defs conns_ok_def floor_ok_def) blast
  next
    case (AtSlot i)
    with assms(1) c have i: "i < length (qsSlotted st)" and st': "st' = st\<lparr>qsSlotted := remove_at i (qsSlotted st)\<rparr>"
      by (simp_all add: abandon_def split: if_splits)
    note rm = remove_at_facts [OF i]
    have "ledger_ok st'"
      by (rule ledger) (use c rm(2) [of keyOf] in \<open>simp_all add: st' pendingOf_def answeredOf_def\<close>)
    with inv rm(1) show ?thesis
      by (simp add: st' peer_inv_def bounds_defs conns_ok_def floor_ok_def) blast
  next
    case (AtTimer i)
    with assms(1) c have i: "i < length (qsWaiting st)" and st': "st' = st\<lparr>qsWaiting := remove_at i (qsWaiting st)\<rparr>"
      by (simp_all add: abandon_def split: if_splits)
    have "ledger_ok st'"
      by (rule ledger) (use c remove_at_facts(2) [OF i, of "keyOf \<circ> fst"] in \<open>simp_all add: st' pendingOf_def answeredOf_def\<close>)
    with inv unwait_bounds [OF i] show ?thesis by (simp add: st' peer_inv_def conns_ok_def)
  qed
qed

section \<open>Every step\<close>

lemma peerStep_inv:
  assumes "peerStep d x st = Some st'" and "peer_inv d st" and "peer_ok (dyPeer d)"
  shows "peer_inv d st'"
proof (cases x)
  case (WorkTake now taken)
  with assms show ?thesis by (auto simp: bind_eq_Some_conv intro: workTake_inv tick_inv)
next
  case (WorkServe ctx i rd taken)
  with assms(1) obtain st1 where t: "tick (ckPad (rdClock rd)) st = Some st1" "workServe d ctx i rd taken st1 = Some st'"
    by (auto simp: bind_eq_Some_conv split: if_splits)
  then have "ckPad (rdClock rd) = qsNow st1" by (auto simp: tick_def split: if_splits)
  with t assms(2) show ?thesis by (blast intro: workServe_inv tick_inv)
qed (use assms in \<open>auto intro: receive_inv takeSlot_inv acquireBytes_inv fire_inv refuseNext_inv tick_inv abandon_inv close_inv\<close>)

interpretation peers: transition_system
  "\<lambda>st. peer_ok (dyPeer d) \<and> (\<exists>sv now. conn_inv (svConns sv) \<and> st = startPeer (dyPeer d) sv now)"
  "\<lambda>s t. \<exists>x. peer_ok (dyPeer d) \<and> peerStep d x s = Some t" "peer_inv d" for d
  by unfold_locales (auto intro: startPeer_inv peerStep_inv)

end
