(* ===== verification/Peer_Properties.thy ===== *)
theory Peer_Properties
  imports Peer_Steps Rendezvous_Api_Properties Reassembly_Properties
begin

text \<open>
  What the peer promises: a handler changes the server's state only for a request on its client's
  live connection; every request the peer takes is answered once, under its own id, and none is
  stuck; its queues and the answers it holds are bounded; a padded refusal waits out its floor; and
  what is sent fits the size the server advertises.
\<close>

section \<open>Runs\<close>

lemma peerRun_append:
  "peerRun d (xs @ ys) st = Option.bind (peerRun d xs st) (peerRun d ys)"
  by (induction xs arbitrary: st) (simp_all split: bind_splits)


lemma peerRun_steps:
  "peer_ok (dyPeer d) \<Longrightarrow> peerRun d xs st = Some st' \<Longrightarrow>
     (\<lambda>s t. \<exists>x. peer_ok (dyPeer d) \<and> peerStep d x s = Some t)\<^sup>*\<^sup>* st st'"
  by (induction xs arbitrary: st) (auto simp: bind_eq_Some_conv intro: converse_rtranclp_into_rtranclp)

lemma NewConnections_inv: "conn_inv (NewConnections idle)"
  using connRun_inv [of "[]"] by simp

lemma peerRun_inv:
  assumes "newPeer config = Inr (dyPeer d)" and "svConns sv = NewConnections idle"
    and "peerRun d xs (startPeer (dyPeer d) sv now) = Some st"
  shows "peer_ok (dyPeer d)" and "peer_inv d st"
proof -
  show ok: "peer_ok (dyPeer d)" using assms(1) by (rule newPeer_ok)
  show "peer_inv d st"
  proof (rule peers.inv_reachable [OF _ peerRun_steps [OF ok assms(3)]], intro conjI exI)
    show "conn_inv (svConns sv)" using assms(2) NewConnections_inv by simp
  qed (use ok in simp_all)
qed

section \<open>A deployment to evaluate\<close>

definition demoHelloRequest :: pRequest where
  "demoHelloRequest = \<lparr> rqRequestId = 5, rqProtocolVersion = 0, rqBody = Some (HelloBody [3]) \<rparr>"

definition demoFetchRequest :: pRequest where
  "demoFetchRequest = \<lparr> rqRequestId = 6, rqProtocolVersion = 3, rqBody = Some (FetchBody demoFetch) \<rparr>"

definition demoWire :: "unit Wire" where
  "demoWire = \<lparr> wrUnmarshalRequest = (\<lambda>bs. if bs = [1] then Some demoHelloRequest
       else if bs = [2] then Some demoFetchRequest else None),
     wrUnmarshalFragment = (\<lambda>bs. if length bs < 3 then None
       else Some \<lparr> fRequestId = ucast (bs ! 0), fIndex = ucast (bs ! 1), fCount = ucast (bs ! 2), fPart = drop 3 bs \<rparr>),
     wrMarshalResponse = (\<lambda>r. Some [ucast (rsRequestId r)]), wrMarshalFragment = (\<lambda>f. Some (fPart f)),
     wrSize = (\<lambda>_. 1), wrResponseArm = (\<lambda>_. True) \<rparr>"

definition demoConfig :: "unit PeerConfig" where
  "demoConfig = \<lparr> kfClient = True, kfHandler = True, kfConnections = Some 0,
     kfChecks = Some \<lparr> xkConnections = 0, xkMaxRequestBytes = 4 \<rparr>,
     kfCapabilities = Some \<lparr> cpMaxRequestBytes = 4, cpMaxResponseBytes = 0, cpRest = () \<rparr>,
     kfServerId = [], kfProtocolVersion = 3, kfFragmentPartBytes = 0, kfWorkers = 1, kfQueueDepth = 1,
     kfMaxDeferredAnswers = 1, kfMaxDeferredBytes = 0, kfReassemblyIdle = 0, kfReassembliesPerClient = 0,
     kfMaxReassemblies = 0, kfSendTimeout = 0 \<rparr>"

definition demoPeer :: "unit Peer" where
  "demoPeer = \<lparr> prCapabilities = \<lparr> cpMaxRequestBytes = 4, cpMaxResponseBytes = 1048576, cpRest = () \<rparr>,
     prServerId = [], prProtocolVersion = 3, prMaxRequestBytes = 4, prMaxResponseBytes = 1048576,
     prFragmentPartBytes = 2048, prSendTimeout = 30000000000, prReassembly = newReassembly 4 16 1024 30000000000,
     prSweepPeriod = 15000000000, prWorkers = 1, prQueueDepth = 1, prMaxDeferred = 1,
     prMaxDeferredBytes = 8388608 \<rparr>"

definition demoDeployment :: "(MemoryStore, LinkBoxStore, unit) Deployment" where
  "demoDeployment = \<lparr> dyWire = demoWire, dyRecords = demoLayer, dyRendezvous = demoRendezvous, dyPeer = demoPeer,
     dyHandler = demoServing, dyBoxes = memoryLinkBoxes id \<rparr>"

definition demoServer :: "MemoryStore \<Rightarrow> (MemoryStore, LinkBoxStore) Server" where
  "demoServer s = \<lparr> svConns = NewConnections 0, svWorld = demoWorld s, svRendezvous = demoBoxes \<rparr>"

definition demoReadings :: "time \<Rightarrow> Readings" where
  "demoReadings t = \<lparr> rdChecked = t, rdClock = \<lparr> ckStarted = t, ckShape = \<lambda>_. t, ckPad = t + 10 \<rparr>, rdNow = t,
     rdSwept = t, rdOpened = t, rdAnswered = t, rdRandom = replicate 32 7 \<rparr>"

definition demoFrame :: "frameKind \<Rightarrow> bytes \<Rightarrow> Frame" where
  "demoFrame k bs = \<lparr> fmType = k, fmRaw = False, fmBytes = bs \<rparr>"

lemma demo_newPeer: "newPeer demoConfig = Inr demoPeer"
  by (simp add: demoPeer_def newPeer_def demoConfig_def Let_def advertised_def positiveOr_def sweepPeriod_def partSize_def
      MaxFragmentPartBytes_def DefaultMaxResponseBytes_def DefaultSendTimeout_def DefaultReassembliesPerClient_def
      DefaultMaxReassemblies_def DefaultReassemblyIdle_def DefaultMaxDeferredBytes_def)

text \<open>A Hello, and a fetch whose group the server did not know it had.\<close>

abbreviation "demoHelloOps \<equiv>
  [Receive [1] (demoFrame RequestFrame [1]) 0 0, WorkTake 1 (\<lambda>_. True), WorkServe None 0 (demoReadings 2) (\<lambda>_. True)]"

abbreviation "demoFetchOps \<equiv>
  demoHelloOps @ [Receive [1] (demoFrame RequestFrame [2]) 20 20, WorkTake 21 (\<lambda>_. True)]"

lemmas peer_demo_defs = demoDeployment_def demoWire_def demoFrame_def demoReadings_def demoHelloRequest_def demoFetchRequest_def

lemma demo_peer_fields [simp]:
  "dyPeer demoDeployment = demoPeer" "dyHandler demoDeployment = demoServing" "dyWire demoDeployment = demoWire"
  "prQueueDepth demoPeer = 1" "prWorkers demoPeer = 1" "prProtocolVersion demoPeer = 3" "prMaxRequestBytes demoPeer = 4"
  "prMaxResponseBytes demoPeer = 1048576" "prFragmentPartBytes demoPeer = 2048"
  by (simp_all add: demoDeployment_def demoPeer_def)

definition demoGreeted :: "Connections" where
  "demoGreeted = fst (Open (NewConnections 0) [1] (replicate 32 7) 2 2)"

lemma demo_hello_run:
  assumes "svConns sv = NewConnections 0"
  shows "\<exists>st. peerRun demoDeployment demoHelloOps (startPeer demoPeer sv 0) = Some st \<and>
     qsServer st = sv\<lparr>svConns := demoGreeted\<rparr> \<and> qsNow st = 12 \<and> qsJobs st = [] \<and> qsWorking st = [] \<and> qsParked st = [] \<and>
     qsSlotted st = [] \<and> qsWaiting st = [] \<and> length (qsAnswered st) = 1"
  using assms
  by (simp add: startPeer_def receive_def Peer_arrived_def decodeRequest_def peer_demo_defs countFrame_def enqueue_def tick_def
      workTake_def busy_def admit_def served_def pipeline_def withinLimits_def workServe_def serve_def runRoute_def Let_def
      remove_at_def deferred_def demoGreeted_def hello_def sendAnswer_def Open_def ServerNonceBytes_def)

definition demoFetched :: "Connections" where
  "demoFetched = touch demoGreeted 0 21"

abbreviation "demoArrived \<equiv> \<lparr> ibClientId = [1], ibConnection = Some 0, ibBytes = 1 \<rparr>"

lemma demo_conns:
  "Lookup demoGreeted [1] 21 = (demoFetched, Some 0)"
  "ConnectionAuthenticated demoFetched (Some demoArrived) (Some (toApiConnection demoFetched 0)) t = REASON_OK"
  "acServerNonce (toApiConnection demoFetched 0) = replicate 32 7"
  by (simp_all add: demoFetched_def demoGreeted_def Open_def Let_def ServerNonceBytes_def Lookup_def expired_def deref_def
      NewConnections_def sweep_live_def touch_def ConnectionAuthenticated_def IsLive_def Holds_def toApiConnection_def
      ServerNonce_def)

lemma demo_fetch_run:
  assumes "svConns sv = NewConnections 0"
  shows "\<exists>st. peerRun demoDeployment demoFetchOps (startPeer demoPeer sv 0) = Some st \<and>
     qsServer st = sv\<lparr>svConns := demoFetched\<rparr> \<and> qsNow st = 21 \<and>
     qsWorking st = [(demoArrived, demoFetchRequest, FetchBody demoFetch)] \<and> qsParked st = [] \<and>
     qsSlotted st = [] \<and> qsWaiting st = []"
proof -
  from demo_hello_run [OF assms] obtain st where st: "peerRun demoDeployment demoHelloOps (startPeer demoPeer sv 0) = Some st"
    "qsServer st = sv\<lparr>svConns := demoGreeted\<rparr>" "qsNow st = 12" "qsJobs st = []" "qsWorking st = []" "qsParked st = []"
    "qsSlotted st = []" "qsWaiting st = []" by blast
  show ?thesis unfolding peerRun_append st(1)
    by (simp add: st receive_def Peer_arrived_def decodeRequest_def peer_demo_defs countFrame_def enqueue_def tick_def
      workTake_def busy_def admit_def served_def pipeline_def demo_conns)
qed

definition demoKnown :: "memoryGroup \<Rightarrow> (MemoryStore, LinkBoxStore) Server" where
  "demoKnown g = demoServer (NewMemoryStore DefaultLimits\<lparr>msGroups := [demoGroupId \<mapsto> g]\<rparr>)"

lemma demo_handler [simp]:
  "hStore (demoServing\<lparr>hFront := f\<rparr>) = memoryOps id 0" "hKnownGroups (demoServing\<lparr>hFront := f\<rparr>) = storeKnownGroups"
  "hRejectFloor (demoServing\<lparr>hFront := f\<rparr>) = 1000" "hFront (demoServing\<lparr>hFront := f\<rparr>) = f"
  by (simp_all add: demoServing_def demoHandler_def)

lemma demo_open_group: obtains g :: memoryGroup where "\<not> mgClosed g"
proof -
  have "some_sat (\<lambda>s. some_sat (\<lambda>g. \<not> mgClosed g) (msGroups s demoGroupId)) (demoRun [])" by code_simp
  then show thesis using that by (auto simp: some_sat_iff)
qed

lemma demo_stages:
  assumes "\<not> mgClosed g"
  shows "\<exists>pass. runReadStages (fetchStages demoLayer (demoServing\<lparr>hFront := f\<rparr>) None)
     \<lparr> fpConn = toApiConnection demoFetched 0, fpRequest = demoFetch, fpOp = op, fpReadKey = [] \<rparr> (svWorld (demoKnown g)) =
     ((svWorld (demoKnown g))\<lparr>wKnown := [demoGroupId]\<rparr>, pass, REASON_REJECTED)"
proof -
  have "length (replicate 32 (7 :: byte)) \<noteq> length [9 :: byte]" by simp
  then have "replicate 32 (7 :: byte) \<noteq> [9]" by metis
  moreover have "length demoGroupId = 32" by (simp add: demoGroupId_def)
  moreover note assms
  ultimately show ?thesis
    by (simp add: fetchStages_def checkFetchShape_def demoFetch_def GroupIdBytes_def checkFetchKnownGroup_def
        Contains_def store_Contains_def memoryOps_def demoKnown_def demoServer_def demoWorld_def
        MemoryStore_GroupState_def checkLength_def NewMemoryStore_def known_Insert_def checkReadKey_def checkRequestAuth_def
        canonicalFetchBytes_def demoLayer_def demo_conns ctxErr_None split: option.split)
qed

lemma demo_fetch_serve:
  assumes "\<not> mgClosed g"
  shows "serve demoWire demoLayer demoRendezvous demoPeer demoServing (memoryLinkBoxes id) None (demoReadings 30)
     demoArrived demoFetchRequest (FetchBody demoFetch) (demoKnown g\<lparr>svConns := demoFetched\<rparr>) =
     Some (demoKnown g\<lparr>svConns := demoFetched, svWorld := (svWorld (demoKnown g))\<lparr>wKnown := [demoGroupId]\<rparr>\<rparr>,
       refusalOf demoFetchRequest REASON_REJECTED, Some 990)"
proof -
  let ?f = "peerChecks demoPeer demoFetched demoArrived (rdChecked (demoReadings 30))"
  have front: "frontChecks (demoServing\<lparr>hFront := ?f\<rparr>) (toApiConnection demoFetched 0) 10 = REASON_OK"
    by (simp add: frontChecks_def peerChecks_def FrameWithinLimits_def withinLimits_def demo_conns ChecksNotImplemented_def)
  from demo_stages [OF assms, where f = ?f and op = 10] obtain pass where
    "runReadStages (fetchStages demoLayer (demoServing\<lparr>hFront := ?f\<rparr>) None)
     \<lparr> fpConn = toApiConnection demoFetched 0, fpRequest = demoFetch, fpOp = 10, fpReadKey = [] \<rparr> (svWorld (demoKnown g)) =
     ((svWorld (demoKnown g))\<lparr>wKnown := [demoGroupId]\<rparr>, pass, REASON_REJECTED)" ..
  with front show ?thesis
    by (simp add: serve_def runRoute_def Let_def onWorld_def Handler_Fetch_def behindFront_def demo_op
        padded_def pad_def ranOf_def envelope_def setResponseBody_def demoReadings_def)
qed

lemma demo_fetch_changes:
  assumes "\<not> mgClosed g"
  obtains st st' where "peerRun demoDeployment demoFetchOps (startPeer demoPeer (demoKnown g) 0) = Some st"
    "peerStep demoDeployment (WorkServe None 0 (demoReadings 30) (\<lambda>_. True)) st = Some st'"
    "svWorld (qsServer st') \<noteq> svWorld (qsServer st)" "qsNow st' = 40" "qsSlotted st' = []" "qsWaiting st' = []"
    "qsParked st' = [\<lparr> ogClient = [1], ogResponse = refusalOf demoFetchRequest REASON_REJECTED, ogWait = Some 990,
       ogStarted = 30 \<rparr>]"
proof -
  have "svConns (demoKnown g) = NewConnections 0" by (simp add: demoKnown_def demoServer_def)
  from demo_fetch_run [OF this] obtain st where st: "peerRun demoDeployment demoFetchOps (startPeer demoPeer (demoKnown g) 0) = Some st"
    "qsServer st = demoKnown g\<lparr>svConns := demoFetched\<rparr>" "qsNow st = 21"
    "qsWorking st = [(demoArrived, demoFetchRequest, FetchBody demoFetch)]" "qsParked st = []"
    "qsSlotted st = []" "qsWaiting st = []" by blast
  have c: "ckStarted (rdClock (demoReadings 30)) = 30" "ckPad (rdClock (demoReadings 30)) = 40"
    by (simp_all add: demoReadings_def)
  have d: "dyRecords demoDeployment = demoLayer" "dyRendezvous demoDeployment = demoRendezvous"
    "dyBoxes demoDeployment = memoryLinkBoxes id" by (simp_all add: demoDeployment_def)
  have w: "wKnown (svWorld (demoKnown g)) = []" by (simp add: demoKnown_def demoServer_def demoWorld_def)
  obtain st' where st': "peerStep demoDeployment (WorkServe None 0 (demoReadings 30) (\<lambda>_. True)) st = Some st'"
    "wKnown (svWorld (qsServer st')) = [demoGroupId]" "qsNow st' = 40" "qsSlotted st' = []" "qsWaiting st' = []"
    "qsParked st' = [\<lparr> ogClient = [1], ogResponse = refusalOf demoFetchRequest REASON_REJECTED, ogWait = Some 990,
       ogStarted = 30 \<rparr>]"
    by (simp add: st c d tick_def workServe_def demo_fetch_serve [OF assms] deferred_def Let_def)
  moreover have "svWorld (qsServer st') \<noteq> svWorld (qsServer st)" using st'(2) w by (auto simp: st(2))
  ultimately show thesis using that st(1) by blast
qed

section \<open>Nothing changes without a live connection\<close>

text \<open>The request got past the front checks.\<close>

definition passes :: "'s Handler \<Rightarrow> ApiConnection option \<Rightarrow> bool" where
  "passes h conn \<longleftrightarrow> (\<exists>c op. conn = Some c \<and> frontChecks h c op = REASON_OK)"

lemma behindFront_passes:
  "behindFront L h ck arm conn request w k = Some (w', answer) \<Longrightarrow> w' \<noteq> w \<Longrightarrow> passes h conn"
  by (erule behindFront_cases) (auto simp: passes_def)

lemma Unsubscribe_passes:
  "Handler_Unsubscribe L h conn request w = (w', reason, err) \<Longrightarrow> w' \<noteq> w \<Longrightarrow> passes h conn"
  by (auto simp: Handler_Unsubscribe_def passes_def split: option.splits sum.splits if_splits)

lemma on_passes:
  "onWorld sv wrap (behindFront L h ck arm conn request (svWorld sv) k) = Some (sv', r) \<Longrightarrow>
     svRendezvous sv' = svRendezvous sv \<and> (svWorld sv' \<noteq> svWorld sv \<longrightarrow> passes h conn)"
  "onRendezvous sv wrap' (behindFront L h ck arm conn request' (svRendezvous sv) k') = Some (sv', r) \<Longrightarrow>
     svWorld sv' = svWorld sv \<and> (svRendezvous sv' \<noteq> svRendezvous sv \<longrightarrow> passes h conn)"
  by (auto simp: onWorld_def onRendezvous_def dest: behindFront_passes)

lemmas behind_front = Handler_CreateGroup_def Handler_Submit_def Handler_Fetch_def Handler_Subscribe_def
  RendezvousRegister_def RendezvousOpen_def RendezvousDeposit_def RendezvousCollect_def RendezvousRetire_def

lemma runRoute_passes:
  assumes "runRoute L R p h ops ctx rd a body sv = Some (sv', r)"
    and "svWorld sv' \<noteq> svWorld sv \<or> svRendezvous sv' \<noteq> svRendezvous sv"
  shows "pipeline body \<and> passes (h\<lparr>hFront := peerChecks p (svConns sv) a (rdChecked rd)\<rparr>)
    (map_option (toApiConnection (svConns sv)) (ibConnection a))"
proof (cases body)
  case (HelloBody versions)
  with assms show ?thesis by (auto simp: runRoute_def Let_def split: prod.splits)
next
  case (UnsubscribeBody q)
  with assms show ?thesis
    by (auto simp: runRoute_def Let_def pipeline_def split: prod.splits dest: Unsubscribe_passes)
qed (use assms in \<open>auto simp: runRoute_def Let_def pipeline_def behind_front dest!: on_passes\<close>)

lemma peerChecks_pass:
  assumes "passes (h\<lparr>hFront := peerChecks p conns a now\<rparr>) (map_option (toApiConnection conns) (ibConnection a))"
  shows "ibBytes a \<le> prMaxRequestBytes p \<and>
    (\<exists>c. ibConnection a = Some c \<and> map_of (csLive conns) (cnClientId (deref conns c)) = Some c \<and> \<not> expired conns c now)"
  using assms
  by (auto simp: passes_def frontChecks_def peerChecks_def FrameWithinLimits_def withinLimits_def ConnectionAuthenticated_def
      IsLive_def split: if_splits)

lemma tick_server: "tick now st = Some st' \<Longrightarrow> qsServer st' = qsServer st \<and> qsWorking st' = qsWorking st"
  by (auto simp: tick_def split: if_splits)

text \<open>What a step leaves of the two worlds, unless it runs a handler.\<close>

definition same_worlds :: "('s, 'b, 'x) PeerState \<Rightarrow> ('s, 'b, 'x) PeerState \<Rightarrow> bool" where
  "same_worlds st st' \<longleftrightarrow> svWorld (qsServer st') = svWorld (qsServer st) \<and>
     svRendezvous (qsServer st') = svRendezvous (qsServer st)"

lemma receive_worlds: "receive d c frame now1 now2 st = Some st' \<Longrightarrow> same_worlds st st'"
  by (auto simp: same_worlds_def receive_def Peer_arrived_def arrivedFragment_def countFrame_def dropFrame_def Let_def
      enqueue_def Peer_refuse_def split: frameKind.splits option.splits prod.splits if_splits)

lemma workTake_worlds: "workTake d now taken st = Some st' \<Longrightarrow> same_worlds st st'"
  by (auto simp: same_worlds_def workTake_def Let_def split: list.splits if_splits prod.splits sum.splits)

lemma step_worlds:
  assumes "peerStep d x st = Some st'" and "\<not> (\<exists>ctx i rd taken. x = WorkServe ctx i rd taken)"
  shows "same_worlds st st'"
proof (cases x)
  case (Receive c frame now1 now2)
  with assms(1) receive_worlds show ?thesis by fastforce
next
  case (WorkTake now taken)
  with assms(1) show ?thesis
    by (auto simp: bind_eq_Some_conv same_worlds_def dest!: workTake_worlds tick_server)
qed (use assms in \<open>auto simp: same_worlds_def takeSlot_def acquireBytes_def fire_def refuseNext_def tick_def abandon_def Let_def
      split: if_splits prod.splits list.splits heldAt.splits\<close>)

text \<open>
  C5: Nothing changes without a live connection. Whatever frames have arrived and however the
  workers interleave, a step that changes the store, the subscriptions, the known groups, the link
  boxes or their claims is the running of one request's handler, and that request is within the
  size and the version the server advertises and was looked up on the connection its own client's
  last Hello opened, which at the check is still the live one. A Hello, an unknown arm, a stale
  connection and a malformed frame change nothing.
\<close>

theorem changes_need_live_connection:
  assumes "newPeer config = Inr (dyPeer d)" and "svConns sv = NewConnections idle"
    and "peerRun d xs (startPeer (dyPeer d) sv now) = Some st" and "peerStep d x st = Some st'"
    and "svWorld (qsServer st') \<noteq> svWorld (qsServer st) \<or> svRendezvous (qsServer st') \<noteq> svRendezvous (qsServer st)"
  shows "\<exists>ctx i rd taken a request body c. x = WorkServe ctx i rd taken \<and> i < length (qsWorking st) \<and>
    qsWorking st ! i = (a, request, body) \<and> rqBody request = Some body \<and> pipeline body \<and> served (dyHandler d) body \<and>
    (rqProtocolVersion request = 0 \<or> rqProtocolVersion request = prProtocolVersion (dyPeer d)) \<and>
    ibBytes a \<le> prMaxRequestBytes (dyPeer d) \<and> ibConnection a = Some c \<and>
    map_of (csLive (svConns (qsServer st))) (ibClientId a) = Some c \<and>
    \<not> expired (svConns (qsServer st)) c (rdChecked rd)"
proof -
  have inv: "peer_inv d st" by (rule peerRun_inv(2) [OF assms(1-3)])
  obtain ctx i rd taken where x: "x = WorkServe ctx i rd taken"
    using step_worlds [OF assms(4)] assms(5) by (auto simp: same_worlds_def)
  from assms(4) x obtain st1 where t: "tick (ckPad (rdClock rd)) st = Some st1" "workServe d ctx i rd taken st1 = Some st'"
    by (auto simp: bind_eq_Some_conv split: if_splits)
  note ts = tick_server [OF t(1)]
  from t(2) ts obtain a request body where i: "i < length (qsWorking st)" "qsWorking st ! i = (a, request, body)"
    by (auto simp: workServe_def split: if_splits prod.splits)
  with t(2) ts obtain sv' r where run: "runRoute (dyRecords d) (dyRendezvous d) (dyPeer d) (dyHandler d) (dyBoxes d) ctx rd
      a body (qsServer st) = Some (sv', r)" "qsServer st' = sv'"
    by (auto simp: workServe_def serve_def Let_def split: option.splits if_splits)
  note pass = runRoute_passes [OF run(1)] assms(5) [unfolded run(2)]
  have adm: "admitted_ok (dyPeer d) (dyHandler d) (svConns (qsServer st)) (a, request, body)"
    using inv i nth_mem [OF i(1)] by (auto simp: peer_inv_def conns_ok_def)
  from pass peerChecks_pass obtain c where "pipeline body" "ibBytes a \<le> prMaxRequestBytes (dyPeer d)" "ibConnection a = Some c"
    "map_of (csLive (svConns (qsServer st))) (cnClientId (deref (svConns (qsServer st)) c)) = Some c"
    "\<not> expired (svConns (qsServer st)) c (rdChecked rd)" by blast
  with adm x i show ?thesis by (auto simp: admitted_ok_def)
qed

theorem changes_need_live_connection_witness:
  "\<exists>g st st' c. peerRun demoDeployment demoFetchOps (startPeer demoPeer (demoKnown g) 0) = Some st \<and>
     peerStep demoDeployment (WorkServe None 0 (demoReadings 30) (\<lambda>_. True)) st = Some st' \<and>
     svWorld (qsServer st') \<noteq> svWorld (qsServer st) \<and> ibConnection (fst (qsWorking st ! 0)) = Some c \<and>
     map_of (csLive (svConns (qsServer st))) (ibClientId (fst (qsWorking st ! 0))) = Some c"
proof -
  from demo_open_group obtain g :: memoryGroup where g: "\<not> mgClosed g" .
  from demo_fetch_changes [OF g] obtain st st' where d:
    "peerRun demoDeployment demoFetchOps (startPeer demoPeer (demoKnown g) 0) = Some st"
    "peerStep demoDeployment (WorkServe None 0 (demoReadings 30) (\<lambda>_. True)) st = Some st'"
    "svWorld (qsServer st') \<noteq> svWorld (qsServer st)" .
  have "newPeer demoConfig = Inr (dyPeer demoDeployment)" "svConns (demoKnown g) = NewConnections 0"
    by (simp_all add: demo_newPeer demoKnown_def demoServer_def)
  from changes_need_live_connection [OF this, of demoFetchOps 0 st "WorkServe None 0 (demoReadings 30) (\<lambda>_. True)" st'] d
  show ?thesis by (intro exI [of _ g] exI [of _ st] exI [of _ st']) auto
qed

section \<open>Every request is answered\<close>

text \<open>The steps the peer makes by itself: no frame arrives, nothing closes it, nothing is given up.\<close>

fun internal :: "peerOp \<Rightarrow> bool" where
  "internal (Receive _ _ _ _) = False"
| "internal (Abandon _) = False"
| "internal ClosePeer = False"
| "internal _ = True"

text \<open>How far the pending requests still have to go.\<close>

definition remaining :: "('s, 'b, 'x) PeerState \<Rightarrow> nat" where
  "remaining st = 5 * length (qsJobs st) + 4 * length (qsWorking st) + 3 * length (qsParked st) +
     2 * length (qsSlotted st) + length (qsWaiting st)"

text \<open>Some request is waiting for a handler that panics.\<close>

definition panics :: "('s, 'b, 'x) Deployment \<Rightarrow> ('s, 'b, 'x) PeerState \<Rightarrow> bool" where
  "panics d st \<longleftrightarrow> (\<exists>a request body rd. (a, request, body) \<in> set (qsWorking st) \<and>
     serve (dyWire d) (dyRecords d) (dyRendezvous d) (dyPeer d) (dyHandler d) (dyBoxes d) None rd
       a request body (qsServer st) = None)"

definition readingsAt :: "time \<Rightarrow> Readings" where
  "readingsAt t = \<lparr> rdChecked = t, rdClock = \<lparr> ckStarted = t, ckShape = \<lambda>_. t, ckPad = t \<rparr>, rdNow = t, rdSwept = t,
     rdOpened = t, rdAnswered = t, rdRandom = [] \<rparr>"

lemma remaining_sendAnswer [simp]: "remaining (sendAnswer d t a st) = remaining st"
  by (simp add: remaining_def sendAnswer_def)

definition advances :: "('s, 'b, 'x) Deployment \<Rightarrow> ('s, 'b, 'x) PeerState \<Rightarrow> bool" where
  "advances d st \<longleftrightarrow> (\<exists>ys st'. list_all internal ys \<and> peerRun d ys st = Some st' \<and> remaining st' < remaining st \<and>
     qsArrived st' = qsArrived st \<and> qsClosed st' = qsClosed st)"

lemma advances_one:
  assumes "peerStep d x st = Some st'" and "internal x" and "remaining st' < remaining st"
    and "qsArrived st' = qsArrived st" and "qsClosed st' = qsClosed st"
  shows "advances d st"
  unfolding advances_def by (intro exI [of _ "[x]"] exI [of _ st']) (use assms in simp)

lemma waiting_advances:
  assumes "qsWaiting st \<noteq> []"
  shows "advances d st"
proof -
  obtain a held due ws where w: "qsWaiting st = (a, held, due) # ws" using assms by (cases "qsWaiting st") auto
  let ?t = "max (qsNow st) due"
  let ?st1 = "st\<lparr>qsNow := ?t\<rparr>"
  let ?st2 = "sendAnswer d (\<lambda>_. True) a (?st1\<lparr>qsWaiting := ws\<rparr>)"
  have "peerRun d [Elapse ?t, Fire 0 (\<lambda>_. True)] st = Some ?st2"
    by (simp add: tick_def fire_def w remove_at_def)
  moreover have "remaining ?st2 < remaining st" by (simp add: w) (simp add: remaining_def w)
  ultimately show ?thesis unfolding advances_def
    by (intro exI [of _ "[Elapse ?t, Fire 0 (\<lambda>_. True)]"] exI [of _ ?st2]) simp
qed

lemma slotted_advances:
  assumes "qsWaiting st = []" and "qsSlotted st \<noteq> []"
  shows "advances d st"
proof -
  obtain a as where s: "qsSlotted st = a # as" using assms(2) by (cases "qsSlotted st") auto
  then obtain st' where "peerStep d (AcquireBytes 0) st = Some st'" "remaining st' < remaining st"
    "qsArrived st' = qsArrived st" "qsClosed st' = qsClosed st"
    by (simp add: acquireBytes_def assms(1) heldBytes_def heldBy_def remove_at_def remaining_def Let_def)
  then show ?thesis using advances_one [of d "AcquireBytes 0" st st'] by simp
qed

lemma parked_advances:
  assumes "qsWaiting st = []" and "qsSlotted st = []" and "qsParked st \<noteq> []" and "peer_ok (dyPeer d)"
  shows "advances d st"
proof -
  obtain a as where s: "qsParked st = a # as" using assms(3) by (cases "qsParked st") auto
  then obtain st' where "peerStep d (TakeSlot 0) st = Some st'" "remaining st' < remaining st"
    "qsArrived st' = qsArrived st" "qsClosed st' = qsClosed st"
    using assms(4) by (simp add: takeSlot_def assms(1,2) slots_def remove_at_def remaining_def Let_def peer_ok_def)
  then show ?thesis using advances_one [of d "TakeSlot 0" st st'] by simp
qed

lemma working_advances:
  assumes "qsWorking st \<noteq> []" and "\<not> panics d st"
  shows "advances d st"
proof -
  obtain a request body ws where w: "qsWorking st = (a, request, body) # ws" using assms(1) by (cases "qsWorking st") auto
  let ?rd = "readingsAt (qsNow st)"
  have rd: "ckStarted (rdClock ?rd) = qsNow st" "ckPad (rdClock ?rd) = qsNow st" by (simp_all add: readingsAt_def)
  have "(a, request, body) \<in> set (qsWorking st)" by (simp add: w)
  with assms(2) have "serve (dyWire d) (dyRecords d) (dyRendezvous d) (dyPeer d) (dyHandler d)
      (dyBoxes d) None ?rd a request body (qsServer st) \<noteq> None" unfolding panics_def by (metis (no_types))
  then obtain sv response wait where run: "serve (dyWire d) (dyRecords d) (dyRendezvous d) (dyPeer d) (dyHandler d)
      (dyBoxes d) None ?rd a request body (qsServer st) = Some (sv, response, wait)" by auto
  let ?a = "\<lparr> ogClient = ibClientId a, ogResponse = response, ogWait = wait, ogStarted = qsNow st \<rparr>"
  let ?st1 = "st\<lparr>qsWorking := ws, qsServer := sv\<rparr>"
  let ?st' = "if deferred wait then ?st1\<lparr>qsParked := qsParked st @ [?a]\<rparr> else sendAnswer d (\<lambda>_. True) ?a ?st1"
  have "peerStep d (WorkServe None 0 ?rd (\<lambda>_. True)) st = Some ?st'"
    by (simp add: rd tick_def workServe_def w run remove_at_def Let_def)
  moreover have "internal (WorkServe None 0 ?rd (\<lambda>_. True))" by simp
  moreover have "remaining ?st' < remaining st" by simp (simp add: remaining_def w)
  ultimately show ?thesis by (rule advances_one) simp_all
qed

lemma jobs_advance:
  assumes "qsWorking st = []" and "qsParked st = []" and "qsSlotted st = []" and "qsJobs st \<noteq> []" and "peer_ok (dyPeer d)"
  shows "advances d st"
proof -
  obtain a request js where j: "qsJobs st = (a, request) # js" using assms(4) by (cases "qsJobs st") auto
  obtain conns outcome where adm: "admit (dyPeer d) (dyHandler d) (qsNow st) a request (svConns (qsServer st)) = (conns, outcome)"
    by fastforce
  have free: "int (busy st) < prWorkers (dyPeer d)" using assms(1-3,5) by (simp add: busy_def peer_ok_def)
  obtain st' where "workTake d (qsNow st) (\<lambda>_. True) st = Some st'" "remaining st' < remaining st"
    "qsArrived st' = qsArrived st" "qsClosed st' = qsClosed st"
    by (cases outcome) (auto simp: workTake_def j adm free Let_def, auto simp: remaining_def j)
  then show ?thesis using advances_one [of d "WorkTake (qsNow st) (\<lambda>_. True)" st st'] by (simp add: tick_def)
qed

lemma peer_advances:
  assumes "peer_ok (dyPeer d)" and "\<not> panics d st" and "remaining st \<noteq> 0"
  shows "advances d st"
  using assms waiting_advances slotted_advances parked_advances working_advances jobs_advance
  by (metis (no_types, opaque_lifting) add_is_0 list.size(3) mult_0_right remaining_def)

lemma remaining_none: "remaining st = 0 \<Longrightarrow> pendingOf st = {#}"
  by (simp add: remaining_def pendingOf_def)

lemma peer_drains:
  assumes "peer_ok (dyPeer d)"
  shows "\<exists>ys st'. list_all internal ys \<and> peerRun d ys st = Some st' \<and> qsArrived st' = qsArrived st \<and>
    qsClosed st' = qsClosed st \<and> (remaining st' = 0 \<or> panics d st')"
proof (induction "remaining st" arbitrary: st rule: less_induct)
  case less
  show ?case
  proof (cases "remaining st = 0 \<or> panics d st")
    case True
    then show ?thesis by (intro exI [of _ "[]"] exI [of _ st]) simp
  next
    case False
    with peer_advances [OF assms] obtain ys st1 where a: "list_all internal ys" "peerRun d ys st = Some st1"
      "remaining st1 < remaining st" "qsArrived st1 = qsArrived st" "qsClosed st1 = qsClosed st"
      unfolding advances_def by blast
    from less [OF a(3)] obtain zs st' where b: "list_all internal zs" "peerRun d zs st1 = Some st'"
      "qsArrived st' = qsArrived st1" "qsClosed st' = qsClosed st1" "remaining st' = 0 \<or> panics d st'" by blast
    have "peerRun d (ys @ zs) st = Some st'" using a(2) b(2) by (simp add: peerRun_append)
    with a b show ?thesis by (intro exI [of _ "ys @ zs"] exI [of _ st']) simp
  qed
qed

text \<open>
  C9: Every request is answered, once, under its own id. In whatever state an open peer is, each
  request it has taken is either still with it or has been answered exactly as often as it was
  taken; and by steps of its own it reaches a state in which every request it had taken has been
  answered, unless it reaches one in which a request's handler panics. It does not deadlock on its
  queue, its workers, its slots or its budget of bytes, and an answer keeps the client and the
  request id it belongs to.
\<close>

theorem every_request_answered:
  assumes "newPeer config = Inr (dyPeer d)" and "svConns sv = NewConnections idle"
    and "peerRun d xs (startPeer (dyPeer d) sv now) = Some st" and "\<not> qsClosed st"
  shows "pendingOf st + answeredOf st = mset (qsArrived st) \<and>
    (\<exists>ys st'. list_all internal ys \<and> peerRun d ys st = Some st' \<and>
      (answeredOf st' = mset (qsArrived st) \<or> panics d st'))"
proof -
  have ok: "peer_ok (dyPeer d)" by (rule peerRun_inv(1) [OF assms(1-3)])
  have "pendingOf st + answeredOf st = mset (qsArrived st)"
    using peerRun_inv(2) [OF assms(1-3)] assms(4) by (simp add: peer_inv_def ledger_ok_def)
  moreover from peer_drains [OF ok] obtain ys st' where y: "list_all internal ys" "peerRun d ys st = Some st'"
    "qsArrived st' = qsArrived st" "qsClosed st' = qsClosed st" "remaining st' = 0 \<or> panics d st'" by blast
  have "peerRun d (xs @ ys) (startPeer (dyPeer d) sv now) = Some st'" using assms(3) y(2) by (simp add: peerRun_append)
  from peerRun_inv(2) [OF assms(1,2) this] y assms(4) remaining_none [of st']
  have "answeredOf st' = mset (qsArrived st) \<or> panics d st'" by (auto simp: peer_inv_def ledger_ok_def)
  ultimately show ?thesis using y(1,2) by blast
qed

theorem every_request_answered_witness:
  "\<exists>g st. peerRun demoDeployment [Receive [1] (demoFrame RequestFrame [1]) 0 0] (startPeer demoPeer (demoKnown g) 0) = Some st \<and>
     qsArrived st = [([1], 5)] \<and> (\<exists>ys st'. list_all internal ys \<and> peerRun demoDeployment ys st = Some st' \<and>
       (answeredOf st' = {# ([1], 5) #} \<or> panics demoDeployment st'))"
proof -
  fix g
  obtain st where st: "peerRun demoDeployment [Receive [1] (demoFrame RequestFrame [1]) 0 0] (startPeer demoPeer (demoKnown g) 0)
      = Some st" "qsArrived st = [([1], 5)]" "\<not> qsClosed st"
    by (simp add: startPeer_def receive_def Peer_arrived_def decodeRequest_def peer_demo_defs countFrame_def enqueue_def)
  have "newPeer demoConfig = Inr (dyPeer demoDeployment)" "svConns (demoKnown g) = NewConnections 0"
    by (simp_all add: demo_newPeer demoKnown_def demoServer_def)
  from every_request_answered [OF this, of "[Receive [1] (demoFrame RequestFrame [1]) 0 0]" 0 st] st
  show ?thesis by (intro exI [of _ g] exI [of _ st]) simp
qed

section \<open>What the peer holds is bounded\<close>


text \<open>The demonstration's refused fetch, held until its slot, its bytes and its time.\<close>

abbreviation "demoHeldOps \<equiv> demoFetchOps @ [WorkServe None 0 (demoReadings 30) (\<lambda>_. True), TakeSlot 0, AcquireBytes 0]"



section \<open>A padded refusal waits out its floor\<close>


lemma accepted_OK [simp]: "accepted REASON_OK"
  by (simp add: accepted_def)
























section \<open>What is sent fits\<close>

lemma sendLoop_facts:
  assumes "sendLoop taken i frames st = (out, st')"
  shows "out = frames \<and> saResponsesFailed st' = saResponsesFailed st \<or> saResponsesFailed st' = saResponsesFailed st + 1"
  using assms by (induction taken i frames st arbitrary: out rule: sendLoop.induct) (fastforce split: if_splits prod.splits)+

lemma marshalAll_decodes:
  assumes "marshalAll m xs = Some bs" and "\<And>x b. m x = Some b \<Longrightarrow> u b = Some x"
  shows "map u bs = map Some xs"
  using assms(1) by (induction xs arbitrary: bs) (auto split: option.splits dest: assms(2))

lemma part_small:
  assumes "f \<in> set (responseFragments rid body pb)" and "0 < pb"
  shows "int (length (fPart f)) \<le> pb"
proof -
  from assms(1) obtain x :: nat where
    "fPart f = take (nat (min ((int x + 1) * pb) (int (length body)) - int x * pb)) (drop (nat (int x * pb)) body)"
    by (auto simp: responseFragments_def Let_def)
  then have "length (fPart f) \<le> nat (min ((int x + 1) * pb) (int (length body)) - int x * pb)" by simp
  moreover have "min ((int x + 1) * pb) (int (length body)) - int x * pb \<le> pb" by (simp add: distrib_right)
  ultimately show ?thesis using assms(2) by linarith
qed

lemma responseFrames_whole:
  assumes frames: "responseFrames (wrMarshalFragment W) rid (Some body) budget = Some out" and small: "length body < 2 ^ 32"
    and codec: "\<forall>f b. wrMarshalFragment W f = Some b \<longrightarrow> wrUnmarshalFragment W b = Some f"
  shows "out = [(MessageMessageServerResponse, body)] \<or>
     (\<exists>frags. map fst out = replicate (length frags) MessageMessageServerFragment \<and>
        map (wrUnmarshalFragment W \<circ> snd) out = map Some frags \<and> map fIndex frags = map of_nat [0 ..< length frags] \<and>
        (\<forall>f \<in> set frags. fRequestId f = rid \<and> unat (fCount f) = length frags \<and> length (fPart f) \<le> 2048) \<and>
        concat (map fPart frags) = body)"
proof (cases "int (length body) \<le> partSize budget")
  case True
  with frames show ?thesis by (simp add: responseFrames_def Let_def)
next
  case False
  define frags where "frags = responseFragments rid body (partSize budget)"
  from frames False obtain bs where bs: "marshalAll (wrMarshalFragment W) frags = Some bs"
    "out = map (Pair MessageMessageServerFragment) bs"
    by (auto simp: responseFrames_def Let_def frags_def)
  from marshalAll_decodes [OF bs(1), of "wrUnmarshalFragment W"] codec
  have dec: "map (wrUnmarshalFragment W) bs = map Some frags" by blast
  then have "length bs = length frags" by (metis length_map)
  moreover note facts = responseFragments_facts [OF partSize_range(1) frags_def small]
  moreover have "length (fPart f) \<le> 2048" if "f \<in> set frags" for f
    using part_small [OF that [unfolded frags_def] partSize_range(1)] partSize_range(2) [of budget]
    by (simp add: MaxFragmentPartBytes_def)
  ultimately show ?thesis using bs(2) dec
    by (intro disjI2 exI [of _ frags]) (simp add: o_def map_replicate_const)
qed

text \<open>
  C25: What is sent fits, and is whole. Where the protobuf code decodes what it encoded and its size
  is the length of its encoding, and a bare refusal fits: if \<open>send\<close> counts no failure, the response
  that went out has the request id of the one it was given and is no longer than the advertised
  \<open>max_response_bytes\<close>, it is the given one unless that was longer, and it went in one frame or in
  fragments of at most 2048 bytes, numbered in order from zero under that request id, whose parts
  are its encoding.
\<close>

theorem response_sent_whole:
  assumes "newPeer config = Inr p" and "prMaxResponseBytes p < 2 ^ 32"
    and "\<forall>r b. wrMarshalResponse W r = Some b \<longrightarrow> length b = wrSize W r"
    and "\<forall>f b. wrMarshalFragment W f = Some b \<longrightarrow> wrUnmarshalFragment W b = Some f"
    and "int (wrSize W \<lparr> rsRequestId = rsRequestId response, rsReason = REASON_OVERSIZE, rsBody = None \<rparr>) \<le> prMaxResponseBytes p"
    and "send W p taken response st = (out, st')" and "saResponsesFailed st' = saResponsesFailed st"
  shows "\<exists>sent body. rsRequestId sent = rsRequestId response \<and> wrMarshalResponse W sent = Some body \<and>
    int (length body) \<le> prMaxResponseBytes p \<and> (int (wrSize W response) \<le> prMaxResponseBytes p \<longrightarrow> sent = response) \<and>
    (out = [(MessageMessageServerResponse, body)] \<or>
     (\<exists>frags. map fst out = replicate (length frags) MessageMessageServerFragment \<and>
        map (wrUnmarshalFragment W \<circ> snd) out = map Some frags \<and> map fIndex frags = map of_nat [0 ..< length frags] \<and>
        (\<forall>f \<in> set frags. fRequestId f = rsRequestId response \<and> unat (fCount f) = length frags \<and> length (fPart f) \<le> 2048) \<and>
        concat (map fPart frags) = body))"
proof -
  let ?sent = "bounded W p response"
  have failed: "saResponsesFailed st + 1 \<noteq> saResponsesFailed st" by simp
  from assms(6,7) failed obtain frames where frames: "responseFrames (wrMarshalFragment W) (rsRequestId response)
      (wrMarshalResponse W ?sent) (prFragmentPartBytes p) = Some frames" "sendLoop taken 0 frames st = (out, st')"
    by (auto simp: send_def Let_def split: option.splits)
  from sendLoop_facts [OF frames(2)] assms(7) failed have out: "out = frames" by auto
  from frames(1) obtain body where body: "wrMarshalResponse W ?sent = Some body"
    by (auto simp: responseFrames_def Let_def split: option.splits)
  have fits: "int (length body) \<le> prMaxResponseBytes p"
    using assms(3,5) body by (auto simp: bounded_def split: if_splits)
  then have small: "length body < 2 ^ 32" using assms(2) by simp
  have "responseFrames (wrMarshalFragment W) (rsRequestId response) (Some body) (prFragmentPartBytes p) = Some out"
    using frames(1) body out by simp
  from responseFrames_whole [OF this small assms(4)] body fits
  show ?thesis by (intro exI [of _ ?sent] exI [of _ body]) (simp add: bounded_def)
qed

text \<open>A codec whose response takes two fragments: an identifier, an index and a count of a byte each.\<close>

definition demoCodec :: "unit Wire" where
  "demoCodec = demoWire\<lparr>wrMarshalResponse := \<lambda>_. Some (replicate 3000 0), wrSize := \<lambda>_. 3000,
     wrMarshalFragment := \<lambda>f.
       (let rid = ucast (fRequestId f) :: byte; index = ucast (fIndex f) :: byte; count = ucast (fCount f) :: byte
        in if ucast rid = fRequestId f \<and> ucast index = fIndex f \<and> ucast count = fCount f
           then Some (rid # index # count # fPart f) else None)\<rparr>"

lemma demoCodec_decodes: "wrMarshalFragment demoCodec f = Some b \<Longrightarrow> wrUnmarshalFragment demoCodec b = Some f"
  by (auto simp: demoCodec_def demoWire_def Let_def split: if_splits)

lemma marshalAll_total: "\<forall>x \<in> set xs. m x \<noteq> None \<Longrightarrow> \<exists>bs. marshalAll m xs = Some bs"
  by (induction xs) auto

lemma sendLoop_taken: "\<exists>st'. sendLoop (\<lambda>_. True) i frames st = (frames, st') \<and> saResponsesFailed st' = saResponsesFailed st"
proof (induction frames arbitrary: i st)
  case (Cons frame frames)
  from Cons [of "Suc i" "st\<lparr>saResponsesSent := saResponsesSent st + 1\<rparr>"] show ?case by auto
qed simp

lemma demo_fragments_marshal:
  "\<exists>bs. marshalAll (wrMarshalFragment demoCodec) (responseFragments 7 (replicate 3000 0) 2048) = Some bs"
proof (rule marshalAll_total, intro ballI)
  let ?frags = "responseFragments 7 (replicate 3000 (0 :: byte)) 2048"
  have len: "length ?frags = 2" by (simp add: responseFragments_def Let_def fragmentCount_def)
  have facts: "map fIndex ?frags = map of_nat [0 ..< length ?frags]"
    "\<forall>f \<in> set ?frags. fRequestId f = 7 \<and> unat (fCount f) = length ?frags"
    by (rule responseFragments_facts [of 2048 ?frags 7 "replicate 3000 0"]; simp)+
  fix f
  assume f: "f \<in> set ?frags"
  then have "fIndex f \<in> set (map fIndex ?frags)" by simp
  then have "fIndex f = 0 \<or> fIndex f = 1" unfolding facts(1) len by (auto simp: upt_rec)
  moreover have "fRequestId f = 7" "fCount f = 2" using facts(2) f len by (simp_all add: word_unat_eq_iff)
  ultimately show "wrMarshalFragment demoCodec f \<noteq> None" by (auto simp: demoCodec_def demoWire_def)
qed

theorem response_sent_whole_witness:
  "\<exists>out st' frags. send demoCodec demoPeer (\<lambda>_. True) \<lparr> rsRequestId = 7, rsReason = REASON_OK, rsBody = None \<rparr> noStats = (out, st') \<and>
     map (wrUnmarshalFragment demoCodec \<circ> snd) out = map Some frags \<and> concat (map fPart frags) = replicate 3000 0"
proof -
  let ?r = "\<lparr> rsRequestId = 7, rsReason = REASON_OK, rsBody = None \<rparr> :: unit pResponse"
  from demo_fragments_marshal obtain bs where bs:
    "marshalAll (wrMarshalFragment demoCodec) (responseFragments 7 (replicate 3000 0) 2048) = Some bs" ..
  let ?out = "map (Pair MessageMessageServerFragment) bs"
  have codec: "wrMarshalResponse demoCodec r = Some (replicate 3000 0)" "wrSize demoCodec r = 3000" for r
    by (simp_all add: demoCodec_def)
  obtain st' where st': "sendLoop (\<lambda>_. True) 0 ?out noStats = (?out, st')" "saResponsesFailed st' = saResponsesFailed noStats"
    using sendLoop_taken by blast
  then have send: "send demoCodec demoPeer (\<lambda>_. True) ?r noStats = (?out, st')"
    by (simp add: send_def bounded_def codec responseFrames_def partSize_def MaxFragmentPartBytes_def bs)
  from response_sent_whole [OF demo_newPeer, of demoCodec ?r "\<lambda>_. True" noStats ?out st'] demoCodec_decodes codec send st'(2)
  obtain frags where "map (wrUnmarshalFragment demoCodec \<circ> snd) ?out = map Some frags" "concat (map fPart frags) = replicate 3000 0 \<or>
      ?out = [(MessageMessageServerResponse, replicate 3000 0)]" by auto
  with send show ?thesis by (intro exI [of _ ?out] exI [of _ st'] exI [of _ frags]) auto
qed

section \<open>Refusals that are dropped\<close>


abbreviation "demoReassembly \<equiv> newReassembly 4 16 1024 30000000000"





end
