(* ===== verification/Spec2Isabelle.thy ===== *)
theory Spec2Isabelle
  imports Store_Retry Store_Fetch Sweep Reassembly_Properties Connections Push_Properties Api_Properties Rendezvous_Api_Properties Peer_Properties
begin

text \<open>
  A verification of the message server: an append-only, end-to-end encrypted store of group records
  and rendezvous link boxes, reached by frames over an authenticated transport. The server reads no
  plaintext; what it promises is about order, idempotence, who may write and read, what a party
  without a key can learn, and how much a client can make it hold.

  \<^bold>\<open>Parts and how they meet.\<close> A frame reaches the peer, which reassembles fragments, queues the request
  and has a worker dispatch it to its handler. A handler runs the front checks, the checks of its
  arm, and one operation of the store, and owes pushes to the subscribers of what changed; two
  delivery goroutines make those pushes through the peer. A job sweeps what has expired from the
  link boxes.

  \<^bold>\<open>Shared vocabulary.\<close> \<open>Prelude\<close>: bytes are lists of 8-bit words, counters words of their column's
  width, instants and durations integers of nanoseconds. A Go error is the left of a sum, a panic is
  \<open>None\<close>, a pointer that is compared is a number. Clocks, contexts and random bytes are arguments.
  The locale \<open>transition_system\<close> (start states, steps, invariant) is interpreted on the store, the
  link boxes, the reassembler, the connections, both delivery loops and the peer.

  \<^bold>\<open>The store\<close> (\<open>src/store/store.go\<close>, \<open>src/store/memory.go\<close>).
  \<^item> \<open>Records\<close>: records, attachments, retention and the shape checks.
  \<^item> \<open>Memory_Store\<close>: the rows of a group, \<open>CreateGroup\<close>, \<open>Submit\<close>, \<open>Fetch\<close>, \<open>CloseGroup\<close> and
    the status reads. \<open>Submit\<close> is two steps (\<open>submitBegin\<close>, \<open>submitEnd\<close>), since the code probes
    before it locks the group.
  \<^item> \<open>Store_Invariant\<close>, \<open>Store_Submit\<close>, \<open>Store_System\<close>: the invariant of a group, that storing one
    record keeps it, and that every interleaving of submissions, creations and closes does.
  \<^item> \<open>Store_Properties\<close>, \<open>Store_Answers\<close>, \<open>Store_Retry\<close>, \<open>Store_Fetch\<close>: one commit per epoch,
    gapless ids, monotonic streams, pinned recovery keys, custody of the epoch keys, an append-only
    history; all or nothing, idempotent replay, the answer to a losing commit, a closed group like
    an unknown one, no panic; and that paging reads everything once and refines a filter. The locale
    \<open>ordered_log\<close> is what paging relies on of a log.

  \<^bold>\<open>Link boxes\<close> (the same files, and \<open>src/sweep/sweep.go\<close>). \<open>Link_Box\<close> has the data and the arms,
  \<open>Link_Box_Invariant\<close> the runs, \<open>Link_Box_Properties\<close> the life of a box, that an accepted deposit
  reaches its collector, the cap on live boxes, and that a sweep changes no later answer. \<open>Sweep\<close> is
  the job's pass over any sweeper that meets the locale \<open>link_box_sweeper\<close>.

  \<^bold>\<open>Requests\<close> (\<open>src/api\<close>).
  \<^item> \<open>Record_Layer\<close>: the library of the record format and the wire types, as parameters.
  \<^item> \<open>Api_Handler\<close>, \<open>Api_Submit\<close>, \<open>Api_Read\<close>: \<open>api.go\<close>, \<open>submit.go\<close> with \<open>epochkeys.go\<close>, and
    \<open>fetch.go\<close> with the subscription arms of \<open>subscribe.go\<close>; one definition per check, in the order
    the code runs them, over a \<open>Store\<close> given as a record of operations.
  \<^item> \<open>Api_Checks\<close>, \<open>Api_Properties\<close>: nothing is written without the epoch's key, a party without one
    gets one answer whatever is stored (locale \<open>answering_store\<close>), a record reads back as it was
    submitted, the alignment of delivered keys, and the shape of every answer.
  \<^item> \<open>Rendezvous_Api\<close>, \<open>Rendezvous_Api_Properties\<close>: the five arms of \<open>rendezvous.go\<close>, who may act on a
    box, what a stranger learns, and that a collector is told of the next deposit.

  \<^bold>\<open>Subscriptions and pushes.\<close> \<open>Subscriptions\<close>, \<open>Push_Invariant\<close>, \<open>Push_Properties\<close>
  (\<open>src/api/subscribe.go\<close>): the registry and its delivery loop as a step relation; no wake-up is lost
  and delivery catches up with what was published. \<open>Binary_Heap\<close> is Go's \<open>container/heap\<close> behind the
  locale \<open>min_queue\<close>; \<open>Rendezvous_Push\<close>, \<open>Rendezvous_Invariant\<close>, \<open>Rendezvous_Calls\<close> and
  \<open>Rendezvous_Properties\<close> (\<open>src/api/rendezvous_push.go\<close>) are the registry of link box subscribers, its
  claims and counts, and how a subscription ends.

  \<^bold>\<open>The peer\<close> (\<open>src/peer\<close>).
  \<^item> \<open>Reassembly\<close>, \<open>Reassembly_Invariant\<close>, \<open>Reassembly_Properties\<close> (\<open>frame.go\<close>): bounded buffers,
    expiry that equals a scan, and that the fragments of a body assemble to it.
  \<^item> \<open>Connections\<close> (\<open>connection.go\<close>, \<open>checks.go\<close>, \<open>hello.go\<close>): a Hello ends the connection before it.
  \<^item> \<open>Peer_Dispatch\<close> (\<open>peer.go\<close>): \<open>New\<close>, the decoding of frames, the two halves of \<open>answer\<close>
    (\<open>admit\<close> and \<open>serve\<close>, between which other workers run), \<open>send\<close> and \<open>Push\<close>.
  \<^item> \<open>Peer_Queues\<close>: the receive callback, \<open>work\<close>, \<open>answerLater\<close>, \<open>refuseLoop\<close>, \<open>sweepLoop\<close> and
    \<open>Close\<close> as steps over the queues, the slots and the budget of bytes.
  \<^item> \<open>Peer_Invariant\<close>, \<open>Peer_Steps\<close>, \<open>Peer_Properties\<close>: the invariant and its preservation; changes
    need a live connection, every request taken is answered once and nothing deadlocks, what a
    client can make the peer hold is bounded, refusals wait out their floor, a response is sent
    whole; and the one refusal that can be lost although the code means to keep it.

  \<^bold>\<open>Bounds and termination.\<close> No definition has fuel: loops are recursion over the data they walk, with
  the sweep's pass bounded by its own number of batches as in the code. The store's theorems are
  about states whose groups have not run out of 64-bit ids (\<open>small\<close>). That the peer and the delivery
  loops come to rest is proved as the existence of a run of their own steps from every reachable
  state; the scheduler is taken to be fair. The peer's clock does not go back. Where a theorem needs
  what a library documents (a decoder inverts its encoder, a size is the length of an encoding), it
  is a hypothesis of that theorem, with a witness on a concrete instance.

  \<^bold>\<open>Not modelled.\<close> The PostgreSQL store (\<open>src/store/pgx.go\<close>, \<open>migrations.go\<close>, \<open>errorclass.go\<close>) is
  SQL whose meaning is the database's; handlers take their store as a parameter instead. The
  contract files of \<open>src/store\<close> are tests. The WebSocket endpoint (\<open>src/endpoint\<close>), the process and
  its configuration (\<open>src/cmd/message-server\<close>), the operator command (\<open>src/cmd/messagectl\<close>) and the
  test client (\<open>src/harness\<close>) are I/O and wiring around these parts. SHA-256, the signature and MAC
  verifiers, protobuf encoding and the transport are parameters. The lists of what a build does not
  do (\<open>NotBuilt\<close>), logging, the goroutine of the sweep job around its pass, and how long a send
  blocks are left out. Mutexes are the atomicity of steps.
\<close>

end
